(* ===== verification/Fiber_Prelude.thy ===== *)
theory Fiber_Prelude
  imports Main "HOL-Library.Word"
begin

text \<open>
  Shared ground of the development: the byte and machine-integer conventions, the exceptions the
  C++ sources throw, the pieces of the C and C++ standard library the sources call (C strings,
  \<open>isspace\<close>, \<open>std::to_string\<close>, \<open>std::stoul\<close>, \<open>std::string::rfind\<close>), and the generic list facts
  and fact collections the component theories use.

  A byte (\<open>uint8_t\<close>, \<open>char\<close>) is an Isabelle \<^typ>\<open>char\<close>, which has exactly 256 values; a byte
  sequence is a \<^typ>\<open>string\<close>. A \<open>size_t\<close> is a \<^typ>\<open>nat\<close> where the code cannot leave the range and
  \<open>u64\<close> of an \<^typ>\<open>int\<close> where the wrap-around matters; hashes and message identifiers are 64-bit words.
\<close>

section \<open>Fact collections\<close>

named_theorems scan_simps \<open>evaluation rules of the byte scanners\<close>
named_theorems frame_simps \<open>what an operation leaves unchanged\<close>

section \<open>Lists\<close>

lemma takeWhile_all: "\<forall>x \<in> set xs. P x \<Longrightarrow> takeWhile P xs = xs"
  by (simp add: takeWhile_eq_all_conv)

section \<open>Machine integers\<close>

type_synonym byte = char
type_synonym uint64 = "64 word"

definition u64 :: "int \<Rightarrow> nat" where
  "u64 i = nat (i mod 2 ^ 64)"

lemma u64_of_nat [simp]: "n < 2 ^ 64 \<Longrightarrow> u64 (int n) = n"
  by (simp add: u64_def flip: of_nat_power)

lemma u64_less [simp]: "u64 i < 2 ^ 64"
proof -
  have "i mod 2 ^ 64 < 2 ^ 64" by (rule pos_mod_bound) simp
  then show ?thesis by (simp add: u64_def nat_less_iff)
qed

abbreviation code :: "byte \<Rightarrow> nat" where
  "code c \<equiv> of_char c"

lemma code_less [simp]: "code c < 256"
  using nat_of_char_less_256 [of c] by simp

section \<open>Exceptions\<close>

text \<open>
  The exceptions the sources throw or let through. \<open>RuntimeException\<close> and \<open>SystemException\<close>
  (ci/coreexcept.h) inherit \<open>std::exception\<close> privately (a class without an access specifier), so
  a \<open>catch (std::exception&)\<close> handler does not catch them; the standard ones it does. The command line
  throws an \<open>int\<close>. \<open>Terminate\<close> is a call of \<open>std::terminate\<close>, which no handler sees.
  \<open>UndefinedBehaviour\<close> is no exception: it is the result of an access outside an object, after
  which the model makes no further claim.
\<close>

datatype exn =
    RuntimeException string
  | SystemException string
  | StdRuntimeError string
  | StdOutOfRange
  | StdInvalidArgument
  | StdLengthError
  | StdSystemError
  | ThrownInt int
  | Terminate
  | UndefinedBehaviour

fun is_std_exception :: "exn \<Rightarrow> bool" where
  "is_std_exception (StdRuntimeError _) = True"
| "is_std_exception StdOutOfRange = True"
| "is_std_exception StdInvalidArgument = True"
| "is_std_exception StdLengthError = True"
| "is_std_exception StdSystemError = True"
| "is_std_exception _ = False"

section \<open>Characters and C strings\<close>

definition NUL :: byte where
  "NUL = CHR 0x00"

lemma code_eq_0: "code c = 0 \<longleftrightarrow> c = NUL"
proof
  assume "code c = 0"
  then have "code c = code NUL" by (simp add: NUL_def)
  then show "c = NUL" by (simp only: of_char_eq_iff)
qed (simp add: NUL_def)

definition CR :: byte where
  "CR = CHR 0x0D"

definition LF :: byte where
  "LF = CHR 0x0A"

definition TAB :: byte where
  "TAB = CHR 0x09"

definition CRLF :: string where
  "CRLF = [CR, LF]"

text \<open>What a \<open>const char*\<close> taken from a \<open>std::string\<close> denotes: the bytes before the first zero.\<close>

definition c_str :: "string \<Rightarrow> string" where
  "c_str s = takeWhile (\<lambda>c. c \<noteq> NUL) s"

text \<open>\<open>isspace\<close> and \<open>isdigit\<close> in the C locale.\<close>

definition isspace :: "byte \<Rightarrow> bool" where
  "isspace c \<longleftrightarrow> code c = 32 \<or> 9 \<le> code c \<and> code c \<le> 13"

definition isdigit :: "byte \<Rightarrow> bool" where
  "isdigit c \<longleftrightarrow> 48 \<le> code c \<and> code c \<le> 57"

section \<open>Decimal conversions: \<open>std::to_string\<close> and \<open>std::stoul\<close>\<close>

definition digit_char :: "nat \<Rightarrow> byte" where
  "digit_char d = char_of (48 + d)"

fun to_string :: "nat \<Rightarrow> string" where
  "to_string n = (if n < 10 then [digit_char n] else to_string (n div 10) @ [digit_char (n mod 10)])"

declare to_string.simps [simp del]

definition dec_val :: "string \<Rightarrow> nat" where
  "dec_val ds = foldl (\<lambda>a c. 10 * a + (code c - 48)) 0 ds"

text \<open>
  \<open>std::stoul\<close> in base ten: leading white space, an optional sign, then digits; no digit is
  \<open>invalid_argument\<close>, a magnitude beyond 64 bits is \<open>out_of_range\<close>, and a minus sign negates
  modulo \<open>2 ^ 64\<close>. Whatever follows the digits is ignored.
\<close>

definition stoul_sign :: "string \<Rightarrow> bool \<times> string" where
  "stoul_sign s =
     (case s of
        [] \<Rightarrow> (False, [])
      | c # r \<Rightarrow> if c = CHR ''-'' then (True, r) else if c = CHR ''+'' then (False, r) else (False, s))"

definition stoul :: "string \<Rightarrow> exn + nat" where
  "stoul s =
     (let (neg, r) = stoul_sign (dropWhile isspace (c_str s));
          ds = takeWhile isdigit r
      in if ds = [] then Inl StdInvalidArgument
         else if 2 ^ 64 \<le> dec_val ds then Inl StdOutOfRange
         else Inr (if neg then u64 (- int (dec_val ds)) else dec_val ds))"

lemma code_digit_char [simp]: "d < 10 \<Longrightarrow> code (digit_char d) = 48 + d"
  by (simp add: digit_char_def)

lemma isdigit_digit_char [simp]: "d < 10 \<Longrightarrow> isdigit (digit_char d)"
  by (simp add: isdigit_def)

lemma isdigit_not_isspace: "isdigit c \<Longrightarrow> \<not> isspace c"
  by (auto simp: isdigit_def isspace_def)

lemma to_string_nonempty [simp]: "to_string n \<noteq> []"
  by (subst to_string.simps) simp

lemma to_string_digits: "\<forall>c \<in> set (to_string n). isdigit c"
proof (induction n rule: to_string.induct)
  case (1 n)
  then show ?case
    by (subst to_string.simps) auto
qed

lemma dec_val_snoc: "dec_val (ds @ [c]) = 10 * dec_val ds + (code c - 48)"
  by (simp add: dec_val_def)

lemma dec_val_to_string [simp]: "dec_val (to_string n) = n"
proof (induction n rule: to_string.induct)
  case (1 n)
  show ?case
  proof (cases "n < 10")
    case True
    then show ?thesis
      by (subst to_string.simps) (simp add: dec_val_def)
  next
    case False
    with 1 show ?thesis
      by (subst to_string.simps) (simp add: dec_val_snoc)
  qed
qed

lemma isdigit_neq [simp]: "isdigit c \<Longrightarrow> c \<noteq> NUL" "isdigit c \<Longrightarrow> c \<noteq> CHR ''-''" "isdigit c \<Longrightarrow> c \<noteq> CHR ''+''"
  by (auto simp: isdigit_def NUL_def)

lemma c_str_digits: "\<forall>c \<in> set ds. isdigit c \<Longrightarrow> c_str ds = ds"
  by (auto simp: c_str_def takeWhile_all)

text \<open>Reading back a printed number, also behind a run of white space, gives the number.\<close>

lemma stoul_to_string:
  assumes ws: "\<forall>c \<in> set ws. isspace c" and n: "n < 2 ^ 64"
  shows "stoul (ws @ to_string n) = Inr n"
proof -
  let ?ds = "to_string n"
  obtain d ds where ds: "?ds = d # ds" by (cases ?ds) auto
  have dig: "isdigit d" "\<forall>c \<in> set ds. isdigit c"
    using to_string_digits [of n] ds by auto
  have nul: "\<forall>c \<in> set ws. c \<noteq> NUL"
    using ws by (auto simp: isspace_def NUL_def)
  have "c_str (ws @ ?ds) = ws @ ?ds"
    using nul to_string_digits [of n] by (auto simp: c_str_def takeWhile_all)
  moreover have "dropWhile isspace (ws @ ?ds) = ?ds"
    using ws dig ds by (simp add: isdigit_not_isspace)
  moreover have "stoul_sign ?ds = (False, ?ds)"
    using dig ds by (simp add: stoul_sign_def)
  ultimately show ?thesis
    using n by (simp add: stoul_def Let_def takeWhile_all [OF to_string_digits])
qed

section \<open>Strings\<close>

text \<open>\<open>SrcFile.c_str() + SrcFile.rfind('/') + 1\<close>: what follows the last slash, or all of it.\<close>

definition after_last_slash :: "string \<Rightarrow> string" where
  "after_last_slash s = rev (takeWhile (\<lambda>c. c \<noteq> CHR ''/'') (rev s))"

lemma after_last_slash_no_slash: "CHR ''/'' \<notin> set (after_last_slash s)"
  by (auto simp: after_last_slash_def dest: set_takeWhileD)

lemma after_last_slash_path:
  "CHR ''/'' \<notin> set f \<Longrightarrow> after_last_slash (d @ CHR ''/'' # f) = f"
  by (simp add: after_last_slash_def takeWhile_tail, subst takeWhile_all) auto

end
