(* ===== verification/Fiber_Ascii.thy ===== *)
theory Fiber_Ascii
  imports Fiber_Prelude
begin

text \<open>
  ci/utils/ascii.h: the case-folding table \<open>icase_ascii_table\<close> and the membership table built by
  \<open>ascii_mask\<close>. The table is transcribed entry by entry; \<open>icase\<close> is one look-up in it, the only way
  the scanners and the header map read it. The lemmas show that the transcribed table is the
  upper-casing of the ASCII letters and the identity elsewhere.
\<close>

section \<open>The case-folding table\<close>

definition icase_ascii_table :: "nat list" where
  "icase_ascii_table = [
    0x00, 0x01, 0x02, 0x03, 0x04, 0x05, 0x06, 0x07, 0x08, 0x09, 0x0a, 0x0b, 0x0c, 0x0d, 0x0e, 0x0f,
    0x10, 0x11, 0x12, 0x13, 0x14, 0x15, 0x16, 0x17, 0x18, 0x19, 0x1a, 0x1b, 0x1c, 0x1d, 0x1e, 0x1f,
    0x20, 0x21, 0x22, 0x23, 0x24, 0x25, 0x26, 0x27, 0x28, 0x29, 0x2a, 0x2b, 0x2c, 0x2d, 0x2e, 0x2f,
    0x30, 0x31, 0x32, 0x33, 0x34, 0x35, 0x36, 0x37, 0x38, 0x39, 0x3a, 0x3b, 0x3c, 0x3d, 0x3e, 0x3f,
    0x40, 0x41, 0x42, 0x43, 0x44, 0x45, 0x46, 0x47, 0x48, 0x49, 0x4a, 0x4b, 0x4c, 0x4d, 0x4e, 0x4f,
    0x50, 0x51, 0x52, 0x53, 0x54, 0x55, 0x56, 0x57, 0x58, 0x59, 0x5a, 0x5b, 0x5c, 0x5d, 0x5e, 0x5f,
    0x60, 0x41, 0x42, 0x43, 0x44, 0x45, 0x46, 0x47, 0x48, 0x49, 0x4a, 0x4b, 0x4c, 0x4d, 0x4e, 0x4f,
    0x50, 0x51, 0x52, 0x53, 0x54, 0x55, 0x56, 0x57, 0x58, 0x59, 0x5a, 0x7b, 0x7c, 0x7d, 0x7e, 0x7f,
    0x80, 0x81, 0x82, 0x83, 0x84, 0x85, 0x86, 0x87, 0x88, 0x89, 0x8a, 0x8b, 0x8c, 0x8d, 0x8e, 0x8f,
    0x90, 0x91, 0x92, 0x93, 0x94, 0x95, 0x96, 0x97, 0x98, 0x99, 0x9a, 0x9b, 0x9c, 0x9d, 0x9e, 0x9f,
    0xa0, 0xa1, 0xa2, 0xa3, 0xa4, 0xa5, 0xa6, 0xa7, 0xa8, 0xa9, 0xaa, 0xab, 0xac, 0xad, 0xae, 0xaf,
    0xb0, 0xb1, 0xb2, 0xb3, 0xb4, 0xb5, 0xb6, 0xb7, 0xb8, 0xb9, 0xba, 0xbb, 0xbc, 0xbd, 0xbe, 0xbf,
    0xc0, 0xc1, 0xc2, 0xc3, 0xc4, 0xc5, 0xc6, 0xc7, 0xc8, 0xc9, 0xca, 0xcb, 0xcc, 0xcd, 0xce, 0xcf,
    0xd0, 0xd1, 0xd2, 0xd3, 0xd4, 0xd5, 0xd6, 0xd7, 0xd8, 0xd9, 0xda, 0xdb, 0xdc, 0xdd, 0xde, 0xdf,
    0xe0, 0xe1, 0xe2, 0xe3, 0xe4, 0xe5, 0xe6, 0xe7, 0xe8, 0xe9, 0xea, 0xeb, 0xec, 0xed, 0xee, 0xef,
    0xf0, 0xf1, 0xf2, 0xf3, 0xf4, 0xf5, 0xf6, 0xf7, 0xf8, 0xf9, 0xfa, 0xfb, 0xfc, 0xfd, 0xfe, 0xff]"

text \<open>\<open>icase_ascii_table[*it]\<close>, with the byte as an unsigned index.\<close>

definition icase :: "byte \<Rightarrow> nat" where
  "icase c = icase_ascii_table ! code c"

definition upcase_code :: "nat \<Rightarrow> nat" where
  "upcase_code n = (if 97 \<le> n \<and> n \<le> 122 then n - 32 else n)"

lemma icase_ascii_table_eq: "icase_ascii_table = map upcase_code [0..<256]"
  by code_simp

lemma length_icase_ascii_table [simp]: "length icase_ascii_table = 256"
  by (simp add: icase_ascii_table_eq)

lemma icase_eq: "icase c = upcase_code (code c)"
  by (simp add: icase_def icase_ascii_table_eq)

lemma icase_less [simp]: "icase c < 256"
  proof -
  have "upcase_code (code c) \<le> code c" by (simp add: upcase_code_def)
  then show ?thesis using code_less [of c] by (simp add: icase_eq del: code_less)
qed

lemma icase_fixed_iff: "icase c = code c \<longleftrightarrow> \<not> (97 \<le> code c \<and> code c \<le> 122)"
  by (auto simp: icase_eq upcase_code_def)

text \<open>Outside the letters the table separates bytes: a folded byte determines the byte.\<close>

definition is_letter :: "byte \<Rightarrow> bool" where
  "is_letter c \<longleftrightarrow> 65 \<le> code c \<and> code c \<le> 90 \<or> 97 \<le> code c \<and> code c \<le> 122"

lemma upcase_code_eq_iff:
  "upcase_code m = upcase_code n \<longleftrightarrow>
     m = n \<or> (65 \<le> m \<and> m \<le> 90 \<and> n = m + 32) \<or> (65 \<le> n \<and> n \<le> 90 \<and> m = n + 32)"
  unfolding upcase_code_def by (split if_split)+ linarith

lemma icase_eq_iff:
  "icase c = icase d \<longleftrightarrow>
     c = d \<or> (65 \<le> code c \<and> code c \<le> 90 \<and> code d = code c + 32)
           \<or> (65 \<le> code d \<and> code d \<le> 90 \<and> code c = code d + 32)"
  by (simp add: icase_eq upcase_code_eq_iff)

lemma icase_nonletter: "\<not> is_letter d \<Longrightarrow> icase c = icase d \<longleftrightarrow> c = d"
  by (auto simp: icase_eq_iff is_letter_def)

lemma controls_nonletter [simp]:
  "\<not> is_letter CR" "\<not> is_letter LF" "\<not> is_letter NUL" "\<not> is_letter TAB" "\<not> is_letter (CHR '' '')"
  by (simp_all add: is_letter_def CR_def LF_def NUL_def TAB_def)

lemma icase_CR [scan_simps]: "icase c = icase CR \<longleftrightarrow> c = CR"
  by (rule icase_nonletter) simp

lemma icase_LF [scan_simps]: "icase c = icase LF \<longleftrightarrow> c = LF"
  by (rule icase_nonletter) simp

section \<open>Membership tables\<close>

text \<open>
  \<open>for (ptr = character_mask; *ptr; table[*ptr] = *ptr, ptr++);\<close> The index is a plain (signed)
  \<open>char\<close>: a byte above 127 is a negative index, an access outside the array.
\<close>

fun ascii_mask_loop :: "nat list \<Rightarrow> string \<Rightarrow> exn + nat list" where
  "ascii_mask_loop table [] = Inr table"
| "ascii_mask_loop table (c # cs) =
     (if code c < 128 then ascii_mask_loop (table[code c := code c]) cs else Inl UndefinedBehaviour)"

definition ascii_mask :: "string \<Rightarrow> exn + nat list" where
  "ascii_mask character_mask = ascii_mask_loop (replicate 256 0) (c_str character_mask)"

lemma ascii_mask_loop_spec:
  assumes "\<forall>c \<in> set cs. code c < 128 \<and> c \<noteq> NUL" and "length t = 256"
  shows "\<exists>t'. ascii_mask_loop t cs = Inr t' \<and> length t' = 256 \<and>
           (\<forall>i < 256. t' ! i = (if char_of i \<in> set cs then i else t ! i))"
  using assms
proof (induction cs arbitrary: t)
  case Nil
  then show ?case by simp
next
  case (Cons c cs)
  have "\<exists>t'. ascii_mask_loop (t[code c := code c]) cs = Inr t' \<and> length t' = 256 \<and>
          (\<forall>i < 256. t' ! i = (if char_of i \<in> set cs then i else t[code c := code c] ! i))"
    by (rule Cons.IH) (use Cons.prems in simp_all)
  then obtain t' where t': "ascii_mask_loop (t[code c := code c]) cs = Inr t'" "length t' = 256"
      "\<forall>i < 256. t' ! i = (if char_of i \<in> set cs then i else t[code c := code c] ! i)"
    by blast
  have upd: "(t[code c := code c]) ! i = (if char_of i = c then i else t ! i)" if "i < 256" for i
  proof (cases "char_of i = c")
    case True
    with that have "code c = i" by auto
    with True that Cons.prems show ?thesis by simp
  next
    case False
    then have "code c \<noteq> i" by auto
    with False show ?thesis by simp
  qed
  have "t' ! i = (if char_of i \<in> set (c # cs) then i else t ! i)" if "i < 256" for i
    using t'(3) upd [OF that] that by (cases "char_of i \<in> set cs") auto
  with t' Cons.prems(1) show ?case by simp
qed

text \<open>
  The table of a mask of ASCII characters answers membership: entry \<open>i\<close> is non-zero exactly for
  the characters of the mask.
\<close>

lemma ascii_mask_member:
  assumes "\<forall>c \<in> set m. code c < 128 \<and> c \<noteq> NUL"
  shows "\<exists>t. ascii_mask m = Inr t \<and> length t = 256 \<and> (\<forall>c. t ! code c \<noteq> 0 \<longleftrightarrow> c \<in> set m)"
proof -
  from assms have m: "c_str m = m" by (simp add: c_str_def takeWhile_all)
  define z where "z = replicate 256 (0::nat)"
  have z: "length z = 256" "i < 256 \<Longrightarrow> z ! i = 0" for i
    unfolding z_def by (simp_all only: length_replicate nth_replicate)
  obtain t where t: "ascii_mask_loop z m = Inr t" "length t = 256"
      "\<forall>i < 256. t ! i = (if char_of i \<in> set m then i else z ! i)"
    using ascii_mask_loop_spec [OF assms z(1)] by blast
  have "t ! code c \<noteq> 0 \<longleftrightarrow> c \<in> set m" for c
  proof -
    have "t ! code c = (if c \<in> set m then code c else 0)"
      using t(3) [rule_format, OF code_less, of c] z(2) [OF code_less, of c] by simp
    moreover have "c \<in> set m \<Longrightarrow> code c \<noteq> 0"
      using assms code_eq_0 [of c] by blast
    ultimately show ?thesis by simp
  qed
  moreover have "ascii_mask m = ascii_mask_loop z m"
    by (simp only: ascii_mask_def z_def m)
  ultimately show ?thesis using t(1,2) by auto
qed

end
