(* ===== verification/Fiber_Findmatch.thy ===== *)
theory Fiber_Findmatch
  imports Fiber_Ascii "HOL-Library.Sublist"
begin

text \<open>
  ci/utils/findmatch.h: the byte scanners the HTTP parser, the listener set-up and \<open>zcstring\<close> use.

  A range \<open>[haystack_from, haystack_to)\<close> is the list of its bytes, or \<^const>\<open>None\<close> for null
  pointers; the pointers of a \<open>match_result\<close> are offsets from \<open>haystack_from\<close>. A needle is a C
  string without its terminator, so \<open>*needle_it == '\0'\<close> is the empty rest of the needle.
  Each scanner is the loop of the source; the lemmas after it give its meaning: \<open>match_values\<close>
  decides which needle is a prefix of the range, \<open>find_values\<close> is leftmost search with the first
  needle winning, \<open>find_char\<close> finds the first byte of a set. All comparisons but those of
  \<open>find_char\<close> fold case.
\<close>

record match_result =
  result :: nat
  mbegin :: "nat option"
  mend :: "nat option"

definition no_match :: match_result where
  "no_match = \<lparr>result = 0, mbegin = None, mend = None\<rparr>"

lemma no_match_simps [simp]: "result no_match = 0" "mbegin no_match = None" "mend no_match = None"
  by (simp_all add: no_match_def)

section \<open>Case-insensitive prefixes\<close>

definition icase_prefix :: "string \<Rightarrow> string \<Rightarrow> bool" where
  "icase_prefix n s \<longleftrightarrow> prefix (map icase n) (map icase s)"

lemma icase_prefix_Nil [simp]: "icase_prefix [] s"
  by (simp add: icase_prefix_def)

lemma icase_prefix_Cons [simp]:
  "icase_prefix (n # ns) [] \<longleftrightarrow> False"
  "icase_prefix (n # ns) (c # s) \<longleftrightarrow> icase n = icase c \<and> icase_prefix ns s"
  by (simp_all add: icase_prefix_def)

lemma icase_prefix_length: "icase_prefix n s \<Longrightarrow> length n \<le> length s"
  by (auto simp: icase_prefix_def dest: prefix_length_le)

lemma icase_prefix_append: "icase_prefix n s \<Longrightarrow> icase_prefix n (s @ t)"
  by (auto simp: icase_prefix_def prefix_def)

text \<open>Two prefixes of one text are comparable.\<close>

lemma icase_prefix_comparable:
  "icase_prefix m s \<Longrightarrow> icase_prefix n s \<Longrightarrow> icase_prefix m n \<or> icase_prefix n m"
  unfolding icase_prefix_def by (rule prefix_same_cases)

lemma icase_prefix_trans: "icase_prefix m n \<Longrightarrow> icase_prefix n s \<Longrightarrow> icase_prefix m s"
  unfolding icase_prefix_def by (rule prefix_order.trans)

section \<open>\<open>match_values\<close>: which needle starts the range\<close>

text \<open>
  The loop restarts the range at the next needle on a mismatch and stops without a match when the
  range ends inside a needle. After a mismatch in the last needle the source reads
  \<open>needle_values[needle_size]\<close> into \<open>needle_it\<close>, one pointer past the array; \<open>needle_index\<close> is
  then zero and the pointer is never used, so the model stops there.
\<close>

fun match_loop :: "string \<Rightarrow> nat \<Rightarrow> string \<Rightarrow> string list \<Rightarrow> (nat \<times> nat) option" where
  "match_loop hs h [] rest = Some (Suc (length rest), h)"
| "match_loop hs h (n # needle) rest =
     (if h < length hs then
        if icase (hs ! h) \<noteq> icase n then
          (case rest of [] \<Rightarrow> None | needle' # rest' \<Rightarrow> match_loop hs 0 needle' rest')
        else match_loop hs (Suc h) needle rest
      else None)"

definition match_values :: "string option \<Rightarrow> string list \<Rightarrow> match_result" where
  "match_values haystack needle_values =
     (case haystack of
        None \<Rightarrow> no_match
      | Some hs \<Rightarrow>
          (case needle_values of
             [] \<Rightarrow> no_match
           | n # ns \<Rightarrow>
               (case match_loop hs 0 n ns of
                  None \<Rightarrow> no_match
                | Some (needle_index, haystack_it) \<Rightarrow>
                    \<lparr>result = 1 + length needle_values - needle_index,
                     mbegin = Some 0, mend = Some haystack_it\<rparr>)))"

lemma match_loop_progress:
  "match_loop hs h q rest =
     (if icase_prefix q (drop h hs) then Some (Suc (length rest), h + length q)
      else if icase_prefix (drop h hs) q \<and> h \<le> length hs then None
      else if h \<le> length hs then
        (case rest of [] \<Rightarrow> None | q' # rest' \<Rightarrow> match_loop hs 0 q' rest')
      else None)"
proof (induction q arbitrary: h)
  case Nil
  then show ?case by simp
next
  case (Cons n q)
  show ?case
  proof (cases "h < length hs")
    case True
    then have "drop h hs = hs ! h # drop (Suc h) hs" by (simp add: Cons_nth_drop_Suc)
    with True Cons.IH [of "Suc h"] show ?thesis by auto
  next
    case False
    then show ?thesis by (auto simp: not_less)
  qed
qed

definition prefix_free :: "string list \<Rightarrow> bool" where
  "prefix_free ns \<longleftrightarrow>
     (\<forall>i < length ns. \<forall>j < length ns. i \<noteq> j \<longrightarrow> \<not> icase_prefix (ns ! i) (ns ! j))"

lemma prefix_free_Cons:
  assumes "prefix_free (n # ns)"
  shows "prefix_free ns" "\<forall>m \<in> set ns. \<not> icase_prefix n m \<and> \<not> icase_prefix m n"
proof -
  show "prefix_free ns"
    unfolding prefix_free_def
  proof (intro allI impI)
    fix i j assume "i < length ns" "j < length ns" "i \<noteq> j"
    with assms [unfolded prefix_free_def, rule_format, of "Suc i" "Suc j"]
    show "\<not> icase_prefix (ns ! i) (ns ! j)" by simp
  qed
  show "\<forall>m \<in> set ns. \<not> icase_prefix n m \<and> \<not> icase_prefix m n"
  proof
    fix m assume "m \<in> set ns"
    then obtain i where "i < length ns" "ns ! i = m" by (auto simp: in_set_conv_nth)
    with assms [unfolded prefix_free_def, rule_format, of 0 "Suc i"]
         assms [unfolded prefix_free_def, rule_format, of "Suc i" 0]
    show "\<not> icase_prefix n m \<and> \<not> icase_prefix m n" by simp
  qed
qed

lemma prefix_free_Nil: "prefix_free []"
  by (simp add: prefix_free_def)

lemma prefix_free_ConsI:
  assumes "prefix_free ns" and "\<forall>m \<in> set ns. \<not> icase_prefix n m \<and> \<not> icase_prefix m n"
  shows "prefix_free (n # ns)"
  using assms by (auto simp: prefix_free_def nth_Cons split: nat.splits)

text \<open>Among needles none of which starts another, the loop finds the one that starts the range.\<close>

lemma match_loop_none:
  "\<forall>m \<in> set (n # ns). \<not> icase_prefix m hs \<Longrightarrow> match_loop hs 0 n ns = None"
  by (induction ns arbitrary: n) (auto simp: match_loop_progress [of hs 0 n for n])

lemma match_loop_some:
  assumes "prefix_free (n # ns)" and "i < length (n # ns)" and "icase_prefix ((n # ns) ! i) hs"
  shows "match_loop hs 0 n ns = Some (length (n # ns) - i, length ((n # ns) ! i))"
  using assms
proof (induction ns arbitrary: n i)
  case Nil
  then show ?case by (simp add: match_loop_progress [of hs 0 n])
next
  case (Cons m ns)
  show ?case
  proof (cases i)
    case 0
    with Cons.prems show ?thesis by (simp add: match_loop_progress [of hs 0 n])
  next
    case (Suc k)
    let ?x = "(m # ns) ! k"
    have x: "?x \<in> set (m # ns)" "icase_prefix ?x hs"
      using Cons.prems Suc by (auto simp: nth_Cons split: nat.splits)
    have apart: "\<not> icase_prefix n ?x" "\<not> icase_prefix ?x n"
      using prefix_free_Cons(2) [OF Cons.prems(1)] x(1) by auto
    have "\<not> icase_prefix n hs"
      using icase_prefix_comparable [OF x(2)] apart by blast
    moreover have "\<not> icase_prefix hs n"
      using icase_prefix_trans [OF x(2)] apart by blast
    ultimately have "match_loop hs 0 n (m # ns) = match_loop hs 0 m ns"
      by (simp add: match_loop_progress [of hs 0 n])
    also have "\<dots> = Some (length (m # ns) - k, length ?x)"
      using Cons.IH [of m k] prefix_free_Cons(1) [OF Cons.prems(1)] Cons.prems Suc x(2) by simp
    finally show ?thesis using Suc by simp
  qed
qed

lemma match_values_none:
  "\<forall>n \<in> set ns. \<not> icase_prefix n hs \<Longrightarrow> match_values (Some hs) ns = no_match"
  using match_loop_none [of "hd ns" "tl ns" hs]
  by (auto simp: match_values_def split: list.splits)

lemma match_values_some:
  assumes "prefix_free ns" and "i < length ns" and "icase_prefix (ns ! i) hs"
  shows "match_values (Some hs) ns =
           \<lparr>result = Suc i, mbegin = Some 0, mend = Some (length (ns ! i))\<rparr>"
proof -
  from assms(2) obtain n ms where ns: "ns = n # ms" by (cases ns) auto
  with assms match_loop_some [of n ms i hs] show ?thesis
    by (simp add: match_values_def)
qed

section \<open>\<open>find_values\<close>: leftmost search\<close>

text \<open>
  The inner loop compares one needle at one place: the number of bytes matched when the byte after
  \<open>n_it\<close> is the terminator. Needles are non-empty (the source reads \<open>*(n_it + 1)\<close> before it knows
  that \<open>*n_it\<close> is not the terminator).
\<close>

fun needle_cmp :: "string \<Rightarrow> string \<Rightarrow> nat option" where
  "needle_cmp h [] = None"
| "needle_cmp [] (n # needle) = None"
| "needle_cmp (c # h) (n # needle) =
     (if icase c = icase n then
        if needle = [] then Some 1 else map_option Suc (needle_cmp h needle)
      else None)"

lemma needle_cmp_eq:
  "n \<noteq> [] \<Longrightarrow> needle_cmp h n = (if icase_prefix n h then Some (length n) else None)"
  by (induction h n rule: needle_cmp.induct) auto

function find_loop :: "string \<Rightarrow> string list \<Rightarrow> nat \<Rightarrow> nat \<Rightarrow> match_result" where
  "find_loop hs needle_values needle_index h =
     (if h < length hs \<and> needle_values \<noteq> [] then
        (case needle_cmp (drop h hs) (needle_values ! (needle_index mod length needle_values)) of
           Some k \<Rightarrow>
             \<lparr>result = 1 + needle_index mod length needle_values,
              mbegin = Some h, mend = Some (h + k)\<rparr>
         | None \<Rightarrow>
             find_loop hs needle_values (Suc needle_index)
               (if Suc needle_index mod length needle_values = 0 then Suc h else h))
      else no_match)"
  by pat_completeness auto
termination
proof (relation "measures [\<lambda>(hs, ns, i, h). length hs - h, \<lambda>(hs, ns, i, h). length ns - i mod length ns]",
    goal_cases)
  case 1
  show ?case by simp
next
  case (2 hs ns i h)
  then have "i mod length ns < length ns" by simp
  then have "length ns - Suc (i mod length ns) < length ns - i mod length ns" by arith
  with 2 show ?case by (auto simp: mod_Suc split: if_splits)
qed

declare find_loop.simps [simp del]

definition find_values :: "string option \<Rightarrow> string list \<Rightarrow> match_result" where
  "find_values haystack needle_values =
     (case haystack of None \<Rightarrow> no_match | Some hs \<Rightarrow> find_loop hs needle_values 0 0)"

text \<open>The reference: the first needle that starts the text, and the first place where there is one.\<close>

fun needle_at :: "string list \<Rightarrow> string \<Rightarrow> nat option" where
  "needle_at [] s = None"
| "needle_at (n # ns) s = (if icase_prefix n s then Some 0 else map_option Suc (needle_at ns s))"

fun leftmost :: "string list \<Rightarrow> string \<Rightarrow> nat \<Rightarrow> match_result" where
  "leftmost ns [] h = no_match"
| "leftmost ns (c # s) h =
     (case needle_at ns (c # s) of
        Some i \<Rightarrow> \<lparr>result = Suc i, mbegin = Some h, mend = Some (h + length (ns ! i))\<rparr>
      | None \<Rightarrow> leftmost ns s (Suc h))"

lemma needle_at_Some:
  "needle_at ns s = Some i \<Longrightarrow>
     i < length ns \<and> icase_prefix (ns ! i) s \<and> (\<forall>j < i. \<not> icase_prefix (ns ! j) s)"
  by (induction ns arbitrary: i) (auto simp: nth_Cons split: if_splits nat.splits)

lemma needle_at_None: "needle_at ns s = None \<longleftrightarrow> (\<forall>n \<in> set ns. \<not> icase_prefix n s)"
  by (induction ns) auto

lemma find_loop_row:
  assumes "\<forall>n \<in> set ns. n \<noteq> []" and "h < length hs" and "j < length ns"
  shows "find_loop hs ns (b * length ns + j) h =
     (case needle_at (drop j ns) (drop h hs) of
        Some i \<Rightarrow>
          \<lparr>result = Suc (j + i), mbegin = Some h, mend = Some (h + length (ns ! (j + i)))\<rparr>
      | None \<Rightarrow> find_loop hs ns (Suc b * length ns) (Suc h))"
  using assms(3)
proof (induction "length ns - j" arbitrary: j)
  case 0
  then show ?case by simp
next
  case (Suc n)
  let ?l = "length ns"
  have dropj: "drop j ns = ns ! j # drop (Suc j) ns"
    using Suc.prems by (simp add: Cons_nth_drop_Suc)
  have ne: "ns ! j \<noteq> []" using assms(1) Suc.prems by simp
  have step: "find_loop hs ns (b * ?l + j) h =
      (if icase_prefix (ns ! j) (drop h hs)
       then \<lparr>result = Suc j, mbegin = Some h, mend = Some (h + length (ns ! j))\<rparr>
       else find_loop hs ns (b * ?l + Suc j) (if Suc j = ?l then Suc h else h))"
    using assms(2) Suc.prems
    by (subst find_loop.simps) (auto simp: needle_cmp_eq [OF ne] mod_Suc)
  show ?case
  proof (cases "icase_prefix (ns ! j) (drop h hs) \<or> Suc j = ?l")
    case True
    have "Suc j = ?l \<Longrightarrow> b * ?l + Suc j = Suc b * ?l" by simp
    with True show ?thesis
      by (subst step) (auto simp: dropj simp del: mult_Suc add_Suc_right)
  next
    case False
    with Suc.prems Suc.hyps have "n = ?l - Suc j" "Suc j < ?l" by auto
    note IH = Suc.hyps(1) [OF this]
    from False step have "find_loop hs ns (b * ?l + j) h = find_loop hs ns (b * ?l + Suc j) h"
      by simp
    with IH False show ?thesis
      by (simp add: dropj split: option.splits)
  qed
qed

lemma find_loop_leftmost:
  assumes "\<forall>n \<in> set ns. n \<noteq> []" and "ns \<noteq> []" and "h \<le> length hs"
  shows "find_loop hs ns (b * length ns) h = leftmost ns (drop h hs) h"
  using assms(3)
proof (induction "length hs - h" arbitrary: h b)
  case 0
  then show ?case by (subst find_loop.simps) simp
next
  case (Suc n)
  then have h: "h < length hs" by simp
  then have d: "drop h hs = hs ! h # drop (Suc h) hs" by (simp add: Cons_nth_drop_Suc)
  have IH: "find_loop hs ns (Suc b * length ns) (Suc h) = leftmost ns (drop (Suc h) hs) (Suc h)"
    by (rule Suc.hyps(1)) (use Suc.hyps(2) h in auto)
  have l: "0 < length ns" using assms(2) by simp
  show ?case
    using find_loop_row [OF assms(1) h l, of b] IH
    by (simp add: d split: option.splits)
qed

lemma find_values_leftmost:
  "\<forall>n \<in> set ns. n \<noteq> [] \<Longrightarrow> ns \<noteq> [] \<Longrightarrow> find_values (Some hs) ns = leftmost ns hs 0"
  using find_loop_leftmost [of ns 0 hs 0] by (simp add: find_values_def)

lemma leftmost_Some:
  "result (leftmost ns s h) = Suc i \<Longrightarrow>
     \<exists>b. leftmost ns s h = \<lparr>result = Suc i, mbegin = Some (h + b), mend = Some (h + b + length (ns ! i))\<rparr> \<and>
         b < length s \<and> needle_at ns (drop b s) = Some i \<and> (\<forall>k < b. needle_at ns (drop k s) = None)"
proof (induction ns s h rule: leftmost.induct)
  case (2 ns c s h)
  show ?case
  proof (cases "needle_at ns (c # s)")
    case None
    with 2 obtain b where b: "leftmost ns s (Suc h) =
          \<lparr>result = Suc i, mbegin = Some (Suc h + b), mend = Some (Suc h + b + length (ns ! i))\<rparr>"
        "b < length s" "needle_at ns (drop b s) = Some i" "\<forall>k < b. needle_at ns (drop k s) = None"
      by auto
    have "\<forall>k < Suc b. needle_at ns (drop k (c # s)) = None"
      using None b(4) by (auto simp: less_Suc_eq_0_disj)
    with None b show ?thesis by (intro exI [of _ "Suc b"]) simp
  next
    case (Some j)
    with 2 show ?thesis by (intro exI [of _ 0]) simp
  qed
qed simp

lemma leftmost_None:
  "result (leftmost ns s h) = 0 \<Longrightarrow>
     leftmost ns s h = no_match \<and> (\<forall>k < length s. needle_at ns (drop k s) = None)"
proof (induction ns s h rule: leftmost.induct)
  case (2 ns c s h)
  then show ?case
    by (cases "needle_at ns (c # s)") (auto simp: less_Suc_eq_0_disj)
qed simp

text \<open>The range before the first occurrence can be skipped.\<close>

lemma leftmost_skip:
  assumes "\<forall>k < length s. needle_at ns (drop k (s @ t)) = None"
  shows "leftmost ns (s @ t) h = leftmost ns t (h + length s)"
  using assms
proof (induction s arbitrary: h)
  case (Cons c s)
  have "needle_at ns (c # s @ t) = None" using Cons.prems [rule_format, of 0] by simp
  moreover have "\<forall>k < length s. needle_at ns (drop k (s @ t)) = None"
    using Cons.prems by auto
  ultimately show ?case using Cons.IH [of "Suc h"] by simp
qed simp

section \<open>\<open>find_char\<close>: the first byte of a set\<close>

text \<open>
  The result of a hit is \<open>(size_t)(charlist - ch) + 1\<close>: the distance is taken backwards, so the
  first character of the list gives 1, the second 0 and the later ones wrap around.
\<close>

function find_char_loop :: "string \<Rightarrow> string \<Rightarrow> nat \<Rightarrow> nat \<Rightarrow> match_result" where
  "find_char_loop hs charlist h ch =
     (if h < length hs \<and> ch < length charlist then
        if hs ! h = charlist ! ch then
          \<lparr>result = u64 (1 - int ch), mbegin = Some 0, mend = Some (Suc h)\<rparr>
        else if Suc ch < length charlist then find_char_loop hs charlist h (Suc ch)
        else find_char_loop hs charlist (Suc h) 0
      else \<lparr>result = 0, mbegin = Some 0, mend = Some h\<rparr>)"
  by pat_completeness auto
termination
  by (relation "measures [\<lambda>(hs, cl, h, ch). length hs - h, \<lambda>(hs, cl, h, ch). length cl - ch]") auto

declare find_char_loop.simps [simp del]

definition find_char :: "string \<Rightarrow> string \<Rightarrow> match_result" where
  "find_char hs charlist = find_char_loop hs charlist 0 0"

definition char_index :: "byte \<Rightarrow> string \<Rightarrow> nat" where
  "char_index c cl = length (takeWhile (\<lambda>x. x \<noteq> c) cl)"

lemma find_char_loop_row:
  assumes "h < length hs" and "ch < length cl" and "hs ! h \<notin> set (take ch cl)"
  shows "find_char_loop hs cl h ch =
     (if hs ! h \<in> set cl
      then \<lparr>result = u64 (1 - int (char_index (hs ! h) cl)), mbegin = Some 0, mend = Some (Suc h)\<rparr>
      else find_char_loop hs cl (Suc h) 0)"
  using assms(2,3)
proof (induction "length cl - ch" arbitrary: ch)
  case 0
  then show ?case by simp
next
  case (Suc n)
  have cl: "cl = take ch cl @ cl ! ch # drop (Suc ch) cl"
    using Suc.prems(1) by (rule id_take_nth_drop)
  show ?case
  proof (cases "hs ! h = cl ! ch")
    case True
    have "takeWhile (\<lambda>x. x \<noteq> hs ! h) cl = take ch cl"
      using Suc.prems True by (subst cl, subst takeWhile_append2) auto
    moreover have "hs ! h \<in> set cl" using True Suc.prems by simp
    ultimately show ?thesis
      using True assms(1) Suc.prems by (subst find_char_loop.simps) (simp add: char_index_def)
  next
    case False
    then have notin: "hs ! h \<notin> set (take (Suc ch) cl)"
      using Suc.prems by (simp add: take_Suc_conv_app_nth)
    show ?thesis
    proof (cases "Suc ch < length cl")
      case True
      have "find_char_loop hs cl h ch = find_char_loop hs cl h (Suc ch)"
        using False True assms(1) by (subst find_char_loop.simps) simp
      with Suc.hyps(1) [of "Suc ch"] Suc.hyps(2) True notin show ?thesis by simp
    next
      case last: False
      with Suc.prems have "hs ! h \<notin> set cl" using notin by simp
      with False last assms(1) Suc.prems show ?thesis
        by (subst find_char_loop.simps) simp
    qed
  qed
qed

lemma find_char_skip:
  assumes "cl \<noteq> []" and "\<forall>c \<in> set s. c \<notin> set cl"
  shows "find_char (s @ t) cl = find_char_loop (s @ t) cl (length s) 0"
proof -
  have "k \<le> length s \<Longrightarrow> find_char_loop (s @ t) cl 0 0 = find_char_loop (s @ t) cl k 0" for k
  proof (induction k)
    case (Suc k)
    then have "(s @ t) ! k \<notin> set cl" using assms(2) by (simp add: nth_append)
    then have "find_char_loop (s @ t) cl k 0 = find_char_loop (s @ t) cl (Suc k) 0"
      using find_char_loop_row [of k "s @ t" 0 cl] Suc.prems assms(1) by simp
    with Suc show ?case by simp
  qed simp
  then show ?thesis by (simp add: find_char_def)
qed

lemma find_char_hit:
  assumes "\<forall>c \<in> set s. c \<notin> set cl" and "c \<in> set cl"
  shows "find_char (s @ c # t) cl =
           \<lparr>result = u64 (1 - int (char_index c cl)), mbegin = Some 0, mend = Some (Suc (length s))\<rparr>"
proof -
  from assms(2) have cl: "cl \<noteq> []" by auto
  show ?thesis
    using find_char_skip [OF cl assms(1), of "c # t"] find_char_loop_row [of "length s" "s @ c # t" 0 cl] assms(2) cl
    by simp
qed

lemma find_char_miss:
  assumes "\<forall>c \<in> set s. c \<notin> set cl" and "cl \<noteq> []"
  shows "find_char s cl = \<lparr>result = 0, mbegin = Some 0, mend = Some (length s)\<rparr>"
  using find_char_skip [OF assms(2,1), of "[]"] by (simp add: find_char_loop.simps)

lemma find_char_Nil [simp]: "find_char [] cl = \<lparr>result = 0, mbegin = Some 0, mend = Some 0\<rparr>"
  by (simp add: find_char_def find_char_loop.simps)

section \<open>The variadic entry points\<close>

text \<open>
  \<open>match\<close> and \<open>find\<close> keep their needles in a function-local \<open>static\<close> array, which C++ initialises
  on the first call of the instantiation and never again: the array is a state of the program.
\<close>

definition static_needles :: "string list option \<Rightarrow> string list \<Rightarrow> string list" where
  "static_needles st vals = (case st of None \<Rightarrow> vals | Some old \<Rightarrow> old)"

definition utils_match :: "string list option \<Rightarrow> string option \<Rightarrow> string list \<Rightarrow> string list option \<times> match_result" where
  "utils_match st haystack vals =
     (let needle_values = static_needles st vals in (Some needle_values, match_values haystack needle_values))"

definition utils_find :: "string list option \<Rightarrow> string option \<Rightarrow> string list \<Rightarrow> string list option \<times> match_result" where
  "utils_find st haystack vals =
     (let needle_values = static_needles st vals in (Some needle_values, find_values haystack needle_values))"

lemma utils_find_first: "utils_find None haystack vals = (Some vals, find_values haystack vals)"
  by (simp add: utils_find_def static_needles_def)

lemma utils_find_later: "utils_find (Some old) haystack vals = (Some old, find_values haystack old)"
  by (simp add: utils_find_def static_needles_def)

end
