(* ===== verification/Fiber_Stdmap.thy ===== *)
theory Fiber_Stdmap
  imports Fiber_Prelude
begin

text \<open>
  What the sources use of \<open>std::unordered_map\<close>: \<open>find\<close>, \<open>emplace\<close> (which keeps an element already
  there), \<open>erase\<close> and \<open>size\<close>. The container is the list of its elements in insertion order, and an
  element answers a look-up when its hash and the key's agree and the key-equality holds.

  The locale \<open>unordered_keys\<close> is what the standard demands of the hash and the equality it is given.
  Under it the hash disappears from the results and the container is a map from key classes to
  values. Each hash and equality of the sources that meets the demand interprets the locale.
\<close>

type_synonym ('k, 'v) umap = "('k \<times> 'v) list"

definition umap_hit :: "('k \<Rightarrow> 'h) \<Rightarrow> ('k \<Rightarrow> 'k \<Rightarrow> bool) \<Rightarrow> 'k \<Rightarrow> 'k \<times> 'v \<Rightarrow> bool" where
  "umap_hit hash eq k e \<longleftrightarrow> hash (fst e) = hash k \<and> eq k (fst e)"

definition umap_find :: "('k \<Rightarrow> 'h) \<Rightarrow> ('k \<Rightarrow> 'k \<Rightarrow> bool) \<Rightarrow> ('k, 'v) umap \<Rightarrow> 'k \<Rightarrow> 'v option" where
  "umap_find hash eq m k = map_option snd (List.find (umap_hit hash eq k) m)"

definition umap_emplace ::
    "('k \<Rightarrow> 'h) \<Rightarrow> ('k \<Rightarrow> 'k \<Rightarrow> bool) \<Rightarrow> ('k, 'v) umap \<Rightarrow> 'k \<Rightarrow> 'v \<Rightarrow> ('k, 'v) umap \<times> bool" where
  "umap_emplace hash eq m k v =
     (case umap_find hash eq m k of None \<Rightarrow> (m @ [(k, v)], True) | Some _ \<Rightarrow> (m, False))"

definition umap_erase :: "('k \<Rightarrow> 'h) \<Rightarrow> ('k \<Rightarrow> 'k \<Rightarrow> bool) \<Rightarrow> ('k, 'v) umap \<Rightarrow> 'k \<Rightarrow> ('k, 'v) umap" where
  "umap_erase hash eq m k = filter (\<lambda>e. \<not> umap_hit hash eq k e) m"

fun umap_emplace_all ::
    "('k \<Rightarrow> 'h) \<Rightarrow> ('k \<Rightarrow> 'k \<Rightarrow> bool) \<Rightarrow> ('k, 'v) umap \<Rightarrow> ('k \<times> 'v) list \<Rightarrow> ('k, 'v) umap" where
  "umap_emplace_all hash eq m [] = m"
| "umap_emplace_all hash eq m ((k, v) # kvs) =
     umap_emplace_all hash eq (fst (umap_emplace hash eq m k v)) kvs"

lemma find_append: "List.find P (xs @ ys) = (case List.find P xs of None \<Rightarrow> List.find P ys | Some x \<Rightarrow> Some x)"
  by (induction xs) auto

lemma find_filter_None: "\<forall>x. Q x \<longrightarrow> \<not> P x \<Longrightarrow> List.find P (filter Q xs) = None"
  by (induction xs) auto

lemma find_filter_same: "\<forall>x. P x \<longrightarrow> Q x \<Longrightarrow> List.find P (filter Q xs) = List.find P xs"
  by (induction xs) auto

locale unordered_keys =
  fixes hash :: "'k \<Rightarrow> 'h"
    and eq :: "'k \<Rightarrow> 'k \<Rightarrow> bool"
  assumes eq_refl: "eq a a"
    and eq_sym: "eq a b \<Longrightarrow> eq b a"
    and eq_trans: "eq a b \<Longrightarrow> eq b c \<Longrightarrow> eq a c"
    and hash_eq: "eq a b \<Longrightarrow> hash a = hash b"
begin

lemma hit_iff: "umap_hit hash eq k e \<longleftrightarrow> eq k (fst e)"
  using hash_eq [of k "fst e"] by (auto simp: umap_hit_def)

lemma hit_cong: "eq k k' \<Longrightarrow> umap_hit hash eq k = umap_hit hash eq k'"
  by (auto simp: fun_eq_iff hit_iff intro: eq_trans eq_sym)

lemma find_eq:
  fixes m :: "('k, 'v) umap"
  shows "umap_find hash eq m k = map_option snd (List.find (\<lambda>e. eq k (fst e)) m)"
proof -
  have "umap_hit hash eq k = (\<lambda>e :: 'k \<times> 'v. eq k (fst e))" by (rule ext) (rule hit_iff)
  then show ?thesis by (simp add: umap_find_def)
qed

lemma find_cong: "eq k k' \<Longrightarrow> umap_find hash eq m k = umap_find hash eq m k'"
  by (simp add: umap_find_def hit_cong)

lemma find_emplace:
  "umap_find hash eq (fst (umap_emplace hash eq m k v)) k' =
     (if umap_find hash eq m k = None \<and> eq k k' then Some v else umap_find hash eq m k')"
proof (cases "umap_find hash eq m k")
  case None
  show ?thesis
  proof (cases "eq k k'")
    case True
    then have "umap_find hash eq m k' = None" using None find_cong by metis
    with None True show ?thesis
      by (simp add: umap_emplace_def umap_find_def find_append hit_iff eq_sym)
  next
    case False
    then have "\<not> eq k' k" using eq_sym by blast
    with None False show ?thesis
      by (simp add: umap_emplace_def umap_find_def find_append hit_iff split: option.splits)
  qed
qed (simp add: umap_emplace_def)

lemma find_erase:
  fixes m :: "('k, 'v) umap"
  shows "umap_find hash eq (umap_erase hash eq m k) k' = (if eq k k' then None else umap_find hash eq m k')"
proof (cases "eq k k'")
  case True
  have "List.find (umap_hit hash eq k') (filter (\<lambda>e. \<not> umap_hit hash eq k e) m) = None"
    by (rule find_filter_None) (simp add: hit_cong [OF True])
  with True show ?thesis by (simp add: umap_find_def umap_erase_def)
next
  case False
  have "\<not> umap_hit hash eq k x" if "umap_hit hash eq k' x" for x :: "'k \<times> 'v"
    using that False eq_trans [of k "fst x" k'] eq_sym [of k' "fst x"] by (auto simp: hit_iff)
  then have "List.find (umap_hit hash eq k') (filter (\<lambda>e. \<not> umap_hit hash eq k e) m) =
      List.find (umap_hit hash eq k') m"
    by (intro find_filter_same) blast
  with False show ?thesis by (simp add: umap_find_def umap_erase_def)
qed

text \<open>Emplacing a list one by one: the first element with an equal key is the one found.\<close>

lemma find_emplace_all:
  "umap_find hash eq (umap_emplace_all hash eq m kvs) k =
     (case umap_find hash eq m k of
        Some v \<Rightarrow> Some v
      | None \<Rightarrow> map_option snd (List.find (\<lambda>e. eq k (fst e)) kvs))"
proof (induction kvs arbitrary: m)
  case Nil
  then show ?case by (simp split: option.splits)
next
  case (Cons e kvs)
  obtain k1 v1 where e: "e = (k1, v1)" by (cases e)
  show ?case
  proof (cases "eq k1 k")
    case True
    with Cons.IH find_cong [OF True, of m] eq_sym [OF True] show ?thesis
      by (auto simp: e find_emplace split: option.splits)
  next
    case False
    then have "\<not> eq k k1" using eq_sym by blast
    with Cons.IH False show ?thesis by (simp add: e find_emplace split: option.split)
  qed
qed

end

text \<open>Keys compared by \<open>==\<close> and hashed by any function, as the integer and \<open>std::string\<close> keys are.\<close>

interpretation plain_keys: unordered_keys hash "(=)" for hash :: "'k \<Rightarrow> 'h"
  by unfold_locales auto

lemma umap_find_plain: "umap_find hash (=) m k = map_of m k"
  by (induction m) (auto simp: plain_keys.find_eq)

lemma umap_erase_plain: "umap_erase hash (=) m k = filter (\<lambda>e. fst e \<noteq> k) m"
  by (auto simp: umap_erase_def plain_keys.hit_iff intro!: filter_cong)

lemma umap_erase_absent: "map_of m k = None \<Longrightarrow> umap_erase hash (=) (m @ [(k, v)]) k = m"
  by (force simp: umap_erase_plain map_of_eq_None_iff filter_id_conv)

end
