(* ===== verification/Fiber_Zcstring.thy ===== *)
theory Fiber_Zcstring
  imports Fiber_Findmatch Fiber_Stdmap
begin

unbundle bit_operations_syntax

text \<open>
  ci/utils/str.h: \<open>zcstring\<close>, a string that does not own its bytes, with its trimming operations,
  and the hash and equality the request header map uses (\<open>zcstring_ifasthash\<close>, \<open>zcstring_iequal\<close>).

  Both pointers of a \<open>zcstring\<close> point into one allocated block. The model carries the contents of
  that block and the two pointers as offsets into it (integers, because the trimming loops step
  before the start); \<open>zblock = None\<close> is the pair of null pointers. Every read of the trimming loops
  goes through \<open>rd\<close>, which answers \<^const>\<open>UndefinedBehaviour\<close> outside the block.
\<close>

record zcstring =
  zblock :: "string option"
  zbegin :: int
  zend :: int

definition znull :: zcstring where
  "znull = \<lparr>zblock = None, zbegin = 0, zend = 0\<rparr>"

definition zslice :: "string \<Rightarrow> nat \<Rightarrow> nat \<Rightarrow> zcstring" where
  "zslice blk b e = \<lparr>zblock = Some blk, zbegin = int b, zend = int e\<rparr>"

text \<open>\<open>zcstring(const std::string&)\<close>: the bytes of the string with the terminator behind them.\<close>

definition zstring :: "string \<Rightarrow> zcstring" where
  "zstring s = zslice (s @ [NUL]) 0 (length s)"

definition zwf :: "zcstring \<Rightarrow> bool" where
  "zwf z \<longleftrightarrow>
     (case zblock z of
        None \<Rightarrow> zbegin z = 0 \<and> zend z = 0
      | Some blk \<Rightarrow> 0 \<le> zbegin z \<and> zbegin z \<le> zend z \<and> zend z \<le> int (length blk))"

text \<open>The bytes of a well-formed view.\<close>

definition zbytes :: "zcstring \<Rightarrow> string" where
  "zbytes z =
     (case zblock z of
        None \<Rightarrow> []
      | Some blk \<Rightarrow> take (nat (zend z - zbegin z)) (drop (nat (zbegin z)) blk))"

definition zlength :: "zcstring \<Rightarrow> nat" where
  "zlength z = u64 (zend z - zbegin z)"

definition zempty :: "zcstring \<Rightarrow> bool" where
  "zempty z \<longleftrightarrow> zbegin z = zend z"

text \<open>
  \<open>str()\<close> is \<open>std::string(_begin, _end)\<close>: a reversed range is a \<open>length_error\<close>, a range
  outside the block is undefined.
\<close>

definition zstr :: "zcstring \<Rightarrow> exn + string" where
  "zstr z =
     (if zwf z then Inr (zbytes z)
      else if zend z < zbegin z then Inl StdLengthError
      else Inl UndefinedBehaviour)"

lemma zbytes_znull [simp]: "zbytes znull = []"
  by (simp add: zbytes_def znull_def)

lemma zwf_znull [simp]: "zwf znull"
  by (simp add: zwf_def znull_def)

lemma zbytes_zslice [simp]: "zbytes (zslice blk b e) = take (e - b) (drop b blk)"
  by (auto simp: zbytes_def zslice_def nat_diff_distrib')

lemma zwf_zslice [simp]: "zwf (zslice blk b e) \<longleftrightarrow> b \<le> e \<and> e \<le> length blk"
  by (simp add: zwf_def zslice_def)

lemma zwf_zstring [simp]: "zwf (zstring s)" and zbytes_zstring [simp]: "zbytes (zstring s) = s"
  by (simp_all add: zstring_def)

lemma zstr_wf [simp]: "zwf z \<Longrightarrow> zstr z = Inr (zbytes z)"
  by (simp add: zstr_def)

lemma length_zbytes: "zwf z \<Longrightarrow> length (zbytes z) = nat (zend z - zbegin z)"
  by (auto simp: zwf_def zbytes_def split: option.splits)

lemma zempty_iff: "zwf z \<Longrightarrow> zempty z \<longleftrightarrow> zbytes z = []"
  using length_zbytes [of z] by (auto simp: zempty_def zwf_def split: option.splits)

section \<open>Trimming\<close>

datatype trim_at = Both | Left | Right

definition rd :: "string option \<Rightarrow> int \<Rightarrow> exn + byte" where
  "rd blk i =
     (case blk of
        None \<Rightarrow> Inl UndefinedBehaviour
      | Some bs \<Rightarrow> if 0 \<le> i \<and> i < int (length bs) then Inr (bs ! nat i) else Inl UndefinedBehaviour)"

text \<open>\<open>for (; itb < _end && P(*itb); ++itb)\<close>\<close>

function ltrim :: "(byte \<Rightarrow> bool) \<Rightarrow> string option \<Rightarrow> int \<Rightarrow> int \<Rightarrow> exn + int" where
  "ltrim P blk itb e =
     (if itb < e then
        (case rd blk itb of
           Inl x \<Rightarrow> Inl x
         | Inr c \<Rightarrow> if P c then ltrim P blk (itb + 1) e else Inr itb)
      else Inr itb)"
  by pat_completeness auto
termination
  by (relation "measure (\<lambda>(P, blk, itb, e). nat (e - itb))") auto

text \<open>\<open>for (; P(*ite) && ite >= _begin; --ite)\<close>: the byte is read before the bound is tested.\<close>

function rtrim :: "(byte \<Rightarrow> bool) \<Rightarrow> string option \<Rightarrow> int \<Rightarrow> int \<Rightarrow> exn + int" where
  "rtrim P blk b ite =
     (case rd blk ite of
        Inl x \<Rightarrow> Inl x
      | Inr c \<Rightarrow> if P c \<and> b \<le> ite then rtrim P blk b (ite - 1) else Inr ite)"
  by pat_completeness auto
termination
  by (relation "measure (\<lambda>(P, blk, b, ite). nat (ite + 1))")
    (auto simp: rd_def split: option.splits if_splits)

declare ltrim.simps [simp del] rtrim.simps [simp del]

definition ztrim :: "zcstring \<Rightarrow> trim_at \<Rightarrow> exn + zcstring" where
  "ztrim z at =
     (case (if at \<noteq> Right then ltrim isspace (zblock z) (zbegin z) (zend z) else Inr (zbegin z)) of
        Inl x \<Rightarrow> Inl x
      | Inr itb \<Rightarrow>
          (case (if at \<noteq> Left then rtrim isspace (zblock z) (zbegin z) (zend z - 1) else Inr (zend z - 1)) of
             Inl x \<Rightarrow> Inl x
           | Inr ite \<Rightarrow> Inr (z\<lparr>zbegin := itb, zend := ite + 1\<rparr>)))"

text \<open>
  The overload with a membership table. Its second loop tests \<open>characters[*itb]\<close>, the byte at the
  left end, instead of the byte at \<open>ite\<close>: it moves \<open>ite\<close> down to before the start or not at all.
\<close>

definition ztrim_mask :: "nat list \<Rightarrow> zcstring \<Rightarrow> trim_at \<Rightarrow> exn + zcstring" where
  "ztrim_mask characters z at =
     (let P = (\<lambda>c. characters ! code c \<noteq> 0) in
      case (if at \<noteq> Right then ltrim P (zblock z) (zbegin z) (zend z) else Inr (zbegin z)) of
        Inl x \<Rightarrow> Inl x
      | Inr itb \<Rightarrow>
          if at \<noteq> Left then
            (case rd (zblock z) itb of
               Inl x \<Rightarrow> Inl x
             | Inr c \<Rightarrow>
                 let ite = (if P c then min (zend z - 1) (zbegin z - 1) else zend z - 1)
                 in Inr (z\<lparr>zbegin := itb, zend := ite + 1\<rparr>))
          else Inr (z\<lparr>zbegin := itb, zend := zend z\<rparr>))"

lemma rd_nth: "rd (Some (p @ c # q)) (int (length p)) = Inr c"
  by (simp add: rd_def)

lemma ltrim_slice:
  assumes "blk = pre @ s @ post"
  shows "ltrim P (Some blk) (int (length pre)) (int (length pre + length s)) =
           Inr (int (length pre + length (takeWhile P s)))"
  using assms
proof (induction s arbitrary: pre)
  case Nil
  then show ?case by (subst ltrim.simps) simp
next
  case (Cons c s)
  have r: "rd (Some blk) (int (length pre)) = Inr c"
    using Cons.prems rd_nth [of pre c "s @ post"] by simp
  show ?case
  proof (cases "P c")
    case True
    with Cons.IH [of "pre @ [c]"] Cons.prems r show ?thesis
      by (subst ltrim.simps) (simp add: algebra_simps)
  next
    case False
    with r show ?thesis by (subst ltrim.simps) simp
  qed
qed

lemma rtrim_slice:
  assumes "blk = pre @ s @ post" and "\<exists>c \<in> set s. \<not> P c"
  shows "rtrim P (Some blk) (int (length pre)) (int (length pre + length s) - 1) =
           Inr (int (length pre + length s - length (takeWhile P (rev s))) - 1)"
  using assms
proof (induction s arbitrary: post rule: rev_induct)
  case Nil
  then show ?case by simp
next
  case (snoc c s)
  have r: "rd (Some blk) (int (length pre + length s)) = Inr c"
    using snoc.prems rd_nth [of "pre @ s" c post] by simp
  show ?case
  proof (cases "P c")
    case True
    with snoc.prems(2) have ex: "\<exists>c \<in> set s. \<not> P c" by auto
    have "rtrim P (Some blk) (int (length pre)) (int (length pre + length (s @ [c])) - 1) =
          rtrim P (Some blk) (int (length pre)) (int (length pre + length s) - 1)"
      using True r by (subst rtrim.simps) simp
    with snoc.IH [of "c # post"] ex snoc.prems(1) True show ?thesis by simp
  next
    case False
    with r show ?thesis by (subst rtrim.simps) simp
  qed
qed

definition trim_ref :: "(byte \<Rightarrow> bool) \<Rightarrow> string \<Rightarrow> string" where
  "trim_ref P s = rev (dropWhile P (rev (dropWhile P s)))"

lemma trim_ref_eq:
  assumes "\<exists>c \<in> set s. \<not> P c"
  shows "trim_ref P s =
    take (length s - length (takeWhile P (rev s)) - length (takeWhile P s)) (drop (length (takeWhile P s)) s)"
proof -
  let ?t = "dropWhile P s"
  have t: "?t = drop (length (takeWhile P s)) s" by (rule dropWhile_eq_drop)
  have ex: "\<exists>c \<in> set (rev ?t). \<not> P c"
  proof -
    from assms obtain c where c: "c \<in> set s" "\<not> P c" by blast
    have "c \<notin> set (takeWhile P s)" using c(2) by (auto dest: set_takeWhileD)
    then have "c \<in> set ?t" using c(1) by (metis Un_iff set_append takeWhile_dropWhile_id)
    with c(2) show ?thesis by auto
  qed
  have "rev s = rev ?t @ rev (takeWhile P s)"
    by (metis rev_append takeWhile_dropWhile_id)
  with ex have tw: "takeWhile P (rev s) = takeWhile P (rev ?t)"
    by (metis takeWhile_append1)
  have "trim_ref P s = rev (drop (length (takeWhile P (rev ?t))) (rev ?t))"
    by (simp add: trim_ref_def dropWhile_eq_drop)
  also have "\<dots> = take (length ?t - length (takeWhile P (rev ?t))) ?t"
    by (simp add: rev_drop)
  finally show ?thesis by (simp add: tw t add.commute)
qed

text \<open>On a view with a byte that is not white space, \<open>trim\<close> returns the trimmed view.\<close>

text \<open>A string that is not null, as a piece of its block.\<close>

lemma zwf_split:
  assumes "zwf z" and "zblock z = Some blk"
  shows "\<exists>pre post. blk = pre @ zbytes z @ post \<and> zbegin z = int (length pre) \<and> zend z = int (length pre + length (zbytes z))"
proof (intro exI conjI)
  let ?b = "nat (zbegin z)" and ?e = "nat (zend z)"
  have bounds: "0 \<le> zbegin z" "zbegin z \<le> zend z" "zend z \<le> int (length blk)" using assms by (auto simp: zwf_def)
  have s: "zbytes z = take (?e - ?b) (drop ?b blk)" using assms(2) bounds by (simp add: zbytes_def nat_diff_distrib)
  have "blk = take ?e blk @ drop ?e blk" by simp
  also have "take ?e blk = take ?b blk @ zbytes z" using bounds take_add [of ?b "?e - ?b" blk] by (simp add: s)
  finally show "blk = take ?b blk @ zbytes z @ drop ?e blk" by simp
  show "zbegin z = int (length (take ?b blk))" "zend z = int (length (take ?b blk) + length (zbytes z))"
    using bounds by (simp_all add: s)
qed

lemma takeWhile_both_ends:
  assumes "\<exists>c \<in> set s. \<not> P c"
  shows "length (takeWhile P s) + length (takeWhile P (rev s)) \<le> length s"
proof -
  from assms obtain l c r where lr: "s = l @ c # r" "\<not> P c" "\<forall>x \<in> set l. P x"
    using split_list_first_prop [OF assms] by blast
  then have "length (takeWhile P s) = length l" by (simp add: takeWhile_all takeWhile_tail)
  moreover have "takeWhile P (rev s) = takeWhile P (rev r @ c # rev l)" by (simp add: lr)
  then have "length (takeWhile P (rev s)) \<le> length r"
    using lr(2) length_takeWhile_le [of P "rev r"] by (simp add: takeWhile_tail)
  ultimately show ?thesis by (simp add: lr)
qed

lemma ztrim_both:
  assumes wf: "zwf z" and ex: "\<exists>c \<in> set (zbytes z). \<not> isspace c"
  shows "\<exists>z'. ztrim z Both = Inr z' \<and> zwf z' \<and> zbytes z' = trim_ref isspace (zbytes z)"
proof -
  define s where "s = zbytes z"
  define A B where "A = length (takeWhile isspace s)" and "B = length (takeWhile isspace (rev s))"
  obtain blk where blk: "zblock z = Some blk" using ex by (cases "zblock z") (auto simp: zbytes_def)
  obtain pre post where split: "blk = pre @ s @ post" and b: "zbegin z = int (length pre)" and e: "zend z = int (length pre + length s)"
    using zwf_split [OF wf blk] by (auto simp: s_def)
  have ex': "\<exists>c \<in> set s. \<not> isspace c" using ex by (simp add: s_def)
  have len: "A + B \<le> length s" unfolding A_def B_def using ex' by (rule takeWhile_both_ends)
  define z' where "z' = zslice blk (length pre + A) (length pre + length s - B)"
  have "ztrim z Both = Inr z'"
    using ltrim_slice [OF split, of isspace] rtrim_slice [OF split ex']
    by (simp add: ztrim_def blk b e z'_def zslice_def A_def B_def)
  moreover have "zwf z'"
    using len split by (simp add: z'_def) arith
  moreover have "zbytes z' = trim_ref isspace s"
    using len split
    by (simp add: z'_def trim_ref_eq [OF ex'] A_def [symmetric] B_def [symmetric] add.commute)
  ultimately show ?thesis by (auto simp: s_def)
qed

section \<open>Case-insensitive hash and equality\<close>

text \<open>
  \<open>for (n = min(sizeof(size_t), length); n--; it++) hash = (hash | icase_ascii_table[*it]) << 8\<close>,
  and the byte-wise comparison of two views of equal length.
\<close>

fun ifasthash_loop :: "uint64 \<Rightarrow> string \<Rightarrow> uint64" where
  "ifasthash_loop hash [] = hash"
| "ifasthash_loop hash (c # cs) = ifasthash_loop (push_bit 8 (hash OR of_nat (icase c))) cs"

definition zcstring_ifasthash :: "zcstring \<Rightarrow> uint64" where
  "zcstring_ifasthash v = ifasthash_loop 0 (take 8 (zbytes v))"

fun iequal_loop :: "bool \<Rightarrow> string \<Rightarrow> string \<Rightarrow> bool" where
  "iequal_loop is_equal (a # as) (b # bs) =
     (if icase a = icase b then iequal_loop True as bs else False)"
| "iequal_loop is_equal _ _ = is_equal"

definition zcstring_iequal :: "zcstring \<Rightarrow> zcstring \<Rightarrow> bool" where
  "zcstring_iequal a b =
     (if length (zbytes a) = length (zbytes b) then
        if zbytes a \<noteq> [] then iequal_loop False (zbytes a) (zbytes b) else True
      else False)"

lemma iequal_loop_eq:
  "length as = length bs \<Longrightarrow> iequal_loop e as bs = (if as = [] then e else map icase as = map icase bs)"
  by (induction e as bs rule: iequal_loop.induct) auto

lemma zcstring_iequal_iff: "zcstring_iequal a b \<longleftrightarrow> map icase (zbytes a) = map icase (zbytes b)"
  using iequal_loop_eq [of "zbytes a" "zbytes b" False] map_eq_imp_length_eq [of icase "zbytes a" icase "zbytes b"]
  by (auto simp: zcstring_iequal_def)

lemma ifasthash_loop_cong: "map icase as = map icase bs \<Longrightarrow> ifasthash_loop h as = ifasthash_loop h bs"
proof (induction as arbitrary: bs h)
  case (Cons a as)
  then obtain b bs' where "bs = b # bs'" "icase a = icase b" "map icase as = map icase bs'"
    by (cases bs) auto
  with Cons.IH [of bs'] show ?case by simp
qed simp

lemma zcstring_hash_consistent:
  "zcstring_iequal a b \<Longrightarrow> zcstring_ifasthash a = zcstring_ifasthash b"
  unfolding zcstring_iequal_iff zcstring_ifasthash_def
  by (rule ifasthash_loop_cong) (metis take_map)

text \<open>The hash and the equality fit together: the header map is a map from folded names.\<close>

interpretation header_keys: unordered_keys zcstring_ifasthash zcstring_iequal
  by unfold_locales (auto simp: zcstring_iequal_iff intro: zcstring_hash_consistent)

section \<open>Splitting\<close>

text \<open>
  \<open>explode\<close>: the views between the occurrences of the delimiter, the case of letters put aside, and the
  rest if there is any. The needle of \<open>utils::find\<close> is a static that keeps the address of the delimiter
  of the first call (\<open>static_needles\<close>), a parameter that is gone when a later call reads it.
\<close>

lemma find_one_hit:
  assumes "del \<noteq> []" and "result (find_values (Some hs) [del]) \<noteq> 0"
  shows "\<exists>b. mbegin (find_values (Some hs) [del]) = Some b \<and> icase_prefix del (drop b hs) \<and> b + length del \<le> length hs \<and>
    (\<forall>k < b. \<not> icase_prefix del (drop k hs))"
proof -
  have f: "find_values (Some hs) [del] = leftmost [del] hs 0" using assms(1) by (intro find_values_leftmost) auto
  with assms(2) obtain i where "result (leftmost [del] hs 0) = Suc i" by (metis not0_implies_Suc)
  from leftmost_Some [OF this] obtain b where b: "mbegin (leftmost [del] hs 0) = Some b" "b < length hs"
      "needle_at [del] (drop b hs) = Some i" "\<forall>k < b. needle_at [del] (drop k hs) = None"
    by auto
  have "icase_prefix del (drop b hs)" using b(3) by (simp split: if_splits)
  moreover have "\<forall>k < b. \<not> icase_prefix del (drop k hs)" using b(4) by (auto split: if_splits)
  moreover have "b + length del \<le> length hs" using icase_prefix_length [OF \<open>icase_prefix del (drop b hs)\<close>] b(2) by simp
  ultimately show ?thesis using b(1) f by auto
qed

function explode_views :: "string \<Rightarrow> nat \<Rightarrow> string \<Rightarrow> nat \<Rightarrow> int \<Rightarrow> zcstring list \<Rightarrow> zcstring list" where
  "explode_views blk e del start limit parts =
     (let part = find_values (Some (take (e - start) (drop start blk))) [del] in
      if limit - 1 \<noteq> 0 \<and> result part \<noteq> 0 \<and> del \<noteq> [] then
        explode_views blk e del (start + the (mbegin part) + length del) (limit - 1)
          (parts @ [zslice blk start (start + the (mbegin part))])
      else if start < e then parts @ [zslice blk start e]
      else parts)"
  by pat_completeness auto
termination
proof (relation "measure (\<lambda>(blk, e, del, start, limit, parts). e - start)", simp, goal_cases)
  case (1 blk e del start limit parts part)
  then show ?case using find_one_hit [of del "take (e - start) (drop start blk)"] by (cases del) auto
qed

declare explode_views.simps [simp del]

definition zexplode :: "string option \<Rightarrow> zcstring \<Rightarrow> string \<Rightarrow> int \<Rightarrow> exn + zcstring list" where
  "zexplode needle z delimiter limit =
     (if needle \<noteq> None then Inl UndefinedBehaviour
      else case zblock z of
             None \<Rightarrow> Inr []
           | Some blk \<Rightarrow> Inr (explode_views blk (nat (zend z)) (c_str delimiter) (nat (zbegin z)) limit []))"

definition part_of :: "string \<Rightarrow> nat \<Rightarrow> zcstring \<Rightarrow> bool" where
  "part_of blk e p \<longleftrightarrow> zblock p = Some blk \<and> zwf p \<and> zend p \<le> int e"

lemma explode_views_parts:
  assumes "start \<le> e" and "e \<le> length blk" and "\<forall>p \<in> set parts. part_of blk e p"
  shows "\<forall>p \<in> set (explode_views blk e del start limit parts). part_of blk e p"
  using assms
proof (induction blk e del start limit parts rule: explode_views.induct)
  case (1 blk e del start limit parts)
  define part where "part = find_values (Some (take (e - start) (drop start blk))) [del]"
  show ?case
  proof (cases "limit - 1 \<noteq> 0 \<and> result part \<noteq> 0 \<and> del \<noteq> []")
    case True
    then obtain b where b: "mbegin part = Some b" "b + length del \<le> length (take (e - start) (drop start blk))"
      using find_one_hit [of del "take (e - start) (drop start blk)"] unfolding part_def by blast
    have "\<forall>p \<in> set (explode_views blk e del (start + b + length del) (limit - 1) (parts @ [zslice blk start (start + b)])). part_of blk e p"
    proof -
      have "part_of blk e (zslice blk start (start + b))" using b(2) 1(2,3) by (simp add: part_of_def) (simp add: zslice_def, linarith)
      moreover have "start + b + length del \<le> e" using b(2) 1(2,3) by simp
      ultimately show ?thesis
        using "1.IH" [OF part_def True, unfolded b(1) option.sel] 1(3,4) by (metis Un_iff empty_iff insert_iff list.set set_append)
    qed
    then show ?thesis using True b(1)
      by (subst explode_views.simps) (simp add: part_def [symmetric] Let_def)
  next
    case False
    then have "explode_views blk e del start limit parts = (if start < e then parts @ [zslice blk start e] else parts)"
      by (subst explode_views.simps) (simp only: part_def [symmetric] Let_def if_False)
    then show ?thesis using 1(2-4) by (simp add: part_of_def) (auto simp: zslice_def)
  qed
qed

text \<open>Without a limit no part holds the delimiter.\<close>

definition free_of :: "string \<Rightarrow> string \<Rightarrow> bool" where
  "free_of del s \<longleftrightarrow> (\<forall>k < length s. \<not> icase_prefix del (drop k s))"

lemma icase_prefix_take: "icase_prefix n (take k s) \<Longrightarrow> icase_prefix n s"
  using icase_prefix_append [of n "take k s" "drop k s"] by simp

lemma explode_views_free:
  assumes "limit < 0" and "del \<noteq> []" and "\<forall>p \<in> set parts. free_of del (zbytes p)"
  shows "\<forall>p \<in> set (explode_views blk e del start limit parts). free_of del (zbytes p)"
  using assms
proof (induction blk e del start limit parts rule: explode_views.induct)
  case (1 blk e del start limit parts)
  define hs where "hs = take (e - start) (drop start blk)"
  define part where "part = find_values (Some hs) [del]"
  show ?case
  proof (cases "result part \<noteq> 0")
    case True
    then obtain b where b: "mbegin part = Some b" "\<forall>k < b. \<not> icase_prefix del (drop k hs)" "b + length del \<le> length hs"
      using find_one_hit [of del hs] 1(3) by (auto simp: part_def)
    have "take b (drop start blk) = take b hs" using b(3) by (simp add: hs_def)
    moreover have "free_of del (take b hs)" using b(2,3)
      by (auto simp: free_of_def drop_take dest: icase_prefix_take)
    ultimately have "free_of del (zbytes (zslice blk start (start + b)))" by simp
    then have "\<forall>p \<in> set (explode_views blk e del (start + b + length del) (limit - 1) (parts @ [zslice blk start (start + b)])). free_of del (zbytes p)"
      using "1.IH" [OF part_def [unfolded hs_def]] True b(1) 1(2-4) by simp
    then show ?thesis using True b(1) 1(2,3)
      by (subst explode_views.simps) (simp add: hs_def [symmetric] part_def [symmetric] Let_def)
  next
    case False
    then have "result (leftmost [del] hs 0) = 0" using 1(3) by (simp add: part_def find_values_leftmost)
    then have "free_of del hs" using leftmost_None [of "[del]" hs 0] by (auto simp: free_of_def split: if_splits)
    moreover have "explode_views blk e del start limit parts = (if start < e then parts @ [zslice blk start e] else parts)"
      using False by (subst explode_views.simps) (simp add: hs_def [symmetric] part_def [symmetric] Let_def)
    ultimately show ?thesis using 1(4) by (simp add: hs_def)
  qed
qed

end
