(* ===== verification/Fiber_Buffer.thy ===== *)
theory Fiber_Buffer
  imports Fiber_Zcstring
begin

text \<open>
  kernel/net/impl/bufferimpl.h: \<open>ReadBufferImpl\<close>, the buffer a request is received into.

  \<open>recv\<close> and \<open>ioctl(FIONREAD)\<close> are the operating system's: the argument \<open>net\<close> says, for each round
  of the loop, what \<open>recv\<close> answers (an error number, or the bytes waiting, of which it stores as many
  as fit) and what \<open>ioctl\<close> then reports. The bytes of the freshly allocated array are the argument
  \<open>fresh\<close>, since \<open>new uint8_t[n]\<close> leaves them uninitialised.
\<close>

record read_buffer =
  dataLength :: nat
  dataPartLength :: nat
  dataBuffer :: "string option"

definition ReadBufferImpl :: "nat \<Rightarrow> read_buffer" where
  "ReadBufferImpl unset = \<lparr>dataLength = 0, dataPartLength = unset, dataBuffer = None\<rparr>"

type_synonym recv_step = "(int + string) \<times> int option"

function read_loop :: "(nat \<Rightarrow> recv_step) \<Rightarrow> nat \<Rightarrow> nat \<Rightarrow> string \<Rightarrow> nat \<Rightarrow> nat \<Rightarrow> int \<times> string \<times> nat" where
  "read_loop net i MaxLength buf dl noffset =
     (case fst (net i) of
        Inl errno \<Rightarrow> (errno, buf, dl)
      | Inr avail \<Rightarrow>
          let chunk = take (MaxLength - noffset) avail;
              nread = length chunk;
              buf' = take noffset buf @ chunk @ drop (noffset + nread) buf
          in if nread = 0 then (0, buf', dl)
             else (case snd (net i) of
                     None \<Rightarrow> (0, buf', dl + nread)
                   | Some ncount \<Rightarrow>
                       if 0 < ncount \<and> int (noffset + nread) + ncount < int MaxLength
                       then read_loop net (Suc i) MaxLength buf' (dl + nread) (noffset + nread)
                       else (0, buf', dl + nread)))"
  by pat_completeness auto
termination
  by (relation "measure (\<lambda>(net, i, m, buf, dl, off). m - off)")
    (auto simp: length_greater_0_conv [symmetric] simp del: length_greater_0_conv)

declare read_loop.simps [simp del]

definition Read :: "(nat \<Rightarrow> recv_step) \<Rightarrow> (nat \<Rightarrow> byte) \<Rightarrow> read_buffer \<Rightarrow> nat \<Rightarrow> nat \<Rightarrow> int \<times> read_buffer" where
  "Read net fresh b MaxLength PartLength =
     (let (err, buf, dl) = read_loop net 0 MaxLength (map fresh [0..<MaxLength]) (dataLength b) 0
      in (err, b\<lparr>dataLength := dl, dataPartLength := PartLength, dataBuffer := Some buf\<rparr>))"

definition buffer_empty :: "read_buffer \<Rightarrow> bool" where
  "buffer_empty b \<longleftrightarrow> dataLength b = 0"

text \<open>
  \<open>Head\<close> is the first \<open>dataPartLength\<close> bytes of the array, however many of them were received.
\<close>

definition Head :: "read_buffer \<Rightarrow> zcstring" where
  "Head b = (case dataBuffer b of Some blk \<Rightarrow> zslice blk 0 (dataPartLength b) | None \<Rightarrow> znull)"

definition Content :: "read_buffer \<Rightarrow> nat \<Rightarrow> zcstring" where
  "Content b HeadOffset =
     (case dataBuffer b of
        Some blk \<Rightarrow> zslice blk (if HeadOffset < dataLength b then HeadOffset else dataLength b) (dataLength b)
      | None \<Rightarrow> znull)"

text \<open>
  The loop fills the array from the front: at most \<open>MaxLength\<close> bytes are counted, and behind them
  the array is as it was.
\<close>

text \<open>
  What the loop keeps: the size of the array, the bytes received before \<open>n\<close>, and those behind the new end \<open>dl\<close>.
\<close>

definition grows_within :: "nat \<Rightarrow> nat \<Rightarrow> string \<Rightarrow> string \<Rightarrow> nat \<Rightarrow> bool" where
  "grows_within m n buf buf' dl \<longleftrightarrow>
     length buf' = m \<and> n \<le> dl \<and> dl \<le> m \<and> take n buf' = take n buf \<and> drop dl buf' = drop dl buf"

lemma grows_within_trans:
  assumes "grows_within m n buf b k" and "grows_within m k b buf' dl"
  shows "grows_within m n buf buf' dl"
proof -
  have nk: "n \<le> k" "take k buf' = take k b" "take n b = take n buf" using assms by (simp_all add: grows_within_def)
  have "take n buf' = take n (take k buf')" using nk(1) by (simp add: min_def)
  then have t: "take n buf' = take n buf" using nk(1) unfolding nk(2) by (simp add: min_def nk(3))
  have kd: "k \<le> dl" "drop k b = drop k buf" "drop dl buf' = drop dl b" using assms by (simp_all add: grows_within_def)
  have "drop dl x = drop (dl - k) (drop k x)" for x :: string using kd(1) by simp
  then have "drop dl buf' = drop dl buf" using kd(2,3) by metis
  with t show ?thesis using assms by (simp add: grows_within_def)
qed

lemma read_loop_bounds:
  assumes "read_loop net i m buf n n = (err, buf', dl')" and "length buf = m" and "n \<le> m"
  shows "grows_within m n buf buf' dl'"
  using assms
proof (induction "m - n" arbitrary: i n buf rule: less_induct)
  case less
  show ?case
  proof (cases "fst (net i)")
    case (Inl e)
    with less.prems show ?thesis by (subst (asm) read_loop.simps) (simp add: grows_within_def)
  next
    case (Inr avail)
    define chunk where "chunk = take (m - n) avail"
    define b where "b = take n buf @ chunk @ drop (n + length chunk) buf"
    have c: "n + length chunk \<le> m" using less.prems by (simp add: chunk_def)
    have b: "length b = m" "grows_within m n buf b (n + length chunk)"
      using c less.prems by (simp_all add: b_def grows_within_def)
    show ?thesis
    proof (cases "chunk \<noteq> [] \<and> (\<exists>k. snd (net i) = Some k \<and> 0 < k \<and> int (n + length chunk) + k < int m)")
      case True
      then have "read_loop net (Suc i) m b (n + length chunk) (n + length chunk) = (err, buf', dl')"
        using less.prems(1) Inr
        by (subst (asm) read_loop.simps) (auto simp: Let_def chunk_def [symmetric] b_def [symmetric])
      moreover have "m - (n + length chunk) < m - n" using True c by (cases chunk) auto
      ultimately show ?thesis using less.hyps [OF _ _ b(1) c] grows_within_trans [OF b(2)] by blast
    next
      case False
      have "chunk = [] \<Longrightarrow> b = buf" by (simp add: b_def)
      with False have "(err, buf', dl') = (0, b, n + length chunk)"
        using less.prems(1) Inr
        by (subst (asm) read_loop.simps)
          (auto simp: Let_def chunk_def [symmetric] b_def [symmetric] split: option.splits if_splits)
      with b show ?thesis by simp
    qed
  qed
qed

lemma Read_bounds:
  assumes "Read net fresh (ReadBufferImpl u) m part = (err, b)"
  shows "\<exists>blk. dataBuffer b = Some blk \<and> length blk = m \<and> dataLength b \<le> m \<and> dataPartLength b = part \<and>
           (\<forall>i. dataLength b \<le> i \<and> i < m \<longrightarrow> blk ! i = fresh i)"
proof -
  obtain e buf dl where r: "read_loop net 0 m (map fresh [0..<m]) 0 0 = (e, buf, dl)"
    by (metis prod_cases3)
  from read_loop_bounds [OF r] have l: "length buf = m" "dl \<le> m" "drop dl buf = drop dl (map fresh [0..<m])"
    by (auto simp: grows_within_def)
  have "buf ! i = fresh i" if "dl \<le> i" "i < m" for i
  proof -
    have "drop dl buf ! (i - dl) = drop dl (map fresh [0..<m]) ! (i - dl)" by (simp only: l(3))
    then show ?thesis using that l(1) by simp
  qed
  with r l assms show ?thesis by (auto simp: Read_def ReadBufferImpl_def)
qed

text \<open>
  A text that arrives in pieces, from the \<open>i\<close>-th \<open>recv\<close> on: each \<open>recv\<close> delivers a piece, \<open>FIONREAD\<close> then
  reports the bytes of the next one, and none after the last. However it was cut, all of it is
  received, if it is shorter than the buffer.
\<close>

fun arriving :: "string list \<Rightarrow> nat \<Rightarrow> (nat \<Rightarrow> recv_step) \<Rightarrow> bool" where
  "arriving [] i net \<longleftrightarrow> False"
| "arriving [c] i net \<longleftrightarrow> c \<noteq> [] \<and> net i = (Inr c, Some 0)"
| "arriving (c # c' # cs) i net \<longleftrightarrow> c \<noteq> [] \<and> net i = (Inr c, Some (int (length c'))) \<and> arriving (c' # cs) (Suc i) net"

lemma arriving_nonempty: "arriving (c # cs) i net \<Longrightarrow> c \<noteq> []"
  by (cases cs) auto

lemma read_loop_arriving:
  assumes "arriving cs i net" and "length pre + length (concat cs) < m" and "length rest = m - length pre"
  shows "read_loop net i m (pre @ rest) (length pre) (length pre) =
    (0, pre @ concat cs @ drop (length (concat cs)) rest, length pre + length (concat cs))"
  using assms
proof (induction cs i net arbitrary: pre rest rule: arriving.induct)
  case (2 c i net)
  then show ?case by (subst read_loop.simps) (simp add: Let_def)
next
  case (3 c c' cs i net)
  have c': "c' \<noteq> []" using "3.prems"(1) arriving_nonempty by auto
  have "read_loop net (Suc i) m ((pre @ c) @ drop (length c) rest) (length (pre @ c)) (length (pre @ c)) =
      (0, (pre @ c) @ concat (c' # cs) @ drop (length (concat (c' # cs))) (drop (length c) rest), length (pre @ c) + length (concat (c' # cs)))"
    using "3.prems" by (intro "3.IH") auto
  then show ?case using "3.prems" c'
    by (subst read_loop.simps) (simp add: Let_def add.assoc add.commute add.left_commute)
qed simp

lemma Read_arriving:
  assumes "arriving cs 0 net" and "length (concat cs) < m"
  shows "\<exists>b g. Read net fresh (ReadBufferImpl u) m part = (0, b) \<and> dataBuffer b = Some (concat cs @ g) \<and>
    length (concat cs @ g) = m \<and> dataLength b = length (concat cs) \<and> dataPartLength b = part"
  using read_loop_arriving [OF assms(1), of "[]" m "map fresh [0..<m]"] assms(2)
  by (simp add: Read_def ReadBufferImpl_def)

lemma zwf_Content: "dataBuffer b = Some blk \<Longrightarrow> dataLength b \<le> length blk \<Longrightarrow> zwf (Content b n)"
  by (simp add: Content_def)

end
