(* ===== verification/Fiber_HttpParse.thy ===== *)
theory Fiber_HttpParse
  imports Fiber_Buffer
begin

text \<open>
  kernel/net/impl/protoimpl.h and \<open>http_parse_request\<close> of kernel/net/impl/httpimpl.cpp: the method
  table, the line endings and the request parser, which fills the fields of \<open>HttpImpl::CRequest\<close>
  (kernel/net/impl/httpimpl.h) with views into the receive buffer.

  The parser works on the head range of the buffer. It is undefined when that range is longer than
  the array; otherwise its result is the HTTP error code (0 for success) and the request.
\<close>

section \<open>Methods\<close>

datatype request_method = UNSUPPORTED | GET | POST | PUT | HEAD | OPTIONS | DELETE | TRACE | CONNECT | PATCH

definition RequestMethods :: "string list" where
  "RequestMethods = [''GET '', ''POST '', ''PUT '', ''HEAD '', ''OPTIONS '', ''DELETE '', ''TRACE '', ''CONNECT '', ''PATCH '']"

text \<open>The cast \<open>(RequestMethod)method.result()\<close>: the enumerators count from zero.\<close>

definition method_list :: "request_method list" where
  "method_list = [UNSUPPORTED, GET, POST, PUT, HEAD, OPTIONS, DELETE, TRACE, CONNECT, PATCH]"

definition method_of :: "nat \<Rightarrow> request_method" where
  "method_of n = (if n < length method_list then method_list ! n else UNSUPPORTED)"

section \<open>The parser\<close>

record crequest =
  Method :: request_method
  Uri :: zcstring
  ReqContent :: zcstring
  Params :: zcstring
  Headers :: "(zcstring \<times> zcstring) list"

definition empty_request :: crequest where
  "empty_request = \<lparr>Method = UNSUPPORTED, Uri = znull, ReqContent = znull, Params = znull, Headers = []\<rparr>"

definition HttpLineEndians :: "string list" where
  "HttpLineEndians = [[CR, LF, CR, LF], [LF, LF], [LF], [CR, LF]]"

definition bytes_between :: "string \<Rightarrow> nat \<Rightarrow> nat \<Rightarrow> string" where
  "bytes_between s b e = take (e - b) (drop b s)"

text \<open>A header line \<open>[line_begin, line_end)\<close>: kept when a colon and then a carriage return are found.\<close>

definition header_line :: "string \<Rightarrow> string \<Rightarrow> nat \<Rightarrow> nat \<Rightarrow> crequest \<Rightarrow> crequest" where
  "header_line blk head line_begin line_end req =
     (let name = find_char (bytes_between head line_begin line_end) [CHR '':'', CHR '' '', LF] in
      if result name \<noteq> 0 \<and> result name = 1 then
        let name_end = line_begin + the (mend name);
            val = find_char (bytes_between head name_end line_end) [CR, LF]
        in if result val \<noteq> 0 then
             req\<lparr>Headers := Headers req @
               [(zslice blk line_begin (name_end - 1), zslice blk name_end (name_end + the (mend val) - 1))]\<rparr>
           else req
      else req)"

text \<open>
  The request line: the target runs from the end of the method to the first blank. The search for
  the parameters is given the empty range \<open>[path.end(), path.end())\<close>.
\<close>

definition request_line :: "string \<Rightarrow> string \<Rightarrow> nat \<Rightarrow> nat \<Rightarrow> crequest \<Rightarrow> crequest option" where
  "request_line blk head method_end line_end req =
     (let path = find_char (bytes_between head method_end line_end) [CHR '' '', TAB, LF, CR] in
      if result path \<noteq> 0 then
        let path_end = method_end + the (mend path);
            req = req\<lparr>Uri := zslice blk method_end (path_end - 1)\<rparr>;
            params = find_char (bytes_between head path_end path_end) ''?''
        in Some (if result params \<noteq> 0 then
                   req\<lparr>Params := zslice blk (path_end + 1) (path_end - 1),
                       Uri := zslice blk method_end (path_end + the (mend params) - 1)\<rparr>
                 else req)
      else None)"

lemma find_values_progress: "result (find_values (Some s) HttpLineEndians) \<noteq> 0 \<Longrightarrow>
    \<exists>e. mend (find_values (Some s) HttpLineEndians) = Some e \<and> 0 < e \<and> e \<le> length s"
proof -
  assume r: "result (find_values (Some s) HttpLineEndians) \<noteq> 0"
  have ne: "\<forall>n \<in> set HttpLineEndians. n \<noteq> []" "HttpLineEndians \<noteq> []" by (simp_all add: HttpLineEndians_def)
  from r obtain i where i: "result (leftmost HttpLineEndians s 0) = Suc i"
    by (cases "result (leftmost HttpLineEndians s 0)") (auto simp: find_values_leftmost [OF ne])
  from leftmost_Some [OF i] obtain b where b: "leftmost HttpLineEndians s 0 =
      \<lparr>result = Suc i, mbegin = Some b, mend = Some (b + length (HttpLineEndians ! i))\<rparr>"
      "b < length s" "needle_at HttpLineEndians (drop b s) = Some i"
    by auto
  from needle_at_Some [OF b(3)] have p: "i < length HttpLineEndians" "icase_prefix (HttpLineEndians ! i) (drop b s)"
    by auto
  have "HttpLineEndians ! i \<noteq> []" using ne(1) p(1) by auto
  with icase_prefix_length [OF p(2)] b show ?thesis
    by (simp add: find_values_leftmost [OF ne])
qed

function http_lines :: "read_buffer \<Rightarrow> string \<Rightarrow> string \<Rightarrow> nat \<Rightarrow> nat \<Rightarrow> nat \<Rightarrow> crequest \<Rightarrow> nat \<times> crequest" where
  "http_lines data blk head method_end line_begin line_no req =
     (let line = find_values (Some (drop line_begin head)) HttpLineEndians;
          line_end = line_begin + the (mend line)
      in if result line = 0 then (431, req)
         else if 2 < result line then
           if line_no \<noteq> 0 then
             http_lines data blk head method_end line_end (Suc line_no)
               (header_line blk head line_begin line_end req)
           else
             (case request_line blk head method_end line_end req of
                Some req' \<Rightarrow> http_lines data blk head method_end line_end (Suc line_no) req'
              | None \<Rightarrow> (400, req))
         else (0, req\<lparr>ReqContent := Content data line_end\<rparr>))"
  by pat_completeness auto
termination
proof (relation "measure (\<lambda>(data, blk, head, m, b, n, req). length head - b)", goal_cases)
  case (2 data blk head m b n req x y)
  with find_values_progress [of "drop b head"] show ?case by auto
next
  case (3 data blk head m b n req x y)
  with find_values_progress [of "drop b head"] show ?case by auto
qed simp

declare http_lines.simps [simp del]

definition http_parse_request :: "read_buffer \<Rightarrow> crequest \<Rightarrow> exn + nat \<times> crequest" where
  "http_parse_request data req =
     (if \<not> buffer_empty data then
        let head = Head data in
        if \<not> zwf head then Inl UndefinedBehaviour
        else
          let meth = match_values (map_option (\<lambda>_. zbytes head) (zblock head)) RequestMethods in
          if result meth \<noteq> 0 then
            Inr (http_lines data (the (zblock head)) (zbytes head) (the (mend meth)) 0 0
                   (req\<lparr>Method := method_of (result meth)\<rparr>))
          else Inr (405, req)
      else Inr (400, req))"

section \<open>Scanning a line\<close>

lemma icase_control [scan_simps]:
  "icase CR = icase c \<longleftrightarrow> c = CR" "icase LF = icase c \<longleftrightarrow> c = LF"
  using icase_CR icase_LF by metis+

lemma CR_LF_neq [simp]: "CR \<noteq> LF" "LF \<noteq> CR"
  by (simp_all add: CR_def LF_def)

definition no_eol :: "string \<Rightarrow> bool" where
  "no_eol s \<longleftrightarrow> CR \<notin> set s \<and> LF \<notin> set s"

lemma no_eol_simps [simp]:
  "no_eol []" "no_eol (c # s) \<longleftrightarrow> c \<noteq> CR \<and> c \<noteq> LF \<and> no_eol s"
  "no_eol (s @ t) \<longleftrightarrow> no_eol s \<and> no_eol t"
  by (auto simp: no_eol_def)

lemma needle_at_text: "c \<noteq> CR \<Longrightarrow> c \<noteq> LF \<Longrightarrow> needle_at HttpLineEndians (c # s) = None"
  by (simp add: HttpLineEndians_def scan_simps)

lemma find_line_end:
  assumes "no_eol s"
  shows "find_values (Some (s @ CR # LF # t)) HttpLineEndians =
    (if \<exists>u. t = CR # LF # u
     then \<lparr>result = 1, mbegin = Some (length s), mend = Some (length s + 4)\<rparr>
     else \<lparr>result = 4, mbegin = Some (length s), mend = Some (length s + 2)\<rparr>)"
proof -
  have ne: "\<forall>n \<in> set HttpLineEndians. n \<noteq> []" "HttpLineEndians \<noteq> []" by (simp_all add: HttpLineEndians_def)
  have "needle_at HttpLineEndians (drop k (s @ CR # LF # t)) = None" if "k < length s" for k
  proof -
    have "drop k (s @ CR # LF # t) = s ! k # drop (Suc k) s @ CR # LF # t"
      using that by (simp add: Cons_nth_drop_Suc [symmetric])
    moreover have "s ! k \<noteq> CR" "s ! k \<noteq> LF"
      using nth_mem [OF that] assms by (auto simp: no_eol_def)
    ultimately show ?thesis using needle_at_text by simp
  qed
  then have "find_values (Some (s @ CR # LF # t)) HttpLineEndians =
      leftmost HttpLineEndians (CR # LF # t) (length s)"
    using leftmost_skip [of s HttpLineEndians "CR # LF # t" 0] by (simp add: find_values_leftmost [OF ne])
  moreover have "needle_at HttpLineEndians (CR # LF # t) = (if \<exists>u. t = CR # LF # u then Some 0 else Some 3)"
    by (cases t; cases "tl t") (auto simp: HttpLineEndians_def scan_simps)
  ultimately show ?thesis by (simp add: HttpLineEndians_def split: if_splits)
qed

lemma u64_one [simp]: "u64 1 = 1"
  by (simp add: u64_def)

lemma char_index_hd [simp]: "char_index c (c # cs) = 0"
  by (simp add: char_index_def)

lemma bytes_between_same [simp]: "bytes_between s x x = []"
  by (simp add: bytes_between_def)

lemma bytes_between_append:
  "b = length p \<Longrightarrow> e = length p + length s \<Longrightarrow> bytes_between (p @ s @ t) b e = s"
  by (simp add: bytes_between_def)

section \<open>Reading back a request\<close>

definition header_text :: "string \<times> string \<Rightarrow> string" where
  "header_text h = fst h @ CHR '':'' # snd h @ CRLF"

definition header_ok :: "string \<times> string \<Rightarrow> bool" where
  "header_ok h \<longleftrightarrow> no_eol (fst h) \<and> CHR '':'' \<notin> set (fst h) \<and> CHR '' '' \<notin> set (fst h) \<and> no_eol (snd h)"

definition headers_text :: "(string \<times> string) list \<Rightarrow> string" where
  "headers_text hs = concat (map header_text hs)"

definition view :: "zcstring \<times> zcstring \<Rightarrow> string \<times> string" where
  "view h = (zbytes (fst h), zbytes (snd h))"

lemma header_line_eq:
  assumes "header_ok h" and "head = p @ header_text h @ t" and "blk = head @ g"
  shows "\<exists>z. header_line blk head (length p) (length p + length (header_text h)) req =
             req\<lparr>Headers := Headers req @ [z]\<rparr> \<and> view z = h \<and> zwf (fst z) \<and> zwf (snd z)"
proof -
  obtain n v where h: "h = (n, v)" by (cases h)
  let ?cl = "[CHR '':'', CHR '' '', LF]"
  define e where "e = length p + length (header_text h)"
  have b1: "bytes_between head (length p) e = n @ CHR '':'' # (v @ CRLF)"
    by (simp add: assms(2) bytes_between_append e_def) (simp add: header_text_def h)
  have f1: "find_char (n @ CHR '':'' # (v @ CRLF)) ?cl =
      \<lparr>result = 1, mbegin = Some 0, mend = Some (Suc (length n))\<rparr>"
    using find_char_hit [of n ?cl "CHR '':''" "v @ CRLF"] assms(1)
    by (auto simp: header_ok_def h no_eol_def)
  have b2: "bytes_between head (length p + Suc (length n)) e = v @ CR # [LF]"
  proof -
    have "head = (p @ n @ [CHR '':'']) @ (v @ CRLF) @ t" by (simp add: assms(2) header_text_def h)
    then show ?thesis
      by (simp only:) (subst bytes_between_append, simp_all add: e_def header_text_def h CRLF_def)
  qed
  have f2: "find_char (v @ CR # [LF]) [CR, LF] = \<lparr>result = 1, mbegin = Some 0, mend = Some (Suc (length v))\<rparr>"
    using find_char_hit [of v "[CR, LF]" CR "[LF]"] assms(1) by (auto simp: header_ok_def h no_eol_def)
  define z where "z = (zslice blk (length p) (length p + length n),
      zslice blk (Suc (length p + length n)) (Suc (length p + length n) + length v))"
  have "header_line blk head (length p) e req = req\<lparr>Headers := Headers req @ [z]\<rparr>"
    using b2 by (simp add: header_line_def b1 f1 f2 Let_def z_def)
  moreover have "blk = (p @ n @ [CHR '':'']) @ v @ CRLF @ t @ g" "blk = p @ n @ CHR '':'' # v @ CRLF @ t @ g"
    by (simp_all add: assms(2,3) header_text_def h)
  then have "view z = h" "zwf (fst z)" "zwf (snd z)"
    by (simp_all add: view_def z_def h)
  ultimately show ?thesis unfolding e_def by blast
qed

lemma header_text_line:
  assumes "header_ok h"
  shows "header_text h = (fst h @ CHR '':'' # snd h) @ [CR, LF]" "no_eol (fst h @ CHR '':'' # snd h)"
  using assms by (auto simp: header_text_def CRLF_def header_ok_def CR_def LF_def)

lemma http_lines_header:
  assumes "header_ok h" and "head = p @ header_text h @ t" and "\<nexists>u. t = CR # LF # u" and "blk = head @ g"
    and "line_no \<noteq> 0"
  shows "\<exists>z. http_lines data blk head m (length p) line_no req =
             http_lines data blk head m (length p + length (header_text h)) (Suc line_no)
               (req\<lparr>Headers := Headers req @ [z]\<rparr>) \<and> view z = h \<and> zwf (fst z) \<and> zwf (snd z)"
proof -
  from header_line_eq [OF assms(1,2,4), of req] obtain z where
    z: "header_line blk head (length p) (length p + length (header_text h)) req =
        req\<lparr>Headers := Headers req @ [z]\<rparr>" "view z = h" "zwf (fst z)" "zwf (snd z)" by blast
  have "find_values (Some (drop (length p) head)) HttpLineEndians =
      \<lparr>result = 4, mbegin = Some (length (header_text h) - 2), mend = Some (length (header_text h))\<rparr>"
    using find_line_end [OF header_text_line(2) [OF assms(1)], of t] assms(3)
    by (simp add: assms(2) header_text_line(1) [OF assms(1)])
  then have "http_lines data blk head m (length p) line_no req =
      http_lines data blk head m (length p + length (header_text h)) (Suc line_no)
        (header_line blk head (length p) (length p + length (header_text h)) req)"
    using assms(5) by (subst http_lines.simps) (simp add: Let_def)
  with z show ?thesis by (intro exI [of _ z]) simp
qed

lemma header_text_no_crlf: "header_ok h \<Longrightarrow> \<nexists>u. header_text h @ t = CR # LF # u"
  by (cases "fst h") (auto simp: header_text_def header_ok_def CR_def)

text \<open>
  From the first header on, the loop keeps every header but the last: the search that should end the
  last header's line finds the empty line behind it, which wins over the plain line ending.
\<close>

lemma headers_text_no_crlf:
  assumes "\<forall>h \<in> set hs. header_ok h" and "header_ok l"
  shows "\<nexists>u. headers_text hs @ header_text l @ s = CR # LF # u"
  using assms header_text_no_crlf by (cases hs) (simp_all add: headers_text_def)

lemma http_lines_headers:
  assumes "\<forall>h \<in> set hs. header_ok h" and "header_ok l" and "blk = head @ g" and "line_no \<noteq> 0"
    and "head = p @ headers_text hs @ header_text l @ CRLF @ t"
  shows "\<exists>zs. http_lines data blk head m (length p) line_no req =
           (0, req\<lparr>Headers := Headers req @ zs,
                    ReqContent := Content data (length p + length (headers_text (hs @ [l]) @ CRLF))\<rparr>) \<and>
         map view zs = hs \<and> (\<forall>z \<in> set zs. zwf (fst z) \<and> zwf (snd z))"
  using assms
proof (induction hs arbitrary: p line_no req)
  case Nil
  have "find_values (Some (drop (length p) head)) HttpLineEndians =
      \<lparr>result = 1, mbegin = Some (length (header_text l) - 2), mend = Some (length (header_text l) + 2)\<rparr>"
    using find_line_end [OF header_text_line(2) [OF Nil.prems(2)], of "CR # LF # t"] Nil.prems(5)
    by (simp add: header_text_line(1) [OF Nil.prems(2)] headers_text_def CRLF_def)
  then show ?case
    by (subst http_lines.simps) (simp add: Let_def headers_text_def CRLF_def add.assoc)
next
  case (Cons h hs)
  let ?t = "headers_text hs @ header_text l @ CRLF @ t"
  have h: "header_ok h" using Cons.prems by simp
  have t: "\<nexists>u. ?t = CR # LF # u" using Cons.prems(1,2) by (intro headers_text_no_crlf) simp_all
  have head: "head = p @ header_text h @ ?t" using Cons.prems(5) by (simp add: headers_text_def)
  obtain z where z: "http_lines data blk head m (length p) line_no req =
      http_lines data blk head m (length p + length (header_text h)) (Suc line_no)
        (req\<lparr>Headers := Headers req @ [z]\<rparr>)" "view z = h" "zwf (fst z)" "zwf (snd z)"
    using http_lines_header [OF h head t Cons.prems(3,4)] by blast
  let ?r = "req\<lparr>Headers := Headers req @ [z]\<rparr>"
  have "\<exists>zs. http_lines data blk head m (length (p @ header_text h)) (Suc line_no) ?r =
        (0, ?r\<lparr>Headers := Headers ?r @ zs,
             ReqContent := Content data (length (p @ header_text h) + length (headers_text (hs @ [l]) @ CRLF))\<rparr>) \<and>
      map view zs = hs \<and> (\<forall>z \<in> set zs. zwf (fst z) \<and> zwf (snd z))"
    by (rule Cons.IH) (use Cons.prems(1,2,3) head in simp_all)
  then obtain zs where zs: "http_lines data blk head m (length (p @ header_text h)) (Suc line_no) ?r =
        (0, ?r\<lparr>Headers := Headers ?r @ zs,
             ReqContent := Content data (length (p @ header_text h) + length (headers_text (hs @ [l]) @ CRLF))\<rparr>)"
      "map view zs = hs" "\<forall>z \<in> set zs. zwf (fst z) \<and> zwf (snd z)"
    by blast
  show ?case
    by (rule exI [of _ "z # zs"]) (use z zs in \<open>simp add: headers_text_def add.assoc\<close>)
qed

lemma prefix_free_RequestMethods: "prefix_free RequestMethods"
  unfolding RequestMethods_def
  by (intro prefix_free_ConsI prefix_free_Nil) (simp_all add: icase_eq upcase_code_def)

lemma no_eol_RequestMethods: "i < length RequestMethods \<Longrightarrow> no_eol (RequestMethods ! i)"
proof -
  have "\<forall>m \<in> set RequestMethods. no_eol m" by (simp add: RequestMethods_def CR_def LF_def)
  then show "i < length RequestMethods \<Longrightarrow> no_eol (RequestMethods ! i)" by simp
qed

definition target_ok :: "string \<Rightarrow> bool" where
  "target_ok u \<longleftrightarrow> no_eol u \<and> CHR '' '' \<notin> set u \<and> TAB \<notin> set u"

definition first_line :: "string \<Rightarrow> string \<Rightarrow> string \<Rightarrow> string" where
  "first_line meth uri ver = meth @ uri @ CHR '' '' # ver"

lemma request_line_eq:
  assumes "target_ok uri" and "no_eol ver" and "head = meth @ uri @ CHR '' '' # ver @ CR # t" and "blk = head @ g"
    and "e \<le> length head" and "length (meth @ uri @ CHR '' '' # ver) \<le> e"
  shows "\<exists>z. request_line blk head (length meth) e req = Some (req\<lparr>Uri := z\<rparr>) \<and> zwf z \<and> zbytes z = uri"
proof -
  let ?cl = "[CHR '' '', TAB, LF, CR]"
  define r where "r = take (e - length (meth @ uri @ CHR '' '' # ver)) (CR # t)"
  have b: "bytes_between head (length meth) e = uri @ CHR '' '' # (ver @ r)"
    using assms(5,6) by (simp add: bytes_between_def assms(3) take_Cons' add.assoc r_def)
  have f: "find_char (uri @ CHR '' '' # (ver @ r)) ?cl =
      \<lparr>result = 1, mbegin = Some 0, mend = Some (Suc (length uri))\<rparr>"
    using find_char_hit [of uri ?cl "CHR '' ''" "ver @ r"] assms(1) by (auto simp: target_ok_def no_eol_def)
  have "request_line blk head (length meth) e req =
      Some (req\<lparr>Uri := zslice blk (length meth) (length meth + length uri)\<rparr>)"
    by (simp add: request_line_def b f Let_def)
  then show ?thesis
    by (intro exI [of _ "zslice blk (length meth) (length meth + length uri)"]) (simp add: assms(3,4))
qed

definition head_text :: "nat \<Rightarrow> string \<Rightarrow> string \<Rightarrow> (string \<times> string) list \<Rightarrow> string" where
  "head_text i uri ver hs = first_line (RequestMethods ! i) uri ver @ CRLF @ headers_text hs @ CRLF"

text \<open>The buffer holds the text \<open>s\<close> (and, behind it, whatever the array held before).\<close>

definition holds :: "read_buffer \<Rightarrow> string \<Rightarrow> bool" where
  "holds b s \<longleftrightarrow> (\<exists>g. dataBuffer b = Some (s @ g)) \<and> dataLength b = length s"

definition head_fits :: "read_buffer \<Rightarrow> nat \<Rightarrow> bool" where
  "head_fits b n \<longleftrightarrow> n \<le> dataPartLength b \<and> (\<forall>blk. dataBuffer b = Some blk \<longrightarrow> dataPartLength b \<le> length blk)"

lemma http_parse_start:
  assumes "i < length RequestMethods" and "holds b (RequestMethods ! i @ s)" and "head_fits b (length (RequestMethods ! i @ h))"
    and "s = h @ s'"
  shows "\<exists>blk t g. dataBuffer b = Some blk \<and> blk = (RequestMethods ! i @ h @ t) @ g \<and>
    http_parse_request b req =
      Inr (http_lines b blk (RequestMethods ! i @ h @ t) (length (RequestMethods ! i)) 0 0 (req\<lparr>Method := method_of (Suc i)\<rparr>))"
proof -
  obtain g where g: "dataBuffer b = Some (RequestMethods ! i @ h @ s' @ g)"
    using assms(2,4) by (auto simp: holds_def)
  define blk where "blk = RequestMethods ! i @ h @ s' @ g"
  define n where "n = dataPartLength b"
  have n: "length (RequestMethods ! i @ h) \<le> n" "n \<le> length blk"
    using assms(3) g by (auto simp: head_fits_def n_def blk_def)
  define t where "t = take (n - length (RequestMethods ! i @ h)) (s' @ g)"
  have tk: "take n blk = RequestMethods ! i @ h @ t"
    using n(1) by (simp add: blk_def t_def)
  have m: "match_values (Some (RequestMethods ! i @ h @ t)) RequestMethods =
      \<lparr>result = Suc i, mbegin = Some 0, mend = Some (length (RequestMethods ! i))\<rparr>"
    by (rule match_values_some [OF prefix_free_RequestMethods assms(1)])
      (simp add: icase_prefix_def)
  have "RequestMethods ! i \<noteq> []" using nth_mem [OF assms(1)] by (auto simp: RequestMethods_def)
  then have "\<not> buffer_empty b" using assms(2) by (simp add: buffer_empty_def holds_def)
  moreover have "Head b = zslice blk 0 n" using g by (simp add: Head_def n_def blk_def)
  ultimately have "http_parse_request b req =
      Inr (http_lines b blk (RequestMethods ! i @ h @ t) (length (RequestMethods ! i)) 0 0 (req\<lparr>Method := method_of (Suc i)\<rparr>))"
    using m n(2) by (simp add: http_parse_request_def Let_def tk) (simp add: zslice_def)
  moreover have "blk = take n blk @ drop n blk" by simp
  ultimately show ?thesis using g tk unfolding blk_def by metis
qed

text \<open>A request with at least one header is read back, but for its last header.\<close>

lemma http_parse_headers:
  assumes i: "i < length RequestMethods" and uri: "target_ok uri" and ver: "no_eol ver"
    and hs: "\<forall>h \<in> set hs. header_ok h" and l: "header_ok l"
    and b: "holds b (head_text i uri ver (hs @ [l]) @ body)"
    and fits: "head_fits b (length (head_text i uri ver (hs @ [l])))"
  shows "\<exists>req'. http_parse_request b req = Inr (0, req') \<and> Method req' = method_of (Suc i) \<and>
           zbytes (Uri req') = uri \<and> Params req' = Params req \<and> zbytes (ReqContent req') = body \<and>
           (\<exists>zs. Headers req' = Headers req @ zs \<and> map view zs = hs)"
proof -
  let ?m = "RequestMethods ! i"
  define h where "h = uri @ CHR '' '' # ver @ CRLF @ headers_text hs @ header_text l @ CRLF"
  have ht: "head_text i uri ver (hs @ [l]) = ?m @ h"
    by (simp add: head_text_def first_line_def h_def headers_text_def)
  obtain blk t g where blk: "dataBuffer b = Some blk" "blk = (?m @ h @ t) @ g" and
    parse: "http_parse_request b req =
      Inr (http_lines b blk (?m @ h @ t) (length ?m) 0 0 (req\<lparr>Method := method_of (Suc i)\<rparr>))"
    using http_parse_start [OF i, of b "h @ body" h body req] b fits by (auto simp: ht)
  let ?head = "?m @ h @ t" and ?r = "req\<lparr>Method := method_of (Suc i)\<rparr>"
  let ?fl = "first_line ?m uri ver" and ?rest = "headers_text hs @ header_text l @ CRLF @ t"
  have head: "?head = ?fl @ CR # LF # ?rest" by (simp add: h_def first_line_def CRLF_def)
  have fl: "no_eol ?fl"
    using no_eol_RequestMethods [OF i] uri ver by (simp add: first_line_def target_ok_def CR_def LF_def)
  have rest: "\<nexists>u. ?rest = CR # LF # u"
    using header_text_no_crlf hs l by (cases hs) (auto simp: headers_text_def)
  have line: "find_values (Some ?head) HttpLineEndians =
      \<lparr>result = 4, mbegin = Some (length ?fl), mend = Some (length ?fl + 2)\<rparr>"
    unfolding head using find_line_end [OF fl, of ?rest] rest by simp
  obtain z where z: "request_line blk ?head (length ?m) (length ?fl + 2) ?r = Some (?r\<lparr>Uri := z\<rparr>)" "zbytes z = uri"
    using request_line_eq [OF uri ver, of ?head ?m "LF # ?rest" blk g "length ?fl + 2" ?r] blk(2)
    by (auto simp: h_def first_line_def CRLF_def)
  have step: "http_lines b blk ?head (length ?m) 0 0 ?r =
      http_lines b blk ?head (length ?m) (length (?fl @ CRLF)) (Suc 0) (?r\<lparr>Uri := z\<rparr>)"
    using line z(1) by (subst http_lines.simps) (simp add: Let_def CRLF_def)
  obtain zs where zs: "http_lines b blk ?head (length ?m) (length (?fl @ CRLF)) (Suc 0) (?r\<lparr>Uri := z\<rparr>) =
      (0, ?r\<lparr>Uri := z, Headers := Headers req @ zs,
        ReqContent := Content b (length (?fl @ CRLF) + length (headers_text (hs @ [l]) @ CRLF))\<rparr>)"
      "map view zs = hs"
    using http_lines_headers [OF hs l blk(2), of "Suc 0" "?fl @ CRLF" t b "length ?m" "?r\<lparr>Uri := z\<rparr>"] head
    by (auto simp: CRLF_def)
  have "length (?fl @ CRLF) + length (headers_text (hs @ [l]) @ CRLF) = length (?m @ h)"
    by (simp add: h_def first_line_def headers_text_def)
  moreover have "zbytes (Content b (length (?m @ h))) = body"
    using b by (auto simp: Content_def holds_def ht split: if_splits)
  ultimately show ?thesis
    using parse step zs z(2) by (auto simp del: length_append)
qed

text \<open>
  Without any header the empty line ends the first line already, and the target is never read: the
  request succeeds with the \<open>Uri\<close> it had before, the null view.
\<close>

lemma http_parse_no_headers:
  assumes i: "i < length RequestMethods" and uri: "target_ok uri" and ver: "no_eol ver"
    and b: "holds b (head_text i uri ver [] @ body)" and fits: "head_fits b (length (head_text i uri ver []))"
  shows "\<exists>req'. http_parse_request b req = Inr (0, req') \<and> Method req' = method_of (Suc i) \<and>
           Uri req' = Uri req \<and> Headers req' = Headers req"
proof -
  let ?m = "RequestMethods ! i"
  define h where "h = uri @ CHR '' '' # ver @ CRLF @ CRLF"
  have ht: "head_text i uri ver [] = ?m @ h"
    by (simp add: head_text_def first_line_def h_def headers_text_def)
  obtain blk t g where parse: "http_parse_request b req =
      Inr (http_lines b blk (?m @ h @ t) (length ?m) 0 0 (req\<lparr>Method := method_of (Suc i)\<rparr>))"
    using http_parse_start [OF i, of b "h @ body" h body req] b fits by (auto simp: ht)
  have fl: "no_eol (first_line ?m uri ver)"
    using no_eol_RequestMethods [OF i] uri ver by (simp add: first_line_def target_ok_def CR_def LF_def)
  have "find_values (Some (?m @ h @ t)) HttpLineEndians =
      \<lparr>result = 1, mbegin = Some (length (first_line ?m uri ver)), mend = Some (length (first_line ?m uri ver) + 4)\<rparr>"
    using find_line_end [OF fl, of "CR # LF # t"] by (simp add: h_def first_line_def CRLF_def)
  then show ?thesis
    using parse by (simp add: http_lines.simps [of b blk "?m @ h @ t"] Let_def)
qed

section \<open>Every view stays inside the buffer\<close>

lemma find_char_bounds:
  assumes "cl \<noteq> []"
  obtains e where "mend (find_char s cl) = Some e" and "e \<le> length s" and "result (find_char s cl) \<noteq> 0 \<Longrightarrow> 0 < e"
proof (cases "\<exists>c \<in> set s. c \<in> set cl")
  case True
  obtain p c q where s: "s = p @ c # q" and c: "c \<in> set cl" and p: "\<forall>x \<in> set p. x \<notin> set cl"
    using split_list_first_prop [OF True] by blast
  show thesis
    by (rule that [of "Suc (length p)"]) (simp_all add: s find_char_hit [OF p c])
next
  case False
  then have "\<forall>c \<in> set s. c \<notin> set cl" by blast
  from find_char_miss [OF this assms] show thesis
    by (intro that [of "length s"]) simp_all
qed

definition request_wf :: "crequest \<Rightarrow> bool" where
  "request_wf req \<longleftrightarrow>
     zwf (Uri req) \<and> zwf (ReqContent req) \<and> zwf (Params req) \<and>
     (\<forall>h \<in> set (Headers req). zwf (fst h) \<and> zwf (snd h))"

lemma length_bytes_between: "length (bytes_between s b e) = min (length s - b) (e - b)"
  by (simp add: bytes_between_def)

lemma header_line_wf:
  assumes wf: "request_wf req" and be: "b \<le> e" "e \<le> length blk" "length head \<le> length blk"
  shows "request_wf (header_line blk head b e req)"
proof -
  define name where "name = find_char (bytes_between head b e) [CHR '':'', CHR '' '', LF]"
  obtain n where n: "mend name = Some n" "n \<le> min (length head - b) (e - b)" "result name \<noteq> 0 \<Longrightarrow> 0 < n"
    unfolding name_def
    by (rule find_char_bounds [of "[CHR '':'', CHR '' '', LF]" "bytes_between head b e"])
      (auto simp: length_bytes_between)
  define val where "val = find_char (bytes_between head (b + n) e) [CR, LF]"
  obtain v where v: "mend val = Some v" "v \<le> min (length head - (b + n)) (e - (b + n))" "result val \<noteq> 0 \<Longrightarrow> 0 < v"
    unfolding val_def
    by (rule find_char_bounds [of "[CR, LF]" "bytes_between head (b + n) e"])
      (auto simp: length_bytes_between)
  have "zwf (zslice blk b (b + n - 1)) \<and> zwf (zslice blk (b + n) (b + n + v - 1))"
    if "result name \<noteq> 0" "result val \<noteq> 0"
    using n v that be by auto
  then show ?thesis
    using wf n(1) v(1)
    by (auto simp: header_line_def name_def [symmetric] val_def [symmetric] Let_def request_wf_def)
qed

lemma request_line_wf:
  assumes wf: "request_wf req" and be: "m \<le> length head" "length head \<le> length blk"
    and r: "request_line blk head m e req = Some req'"
  shows "request_wf req'"
proof -
  define path where "path = find_char (bytes_between head m e) [CHR '' '', TAB, LF, CR]"
  obtain n where n: "mend path = Some n" "n \<le> min (length head - m) (e - m)" "result path \<noteq> 0 \<Longrightarrow> 0 < n"
    unfolding path_def
    by (rule find_char_bounds [of "[CHR '' '', TAB, LF, CR]" "bytes_between head m e"])
      (auto simp: length_bytes_between)
  from r have "result path \<noteq> 0" "req' = req\<lparr>Uri := zslice blk m (m + n - 1)\<rparr>"
    using n(1) by (auto simp: request_line_def path_def [symmetric] Let_def split: if_splits)
  with n be wf show ?thesis by (auto simp: request_wf_def)
qed

lemma http_lines_wf:
  assumes "request_wf req" and "line_begin \<le> length head" and "m \<le> length head" and "length head \<le> length blk"
    and "dataBuffer data = Some blk" and "dataLength data \<le> length blk"
  shows "request_wf (snd (http_lines data blk head m line_begin line_no req))"
  using assms
proof (induction data blk head m line_begin line_no req rule: http_lines.induct)
  case (1 data blk head m b n req)
  define line where "line = find_values (Some (drop b head)) HttpLineEndians"
  define e where "e = b + the (mend line)"
  have unf: "http_lines data blk head m b n req =
     (if result line = 0 then (431, req)
      else if 2 < result line then
        if n \<noteq> 0 then http_lines data blk head m e (Suc n) (header_line blk head b e req)
        else (case request_line blk head m e req of
                Some req' \<Rightarrow> http_lines data blk head m e (Suc n) req' | None \<Rightarrow> (400, req))
      else (0, req\<lparr>ReqContent := Content data e\<rparr>))"
    unfolding line_def e_def using http_lines.simps [of data blk head m b n req] by (simp only: Let_def)
  have e: "b \<le> e" "result line \<noteq> 0 \<Longrightarrow> e \<le> length head"
    using find_values_progress [of "drop b head"] "1.prems"(2) by (auto simp: e_def line_def)
  note IH = "1.IH" [OF line_def e_def]
  consider "result line = 0" | "result line \<noteq> 0" "\<not> 2 < result line"
    | "result line \<noteq> 0" "2 < result line" "n \<noteq> 0" | "result line \<noteq> 0" "2 < result line" "n = 0"
    by blast
  then show ?case
  proof cases
    case 1
    with "1.prems" show ?thesis by (simp add: unf)
  next
    case 2
    with "1.prems" zwf_Content [OF "1.prems"(5,6), of e] show ?thesis by (simp add: unf request_wf_def)
  next
    case 3
    with e "1.prems" header_line_wf [OF "1.prems"(1), of b e blk head] IH(1)
    show ?thesis by (simp add: unf)
  next
    case 4
    with e "1.prems" request_line_wf [OF "1.prems"(1,3,4), of e] IH(2)
    show ?thesis unfolding unf by (simp split: option.split)
  qed
qed

lemma zbytes_Head: "zwf (Head b) \<Longrightarrow> dataBuffer b = Some blk \<Longrightarrow> zbytes (Head b) = take (dataPartLength b) blk"
  by (simp add: Head_def)

text \<open>
  Whatever bytes were received, a request parsed from a head range inside the array consists of
  views inside the array.
\<close>

lemma http_parse_request_wf:
  assumes "request_wf req" and "dataBuffer b = Some blk" and "dataPartLength b \<le> length blk" and "dataLength b \<le> length blk"
  shows "\<exists>code req'. http_parse_request b req = Inr (code, req') \<and> request_wf req'"
proof -
  define head where "head = take (dataPartLength b) blk"
  define meth where "meth = match_values (Some head) RequestMethods"
  have wfh: "zwf (Head b)" using assms by (simp add: Head_def)
  have blkh: "zblock (Head b) = Some blk" using assms(2) by (simp add: Head_def zslice_def)
  have p: "http_parse_request b req =
      (if buffer_empty b then Inr (400, req)
       else if result meth \<noteq> 0 then
         Inr (http_lines b blk head (the (mend meth)) 0 0 (req\<lparr>Method := method_of (result meth)\<rparr>))
       else Inr (405, req))"
    using wfh blkh zbytes_Head [OF wfh assms(2)]
    by (simp add: http_parse_request_def Let_def head_def meth_def)
  show ?thesis
  proof (cases "\<not> buffer_empty b \<and> result meth \<noteq> 0")
    case True
    then have "match_values (Some head) RequestMethods \<noteq> no_match" by (auto simp: meth_def)
    then have "\<exists>n \<in> set RequestMethods. icase_prefix n head"
      using match_values_none [of RequestMethods head] by blast
    then obtain i where i: "i < length RequestMethods" "icase_prefix (RequestMethods ! i) head"
      by (auto simp: in_set_conv_nth)
    then have "the (mend meth) \<le> length head"
      using match_values_some [OF prefix_free_RequestMethods i] icase_prefix_length by (simp add: meth_def)
    then have "request_wf (snd (http_lines b blk head (the (mend meth)) 0 0 (req\<lparr>Method := method_of (result meth)\<rparr>)))"
      by (intro http_lines_wf) (use assms in \<open>auto simp: request_wf_def head_def\<close>)
    with True p show ?thesis by (metis surjective_pairing)
  next
    case False
    with p assms(1) show ?thesis by auto
  qed
qed

end
