(* ===== verification/Fiber_Except.thy ===== *)
theory Fiber_Except
  imports Fiber_Prelude
begin

text \<open>
  ci/coreexcept.h: the texts of \<open>RuntimeException\<close> and \<open>SystemException\<close>. The formatted message,
  what \<open>vsnprintf\<close> would print in full, is an argument. Both constructors measure it, allocate one
  byte more and print it again into a buffer of the measured size, without room for its last
  character: \<open>vsnprintf(p, n, ...)\<close> stores at most \<open>n - 1\<close> characters and the terminator.
\<close>

definition vsnprintf_to :: "nat \<Rightarrow> string \<Rightarrow> string" where
  "vsnprintf_to n full = take (n - 1) full"

definition RuntimeException_what :: "string \<Rightarrow> nat \<Rightarrow> string \<Rightarrow> string" where
  "RuntimeException_what SrcFile SrcLine formatted =
     (let n = length formatted;
          buffer = vsnprintf_to n formatted @ replicate (n + 1 - (n - 1)) NUL
      in c_str buffer @ '' | '' @ after_last_slash SrcFile @ '':'' @ to_string SrcLine)"

definition SystemException_what :: "int \<Rightarrow> string \<Rightarrow> string \<Rightarrow> string \<Rightarrow> nat \<Rightarrow> string" where
  "SystemException_what ErrCode err_text Scope SrcFile SrcLine =
     (let full = ''[EXCEPTION] '' @ Scope @ '': '' @ err_text @ '' ('' @
                   (if ErrCode < 0 then CHR ''-'' # to_string (nat (- ErrCode)) else to_string (nat ErrCode)) @
                   '') | '' @ after_last_slash SrcFile @ '':'' @ to_string SrcLine;
          n = length full
      in c_str (vsnprintf_to n full @ replicate (n + 1 - (n - 1)) NUL))"

lemma c_str_padded: "NUL \<notin> set s \<Longrightarrow> c_str (s @ NUL # t) = s"
  unfolding c_str_def by (subst takeWhile_append2) auto

text \<open>The message of a \<open>RuntimeException\<close> is the formatted one without its last character.\<close>

lemma RuntimeException_what_eq:
  assumes "NUL \<notin> set m" and "m \<noteq> []"
  shows "RuntimeException_what f l m = butlast m @ '' | '' @ after_last_slash f @ '':'' @ to_string l"
proof -
  have "replicate (length m + 1 - (length m - 1)) NUL = [NUL, NUL]"
    using assms(2) by (cases m) (simp_all add: numeral_2_eq_2)
  moreover have "NUL \<notin> set (butlast m)" using assms(1) by (auto dest: in_set_butlastD)
  moreover have "take (length m - Suc 0) m = butlast m" by (simp add: butlast_conv_take)
  ultimately show ?thesis
    by (simp add: RuntimeException_what_def vsnprintf_to_def Let_def c_str_padded)
qed

definition throw_runtime :: "string \<Rightarrow> nat \<Rightarrow> string \<Rightarrow> exn" where
  "throw_runtime SrcFile SrcLine formatted = RuntimeException (RuntimeException_what SrcFile SrcLine formatted)"

lemma throw_runtime_not_std [simp]: "\<not> is_std_exception (throw_runtime f l m)"
  by (simp add: throw_runtime_def)

text \<open>
  \<open>format\<close> of ci/utils/transform.h measures in the same way but gives the buffer's whole size: nothing is lost.
\<close>

definition format_string :: "string \<Rightarrow> string" where
  "format_string formatted = (let size = length formatted + 1 in take (size - 1) (vsnprintf_to size formatted @ [NUL]))"

lemma format_string_eq: "format_string formatted = formatted"
  by (simp add: format_string_def vsnprintf_to_def Let_def)

end
