(* ===== verification/Fiber_Address.thy ===== *)
theory Fiber_Address
  imports Fiber_Prelude
begin

text \<open>
  \<open>Server::CAddress\<close> of kernel/net/server.h and kernel/net/server.cpp: the peer address kept with a
  connection, built from the \<open>sockaddr_storage\<close> that \<open>accept\<close> filled, and its printed form.

  A 32-bit value is a \<^typ>\<open>nat\<close> below \<open>2 ^ 32\<close>; its bytes in memory are those of the little-endian
  machines the project targets (kernel/kernel.vcxproj builds for x86 and x64).
\<close>

record sockaddr_storage =
  ss_family :: nat
  sin_port :: nat
  s_addr :: nat
  u6_addr32 :: "nat list"

definition AF_INET :: nat where
  "AF_INET = 2"

definition AF_INET6 :: nat where
  "AF_INET6 = 10"

datatype ip_version = Unsupported | Ip4 | Ip6

record caddress =
  Port :: nat
  Address :: "nat list"
  Version :: ip_version

definition le_bytes :: "nat \<Rightarrow> nat list" where
  "le_bytes n = [n mod 256, n div 256 mod 256, n div 256 div 256 mod 256, n div 256 div 256 div 256 mod 256]"

fun of_le_bytes :: "nat list \<Rightarrow> nat" where
  "of_le_bytes [] = 0"
| "of_le_bytes (b # bs) = b + 256 * of_le_bytes bs"

definition htonl :: "nat \<Rightarrow> nat" where
  "htonl n = of_le_bytes (rev (le_bytes n))"

definition htons :: "nat \<Rightarrow> nat" where
  "htons n = n div 256 mod 256 + 256 * (n mod 256)"

text \<open>
  \<open>CAddress()\<close> and \<open>CAddress(const sockaddr_storage&)\<close>; the latter leaves the members it does not
  assign uninitialised, which the argument \<open>old\<close> stands for. An IPv6 peer gets version \<open>Ip4\<close>.
\<close>

definition CAddress_default :: caddress where
  "CAddress_default = \<lparr>Port = 0, Address = [0, 0, 0, 0], Version = Unsupported\<rparr>"

definition CAddress :: "caddress \<Rightarrow> sockaddr_storage \<Rightarrow> caddress" where
  "CAddress old sa =
     (if ss_family sa = AF_INET then
        old\<lparr>Version := Ip4, Address := (Address old)[0 := htonl (s_addr sa)], Port := htons (sin_port sa)\<rparr>
      else if ss_family sa = AF_INET6 then
        old\<lparr>Version := Ip4, Address := map htonl (u6_addr32 sa), Port := htons (sin_port sa)\<rparr>
      else old\<lparr>Version := Unsupported\<rparr>)"

definition hex_digit :: "nat \<Rightarrow> byte" where
  "hex_digit d = (if d < 10 then char_of (48 + d) else char_of (55 + d))"

definition hex2 :: "nat \<Rightarrow> string" where
  "hex2 b = [hex_digit (b div 16), hex_digit (b mod 16)]"

fun hex_groups :: "nat list \<Rightarrow> string" where
  "hex_groups (a # b # c # bs) = hex2 a @ hex2 b @ '':'' @ hex_groups (c # bs)"
| "hex_groups (a # b # []) = hex2 a @ hex2 b"
| "hex_groups _ = []"

definition CAddress_toString :: "caddress \<Rightarrow> string" where
  "CAddress_toString a =
     (case Version a of
        Ip4 \<Rightarrow>
          (let addr = le_bytes (Address a ! 0)
           in to_string (addr ! 3) @ ''.'' @ to_string (addr ! 2) @ ''.'' @ to_string (addr ! 1) @ ''.'' @ to_string (addr ! 0))
      | Ip6 \<Rightarrow> hex_groups (concat (map le_bytes (Address a)))
      | Unsupported \<Rightarrow> [])"

lemma base256: "x < 256 \<Longrightarrow> (x + 256 * y) mod 256 = x" "x < 256 \<Longrightarrow> (x + 256 * y) div 256 = y" for x y :: nat
  by simp_all

lemma le_bytes_of_le_bytes:
  assumes "a < 256" "b < 256" "c < 256" "d < 256"
  shows "le_bytes (of_le_bytes [a, b, c, d]) = [a, b, c, d]"
  using assms by (simp add: le_bytes_def base256 del: distrib_left_numeral)

lemma htonl_bytes:
  assumes "a < 256" "b < 256" "c < 256" "d < 256"
  shows "htonl (of_le_bytes [a, b, c, d]) = of_le_bytes [d, c, b, a]"
  using assms by (simp only: htonl_def le_bytes_of_le_bytes) simp

text \<open>The four bytes of an IPv4 peer address are printed in network order.\<close>

lemma CAddress_toString_ip4:
  assumes "a < 256" "b < 256" "c < 256" "d < 256" and "Address old \<noteq> []"
    and "ss_family sa = AF_INET" and "s_addr sa = of_le_bytes [a, b, c, d]"
  shows "CAddress_toString (CAddress old sa) =
           to_string a @ ''.'' @ to_string b @ ''.'' @ to_string c @ ''.'' @ to_string d"
proof -
  have "Address (CAddress old sa) ! 0 = of_le_bytes [d, c, b, a]" "Version (CAddress old sa) = Ip4"
    using assms htonl_bytes [OF assms(1-4)] by (simp_all add: CAddress_def del: of_le_bytes.simps)
  then show ?thesis
    using le_bytes_of_le_bytes [OF assms(4,3,2,1)]
    by (simp add: CAddress_toString_def Let_def del: of_le_bytes.simps)
qed

lemma htons_network: "hi < 256 \<Longrightarrow> lo < 256 \<Longrightarrow> htons (hi + 256 * lo) = 256 * hi + lo"
  by (simp add: htons_def)

end
