(* ===== verification/Fiber_HttpImpl.thy ===== *)
theory Fiber_HttpImpl
  imports Fiber_HttpParse Fiber_Except Fiber_Address
begin

text \<open>
  kernel/net/impl/httpcodes.hpp, kernel/net/impl/httpimpl.cpp and the socket wrappers of
  kernel/net/impl/socketimpl.h it uses: an HTTP connection (\<open>HttpImpl\<close>), which receives and parses
  one request (\<open>Process\<close>) and sends one answer (\<open>Reply\<close>).

  What the operating system and the clock do is the environment \<open>env\<close>: the answer of \<open>send\<close> to each
  call (it may depend on everything sent before), the time at each reading, the text of an error
  number. What the program does to its sockets is recorded in a \<open>net\<close>: every \<open>send\<close> with its result
  and every close, in order.
\<close>

section \<open>Reason phrases\<close>

definition HttpMessagesList :: "(nat \<times> string) list" where
  "HttpMessagesList = [
    (0, ''''),
    (100, ''Continue''),
    (101, ''Switching Protocols''),
    (102, ''Processing''),
    (200, ''OK''),
    (201, ''Created''),
    (202, ''Accepted''),
    (203, ''Non-Authoritative Information''),
    (204, ''No Content''),
    (205, ''Reset Content''),
    (206, ''Partial Content''),
    (207, ''Multi-Status''),
    (208, ''Already Reported''),
    (226, ''IM Used''),
    (300, ''Multiple Choices''),
    (301, ''Moved Permanently''),
    (302, ''Moved Temporarily''),
    (302, ''Found''),
    (303, ''See Other''),
    (304, ''Not Modified''),
    (305, ''Use Proxy''),
    (306, ''Reserved''),
    (307, ''Temporary Redirect''),
    (308, ''Permanent Redirect''),
    (400, ''Bad Request''),
    (401, ''Unauthorized''),
    (402, ''Payment Required''),
    (403, ''Forbidden''),
    (404, ''Not Found''),
    (405, ''Method Not Allowed''),
    (406, ''Not Acceptable''),
    (407, ''Proxy Authentication Required''),
    (408, ''Request Timeout''),
    (409, ''Conflict''),
    (410, ''Gone''),
    (411, ''Length Required''),
    (412, ''Precondition Failed''),
    (413, ''Payload Too Large''),
    (414, ''URI Too Long''),
    (415, ''Unsupported Media Type''),
    (416, ''Range Not Satisfiable''),
    (417, ''Expectation Failed''),
    (418, ''I'' @ [CHR 0x92] @ ''m a teapot''),
    (419, ''Authentication Timeout''),
    (421, ''Misdirected Request''),
    (422, ''Unprocessable Entity''),
    (423, ''Locked''),
    (424, ''Failed Dependency''),
    (426, ''Upgrade Required''),
    (428, ''Precondition Required''),
    (429, ''Too Many Requests''),
    (431, ''Request Header Fields Too Large''),
    (449, ''Retry With''),
    (451, ''Unavailable For Legal Reasons''),
    (499, ''Client Closed Request''),
    (500, ''Internal Server Error''),
    (501, ''Not Implemented''),
    (502, ''Bad Gateway''),
    (503, ''Service Unavailable''),
    (504, ''Gateway Timeout''),
    (505, ''HTTP Version Not Supported''),
    (506, ''Variant Also Negotiates''),
    (507, ''Insufficient Storage''),
    (508, ''Loop Detected''),
    (509, ''Bandwidth Limit Exceeded''),
    (510, ''Not Extended''),
    (511, ''Network Authentication Required''),
    (520, ''Unknown Error''),
    (521, ''Web Server Is Down''),
    (522, ''Connection Timed Out''),
    (523, ''Origin Is Unreachable''),
    (524, ''A Timeout Occurred''),
    (525, ''SSL Handshake Failed''),
    (526, ''Invalid SSL Certificate'')]"

definition HttpMessage :: "nat \<Rightarrow> string option \<Rightarrow> string" where
  "HttpMessage Code Message =
     (case Message of
        Some m \<Rightarrow> m
      | None \<Rightarrow> (case map_of HttpMessagesList Code of Some m \<Rightarrow> m | None \<Rightarrow> the (map_of HttpMessagesList 0)))"

section \<open>Environment and connection\<close>

datatype net_event = Sent int string int | Closed int

record net =
  events :: "net_event list"
  ticks :: nat

record env =
  e_send :: "net_event list \<Rightarrow> int \<Rightarrow> string \<Rightarrow> int"
  e_now :: "nat \<Rightarrow> int"
  e_strerror :: "int \<Rightarrow> string"
  e_stale :: "string \<Rightarrow> string \<Rightarrow> string option"
  e_rank :: "string \<Rightarrow> nat"

record telemetry =
  tmCreatedAt :: int
  tmReadingAt :: int
  tmFinishedAt :: int
  tmEmplacedAt :: int
  tmExtractedAt :: int

definition CTelemetry :: telemetry where
  "CTelemetry = \<lparr>tmCreatedAt = 0, tmReadingAt = 0, tmFinishedAt = 0, tmEmplacedAt = 0, tmExtractedAt = 0\<rparr>"

record http_impl =
  Handle :: int
  MsgId :: uint64
  MaxRequestLength :: nat
  MaxHeaderLength :: nat
  PeerAddress :: caddress
  Raw :: read_buffer
  Request :: crequest
  Telemetry :: telemetry

definition timestamp :: "env \<Rightarrow> net \<Rightarrow> int \<times> net" where
  "timestamp e n = (e_now e (ticks n), n\<lparr>ticks := Suc (ticks n)\<rparr>)"

definition HttpImpl :: "env \<Rightarrow> net \<Rightarrow> caddress \<Rightarrow> nat \<Rightarrow> uint64 \<Rightarrow> int \<Rightarrow> sockaddr_storage \<Rightarrow> nat \<Rightarrow> nat \<Rightarrow> http_impl \<times> net" where
  "HttpImpl e n oldaddr unset mid hSocket sa max_request_length max_header_length =
     (let (now, n) = timestamp e n
      in (\<lparr>Handle = hSocket, MsgId = mid, MaxRequestLength = max_request_length, MaxHeaderLength = max_header_length,
           PeerAddress = CAddress oldaddr sa, Raw = ReadBufferImpl unset, Request = empty_request,
           Telemetry = CTelemetry\<lparr>tmCreatedAt := now\<rparr>\<rparr>, n))"

section \<open>Sockets\<close>

definition WriteData :: "env \<Rightarrow> net \<Rightarrow> int \<Rightarrow> string \<Rightarrow> int \<times> net" where
  "WriteData e n socket data =
     (if data \<noteq> [] then
        let r = e_send e (events n) socket data in (r, n\<lparr>events := events n @ [Sent socket data r]\<rparr>)
      else (0, n))"

definition http_close_connection :: "http_impl \<Rightarrow> net \<Rightarrow> http_impl \<times> net" where
  "http_close_connection h n =
     (if Handle h \<noteq> 0 then (h\<lparr>Handle := 0\<rparr>, n\<lparr>events := events n @ [Closed (Handle h)]\<rparr>) else (h, n))"

section \<open>\<open>Reply\<close>\<close>

text \<open>
  A header value is a \<open>const char*\<close>. Some callers pass the \<open>c_str()\<close> of a temporary string that is
  gone when \<open>Reply\<close> reads it: a \<open>Dangling\<close> value, with the text it had, for which \<open>e_stale\<close> says what the
  read finds there (\<open>None\<close> when it is not a zero terminated text). The headers are an \<open>unordered_map\<close>; \<open>e_rank\<close> fixes the
  order of its iteration, which the standard leaves open. A content pointer is the block it points into and
  its offset; \<open>strlen\<close> is undefined when no zero byte follows in the block.
\<close>

datatype hval = Live string | Dangling string

record reply_args =
  rCode :: nat
  rMessage :: "string option"
  rContent :: "(string \<times> nat) option"
  rContentLength :: nat
  rHeaders :: "(string \<times> hval) list"
  rClose :: bool

definition strlen :: "string \<times> nat \<Rightarrow> exn + nat" where
  "strlen p =
     (let s = drop (snd p) (fst p) in if NUL \<in> set s then Inr (length (c_str s)) else Inl UndefinedBehaviour)"

text \<open>\<open>toString(const size_t&)\<close> prints with a signed format.\<close>

definition toString :: "nat \<Rightarrow> string" where
  "toString n = (if n < 2 ^ 63 then to_string n else CHR ''-'' # to_string (2 ^ 64 - n))"

definition to_string_int :: "int \<Rightarrow> string" where
  "to_string_int i = (if i < 0 then CHR ''-'' # to_string (nat (- i)) else to_string (nat i))"

fun header_lines :: "(string \<Rightarrow> string \<Rightarrow> string option) \<Rightarrow> (string \<times> hval) list \<Rightarrow> exn + string" where
  "header_lines stale [] = Inr []"
| "header_lines stale ((k, v) # hs) =
     (case (case v of Live t \<Rightarrow> Some t | Dangling t \<Rightarrow> stale k t) of
        None \<Rightarrow> Inl UndefinedBehaviour
      | Some t \<Rightarrow>
          (case header_lines stale hs of Inl x \<Rightarrow> Inl x | Inr s \<Rightarrow> Inr (k @ '': '' @ t @ CRLF @ s)))"

definition content_length :: "reply_args \<Rightarrow> exn + nat" where
  "content_length a =
     (if rContentLength a \<noteq> 0 then Inr (rContentLength a)
      else case rContent a of Some p \<Rightarrow> strlen p | None \<Rightarrow> Inr 0)"

definition telemetry_text :: "telemetry \<Rightarrow> int \<Rightarrow> string" where
  "telemetry_text t now =
     ''X-Fiber-Msg-Telemetry: created-at='' @ to_string_int (tmCreatedAt t) @
     '';reading-at='' @ to_string_int (tmReadingAt t) @
     (if tmEmplacedAt t \<noteq> 0 then '';emplaced-at='' @ to_string_int (tmEmplacedAt t) else []) @
     (if tmExtractedAt t \<noteq> 0 then '';extracted-at='' @ to_string_int (tmExtractedAt t) else []) @
     '';finished-at='' @ to_string_int now @ CRLF"

definition reply_head :: "env \<Rightarrow> http_impl \<Rightarrow> int \<Rightarrow> reply_args \<Rightarrow> exn + string" where
  "reply_head e h now a =
     (case header_lines (e_stale e) (sort_key (\<lambda>kv. e_rank e (fst kv)) (rHeaders a)) of
        Inl x \<Rightarrow> Inl x
      | Inr hs \<Rightarrow>
          (case content_length a of
             Inl x \<Rightarrow> Inl x
           | Inr len \<Rightarrow>
               Inr (''HTTP/1.1 '' @ toString (rCode a) @ '' '' @ HttpMessage (rCode a) (rMessage a) @
                    CRLF @ ''Server: NavekFiber'' @ CRLF @ ''X-Powered-By: FiberBus/19.1.0.0-dev'' @ CRLF @
                    hs @ ''Content-Length: '' @ toString len @ CRLF @
                    (if rClose a then ''Connection: close'' @ CRLF else []) @
                    ''X-MSG-UID: '' @ toString (unat (MsgId h)) @ CRLF @
                    telemetry_text (Telemetry h) now @ CRLF)))"

definition content_bytes :: "reply_args \<Rightarrow> exn + string" where
  "content_bytes a =
     (case rContent a of
        None \<Rightarrow> if rContentLength a = 0 then Inr [] else Inl UndefinedBehaviour
      | Some (blk, off) \<Rightarrow>
          if off + rContentLength a \<le> length blk then Inr (take (rContentLength a) (drop off blk))
          else Inl UndefinedBehaviour)"

definition send_failed :: "http_impl \<Rightarrow> exn" where
  "send_failed h =
     throw_runtime ''httpimpl.cpp'' 145
       (''Invalid send data '' @ CAddress_toString (PeerAddress h) @ '':'' @ to_string (Port (PeerAddress h)) @
        ''. MsgId: '' @ to_string (unat (MsgId h)))"

definition Reply :: "env \<Rightarrow> http_impl \<Rightarrow> net \<Rightarrow> reply_args \<Rightarrow> (exn + unit) \<times> http_impl \<times> net" where
  "Reply e h n a =
     (let (now, n) = timestamp e n in
      case reply_head e h now a of
        Inl x \<Rightarrow> (Inl x, h, n)
      | Inr Answer \<Rightarrow>
          let h = h\<lparr>Telemetry := (Telemetry h)\<lparr>tmFinishedAt := now\<rparr>\<rparr>;
              (r1, n) = WriteData e n (Handle h) Answer
          in if r1 \<noteq> int (length Answer) then
               let (h, n) = http_close_connection h n in (Inl (send_failed h), h, n)
             else
               case content_bytes a of
                 Inl x \<Rightarrow> (Inl x, h, n)
               | Inr body \<Rightarrow>
                   let (r2, n) = WriteData e n (Handle h) body
                   in if r2 \<noteq> int (rContentLength a) then
                        let (h, n) = http_close_connection h n in (Inl (send_failed h), h, n)
                      else if rClose a then
                        let (h, n) = http_close_connection h n in (Inr (), h, n)
                      else (Inr (), h, n))"

definition plain_reply :: "nat \<Rightarrow> reply_args" where
  "plain_reply cd =
     \<lparr>rCode = cd, rMessage = None, rContent = None, rContentLength = 0, rHeaders = [], rClose = True\<rparr>"

section \<open>\<open>Process\<close>\<close>

definition receive_failed :: "env \<Rightarrow> http_impl \<Rightarrow> int \<Rightarrow> exn" where
  "receive_failed e h err =
     throw_runtime ''httpimpl.cpp'' 94
       (''Invalid receive data '' @ CAddress_toString (PeerAddress h) @ '':'' @ to_string (Port (PeerAddress h)) @
        ''. Socket error '' @ e_strerror e err @ ''('' @ to_string (u64 err) @ ''). MsgId: '' @ to_string (unat (MsgId h)))"

definition request_invalid :: "http_impl \<Rightarrow> nat \<Rightarrow> exn" where
  "request_invalid h cd =
     throw_runtime ''httpimpl.cpp'' 99
       (''Invalid HTTP request '' @ CAddress_toString (PeerAddress h) @ '':'' @ to_string (Port (PeerAddress h)) @
        ''. HTTP error: '' @ to_string cd @ ''.  MsgId: '' @ to_string (unat (MsgId h)))"

definition reply_then_throw :: "env \<Rightarrow> http_impl \<Rightarrow> net \<Rightarrow> nat \<Rightarrow> (http_impl \<Rightarrow> exn) \<Rightarrow> (exn + unit) \<times> http_impl \<times> net" where
  "reply_then_throw e h n cd x =
     (case Reply e h n (plain_reply cd) of
        (Inl y, h, n) \<Rightarrow> (Inl y, h, n)
      | (Inr _, h, n) \<Rightarrow> (Inl (x h), h, n))"

definition Process :: "env \<Rightarrow> (nat \<Rightarrow> recv_step) \<Rightarrow> (nat \<Rightarrow> byte) \<Rightarrow> http_impl \<Rightarrow> net \<Rightarrow> (exn + unit) \<times> http_impl \<times> net" where
  "Process e rcv fresh h n =
     (let (err, raw) = Read rcv fresh (Raw h) (MaxRequestLength h) (MaxHeaderLength h);
          (now, n) = timestamp e n;
          h = h\<lparr>Raw := raw, Telemetry := (Telemetry h)\<lparr>tmReadingAt := now\<rparr>\<rparr>
      in if err \<noteq> 0 then reply_then_throw e h n 408 (\<lambda>h. receive_failed e h err)
         else
           case http_parse_request (Raw h) (Request h) of
             Inl x \<Rightarrow> (Inl x, h, n)
           | Inr (cd, req) \<Rightarrow>
               let h = h\<lparr>Request := req\<rparr>
               in if cd \<noteq> 0 then reply_then_throw e h n cd (\<lambda>h. request_invalid h cd)
                  else (Inr (), h, n))"

section \<open>What a reply sends\<close>

definition sends_all :: "env \<Rightarrow> bool" where
  "sends_all e \<longleftrightarrow> (\<forall>evs fd bs. e_send e evs fd bs = int (length bs))"

definition closing :: "int \<Rightarrow> net_event list" where
  "closing fd = (if fd \<noteq> 0 then [Closed fd] else [])"

lemma http_close_connection_eq:
  "http_close_connection h n = (h\<lparr>Handle := 0\<rparr>, n\<lparr>events := events n @ closing (Handle h)\<rparr>)"
  by (simp add: http_close_connection_def closing_def)

lemma events_timestamp [simp]: "events (snd (timestamp e n)) = events n"
  by (simp add: timestamp_def)

lemma reply_head_nonempty: "reply_head e h now a = Inr answer \<Longrightarrow> answer \<noteq> []"
  by (auto simp: reply_head_def split: sum.splits)

lemma header_lines_error: "header_lines stale hs = Inl x \<Longrightarrow> x = UndefinedBehaviour"
  by (induction stale hs rule: header_lines.induct) (auto split: sum.splits option.splits)

lemma reply_head_error: "reply_head e h now a = Inl x \<Longrightarrow> x = UndefinedBehaviour"
  by (auto simp: reply_head_def content_length_def strlen_def Let_def dest: header_lines_error
      split: sum.splits option.splits if_splits)

lemma content_bytes_error: "content_bytes a = Inl x \<Longrightarrow> x = UndefinedBehaviour"
  by (auto simp: content_bytes_def split: option.splits if_splits)

lemma content_bytes_length: "content_bytes a = Inr body \<Longrightarrow> length body = rContentLength a"
  by (auto simp: content_bytes_def split: option.splits if_splits)

lemma Reply_sent:
  assumes "sends_all e" and "reply_head e h (e_now e (ticks n)) a = Inr answer" and "content_bytes a = Inr body"
  shows "Reply e h n a =
    (Inr (),
     h\<lparr>Telemetry := (Telemetry h)\<lparr>tmFinishedAt := e_now e (ticks n)\<rparr>, Handle := if rClose a then 0 else Handle h\<rparr>,
     \<lparr>events = events n @ [Sent (Handle h) answer (int (length answer))] @
        (if body \<noteq> [] then [Sent (Handle h) body (int (length body))] else []) @
        (if rClose a then closing (Handle h) else []),
      ticks = Suc (ticks n)\<rparr>)"
  using assms content_bytes_length [OF assms(3)] reply_head_nonempty [OF assms(2)]
  by (auto simp: Reply_def timestamp_def WriteData_def http_close_connection_eq sends_all_def Let_def)

text \<open>Every way \<open>Reply\<close> can end: a failed send has closed the connection.\<close>

lemma Reply_outcome:
  assumes "Reply e h n a = (r, h', n')"
  shows "MsgId h' = MsgId h \<and> Request h' = Request h \<and> Raw h' = Raw h \<and>
    (case r of
       Inl x \<Rightarrow> x = UndefinedBehaviour \<or> x = send_failed h' \<and> Handle h' = 0
     | Inr _ \<Rightarrow> Handle h' = (if rClose a then 0 else Handle h))"
  using assms
  by (auto simp: Reply_def timestamp_def WriteData_def http_close_connection_eq Let_def
      dest: reply_head_error content_bytes_error split: sum.splits if_splits)


text \<open>
  A reply has a head unless one of its header values dangles or its content has no terminator; the
  replies without headers and content always have one.
\<close>

lemma header_lines_total:
  "\<forall>(k, v) \<in> set hs. \<forall>t. v = Dangling t \<longrightarrow> stale k t \<noteq> None \<Longrightarrow> \<exists>s. header_lines stale hs = Inr s"
  by (induction stale hs rule: header_lines.induct) (auto split: hval.splits option.splits)

lemma plain_reply_simps [simp]:
  "content_bytes (plain_reply cd) = Inr []" "rClose (plain_reply cd)" "rCode (plain_reply cd) = cd"
  by (simp_all add: plain_reply_def content_bytes_def)

lemma plain_reply_head: "\<exists>answer. reply_head e h now (plain_reply cd) = Inr answer"
  by (simp add: reply_head_def plain_reply_def content_length_def)

lemma Reply_plain_outcome:
  assumes "Reply e h n (plain_reply cd) = (r, h', n')"
  shows "Handle h' = 0 \<and> MsgId h' = MsgId h \<and> (r = Inr () \<or> r = Inl (send_failed h'))"
proof -
  obtain answer where "reply_head e h (e_now e (ticks n)) (plain_reply cd) = Inr answer"
    using plain_reply_head by blast
  then show ?thesis using assms
    by (auto simp: Reply_def timestamp_def WriteData_def http_close_connection_eq plain_reply_def [of cd]
        content_bytes_def Let_def split: if_splits)
qed

text \<open>
  A rejected request leaves a closed connection and a \<open>RuntimeException\<close>, the only exception
  \<open>Process\<close> throws; an accepted one has sent nothing and left the connection open.
\<close>

lemma Process_outcome:
  assumes "Process e rcv fresh h n = (r, h', n')" and "Raw h = ReadBufferImpl u" and "request_wf (Request h)"
    and "MaxHeaderLength h \<le> MaxRequestLength h"
  shows "MsgId h' = MsgId h \<and>
    (case r of
       Inl x \<Rightarrow> Handle h' = 0 \<and> (\<exists>m. x = RuntimeException m)
     | Inr _ \<Rightarrow> Handle h' = Handle h \<and> events n' = events n \<and> request_wf (Request h'))"
proof -
  obtain err raw where r: "Read rcv fresh (Raw h) (MaxRequestLength h) (MaxHeaderLength h) = (err, raw)"
    by (metis surj_pair)
  obtain blk where b: "dataBuffer raw = Some blk" "length blk = MaxRequestLength h"
    "dataLength raw \<le> MaxRequestLength h" "dataPartLength raw = MaxHeaderLength h"
    using Read_bounds [OF r [unfolded assms(2)]] by blast
  obtain cd req where p: "http_parse_request raw (Request h) = Inr (cd, req)" "request_wf req"
    using http_parse_request_wf [OF assms(3) b(1)] b assms(4) by auto
  show ?thesis
    using assms(1) p
    by (auto simp: Process_def r timestamp_def reply_then_throw_def receive_failed_def request_invalid_def
        send_failed_def throw_runtime_def Let_def split: if_splits prod.splits sum.splits
        dest!: Reply_plain_outcome)
qed

section \<open>The life of a connection\<close>

text \<open>\<open>~HttpImpl\<close> closes what is still open.\<close>

definition HttpImpl_destroy :: "http_impl \<Rightarrow> net \<Rightarrow> net" where
  "HttpImpl_destroy h n = snd (http_close_connection h n)"

definition closed_fds :: "net_event list \<Rightarrow> int list" where
  "closed_fds evs = concat (map (\<lambda>ev. case ev of Closed fd \<Rightarrow> [fd] | Sent _ _ _ \<Rightarrow> []) evs)"

text \<open>The descriptors closed so far and the one still to be closed: no operation changes this list.\<close>

definition closing_order :: "http_impl \<Rightarrow> net \<Rightarrow> int list" where
  "closing_order h n = closed_fds (events n) @ (if Handle h \<noteq> 0 then [Handle h] else [])"

lemma closed_fds_simps [simp]:
  "closed_fds [] = []" "closed_fds (a @ b) = closed_fds a @ closed_fds b" "closed_fds (Sent fd s k # evs) = closed_fds evs"
  "closed_fds (Closed fd # evs) = fd # closed_fds evs"
  by (simp_all add: closed_fds_def)

lemma closed_fds_closing [simp]: "closed_fds (closing fd) = (if fd \<noteq> 0 then [fd] else [])"
  by (simp add: closing_def)

lemma closing_order_Reply:
  assumes "Reply e h n a = (r, h', n')"
  shows "closing_order h' n' = closing_order h n"
  using assms
  by (auto simp: Reply_def timestamp_def WriteData_def http_close_connection_eq closing_order_def Let_def
      split: sum.splits if_splits)

lemma closing_order_Process:
  assumes "Process e rcv fresh h n = (r, h', n')"
  shows "closing_order h' n' = closing_order h n"
proof -
  have "closing_order (h\<lparr>Raw := raw, Telemetry := tm\<rparr>) (snd (timestamp e n)) = closing_order h n" for raw tm
    by (simp add: closing_order_def)
  moreover have "closing_order (h\<lparr>Raw := raw, Telemetry := tm, Request := req\<rparr>) (snd (timestamp e n)) = closing_order h n" for raw tm req
    by (simp add: closing_order_def)
  ultimately show ?thesis using assms
    by (auto simp: Process_def reply_then_throw_def Let_def split: prod.splits sum.splits if_splits dest!: closing_order_Reply)
qed

lemma closing_order_destroy: "closed_fds (events (HttpImpl_destroy h n)) = closing_order h n"
  by (simp add: HttpImpl_destroy_def http_close_connection_eq closing_order_def)

text \<open>Answers to one connection, whatever becomes of each.\<close>

fun http_replies :: "env \<Rightarrow> reply_args list \<Rightarrow> http_impl \<Rightarrow> net \<Rightarrow> http_impl \<times> net" where
  "http_replies e [] h n = (h, n)"
| "http_replies e (a # as) h n = (case Reply e h n a of (_, h', n') \<Rightarrow> http_replies e as h' n')"

lemma closing_order_replies: "http_replies e as h n = (h', n') \<Longrightarrow> closing_order h' n' = closing_order h n"
  by (induction as arbitrary: h n) (auto split: prod.splits dest!: closing_order_Reply)

definition http_life :: "env \<Rightarrow> (nat \<Rightarrow> recv_step) \<Rightarrow> (nat \<Rightarrow> byte) \<Rightarrow> reply_args list \<Rightarrow> http_impl \<Rightarrow> net \<Rightarrow> net" where
  "http_life e rcv fresh as h n =
     (case Process e rcv fresh h n of (_, h1, n1) \<Rightarrow> case http_replies e as h1 n1 of (h2, n2) \<Rightarrow> HttpImpl_destroy h2 n2)"

lemma http_life_closes_once:
  "closed_fds (events (http_life e rcv fresh as h n)) = closed_fds (events n) @ (if Handle h \<noteq> 0 then [Handle h] else [])"
proof -
  obtain r h1 n1 where p: "Process e rcv fresh h n = (r, h1, n1)" by (metis surj_pair)
  obtain h2 n2 where q: "http_replies e as h1 n1 = (h2, n2)" by fastforce
  show ?thesis using closing_order_Process [OF p] closing_order_replies [OF q] closing_order_destroy [of h2 n2]
    by (simp add: http_life_def p q closing_order_def)
qed

end
