(* ===== verification/Fiber_Handler.thy ===== *)
theory Fiber_Handler
  imports Fiber_HttpImpl
begin

text \<open>
  \<open>Server::CHandler\<close> (kernel/net/server.h), the connection as the router and the request objects see it, with
  its two implementations: \<open>HttpImpl\<close> (kernel/net/impl/httpimpl.h) and the stub \<open>WebSocketImpl\<close>
  (kernel/net/impl/wsimpl.h).

  A handler is an object \<open>'h\<close> next to the sockets \<open>'n\<close>. A getter returns a reference: reading it is
  \<^const>\<open>UndefinedBehaviour\<close> when what it refers to is gone.
\<close>

record ('h, 'n) chandler =
  ch_Process :: "'h \<Rightarrow> 'n \<Rightarrow> (exn + unit) \<times> 'h \<times> 'n"
  ch_Reply :: "reply_args \<Rightarrow> 'h \<Rightarrow> 'n \<Rightarrow> (exn + unit) \<times> 'h \<times> 'n"
  ch_GetMsgId :: "'h \<Rightarrow> exn + uint64"
  ch_GetAddress :: "'h \<Rightarrow> exn + caddress"
  ch_GetMethod :: "'h \<Rightarrow> exn + request_method"
  ch_GetUri :: "'h \<Rightarrow> exn + zcstring"
  ch_GetParams :: "'h \<Rightarrow> exn + zcstring"
  ch_GetHeaders :: "'h \<Rightarrow> exn + (zcstring \<times> zcstring) list"
  ch_GetContent :: "'h \<Rightarrow> exn + zcstring"
  ch_GetTelemetry :: "'h \<Rightarrow> telemetry"

definition same_message :: "('h, 'n) chandler \<Rightarrow> 'h \<Rightarrow> 'h \<Rightarrow> bool" where
  "same_message H h h' \<longleftrightarrow>
     ch_GetMsgId H h' = ch_GetMsgId H h \<and> ch_GetAddress H h' = ch_GetAddress H h \<and> ch_GetMethod H h' = ch_GetMethod H h \<and>
     ch_GetUri H h' = ch_GetUri H h \<and> ch_GetParams H h' = ch_GetParams H h \<and> ch_GetHeaders H h' = ch_GetHeaders H h \<and>
     ch_GetContent H h' = ch_GetContent H h"

fun reply_all :: "('h, 'n) chandler \<Rightarrow> reply_args list \<Rightarrow> 'h \<Rightarrow> 'n \<Rightarrow> 'h \<times> 'n" where
  "reply_all H [] h n = (h, n)"
| "reply_all H (a # as) h n = (case ch_Reply H a h n of (r, h, n) \<Rightarrow> reply_all H as h n)"

text \<open>
  What a request object relies on: receiving does not change whose connection it is, and answering changes nothing
  of the message, so that a queue may answer a request it still holds.
\<close>

locale connection_handler =
  fixes H :: "('h, 'n) chandler"
  assumes process_peer: "ch_Process H h n = (r, h', n') \<Longrightarrow>
      ch_GetMsgId H h' = ch_GetMsgId H h \<and> ch_GetAddress H h' = ch_GetAddress H h"
    and reply_message: "ch_Reply H a h n = (r, h', n') \<Longrightarrow> same_message H h h'"
begin

lemma reply_all_message: "reply_all H as h n = (h', n') \<Longrightarrow> same_message H h h'"
proof (induction as arbitrary: h n)
  case (Cons a as)
  obtain r h1 n1 where a: "ch_Reply H a h n = (r, h1, n1)" by (metis prod_cases3)
  then have "same_message H h1 h'" using Cons by simp
  with reply_message [OF a] show ?case by (simp add: same_message_def)
qed (simp add: same_message_def)

end

section \<open>HttpImpl\<close>

definition HttpHandler :: "env \<Rightarrow> (nat \<Rightarrow> recv_step) \<Rightarrow> (nat \<Rightarrow> byte) \<Rightarrow> (http_impl, net) chandler" where
  "HttpHandler e rcv fresh =
     \<lparr>ch_Process = Process e rcv fresh, ch_Reply = (\<lambda>a h n. Reply e h n a),
      ch_GetMsgId = (\<lambda>h. Inr (MsgId h)), ch_GetAddress = (\<lambda>h. Inr (PeerAddress h)), ch_GetMethod = (\<lambda>h. Inr (Method (Request h))),
      ch_GetUri = (\<lambda>h. Inr (Uri (Request h))), ch_GetParams = (\<lambda>h. Inr (Params (Request h))),
      ch_GetHeaders = (\<lambda>h. Inr (Headers (Request h))), ch_GetContent = (\<lambda>h. Inr (ReqContent (Request h))),
      ch_GetTelemetry = Telemetry\<rparr>"

lemma Reply_address: "Reply e h n a = (r, h', n') \<Longrightarrow> PeerAddress h' = PeerAddress h"
  by (auto simp: Reply_def timestamp_def WriteData_def http_close_connection_eq Let_def split: sum.splits if_splits)

lemma Process_peer:
  assumes "Process e rcv fresh h n = (r, h', n')"
  shows "MsgId h' = MsgId h \<and> PeerAddress h' = PeerAddress h"
proof -
  have throw: "MsgId g' = MsgId g \<and> PeerAddress g' = PeerAddress g" if "reply_then_throw e g m cd x = (q, g', m')" for g m cd x q g' m'
  proof -
    obtain q1 g1 m1 where p: "Reply e g m (plain_reply cd) = (q1, g1, m1)" by (metis prod_cases3)
    then have "g' = g1" using that by (cases q1) (simp_all add: reply_then_throw_def)
    then show ?thesis using Reply_outcome [OF p] Reply_address [OF p] by simp
  qed
  obtain err raw where "Read rcv fresh (Raw h) (MaxRequestLength h) (MaxHeaderLength h) = (err, raw)" by (metis surj_pair)
  then show ?thesis using assms
    by (auto simp: Process_def timestamp_def Let_def split: sum.splits if_splits dest!: throw)
qed

interpretation http_handler: connection_handler "HttpHandler e rcv fresh" for e rcv fresh
proof
  fix h n r h' n'
  assume "ch_Process (HttpHandler e rcv fresh) h n = (r, h', n')"
  then show "ch_GetMsgId (HttpHandler e rcv fresh) h' = ch_GetMsgId (HttpHandler e rcv fresh) h \<and>
      ch_GetAddress (HttpHandler e rcv fresh) h' = ch_GetAddress (HttpHandler e rcv fresh) h"
    using Process_peer by (auto simp: HttpHandler_def)
next
  fix a h n r h' n'
  assume "ch_Reply (HttpHandler e rcv fresh) a h n = (r, h', n')"
  then have p: "Reply e h n a = (r, h', n')" by (simp add: HttpHandler_def)
  show "same_message (HttpHandler e rcv fresh) h h'"
    using Reply_outcome [OF p] Reply_address [OF p] by (simp add: same_message_def HttpHandler_def)
qed

section \<open>WebSocketImpl\<close>

text \<open>
  \<open>Process\<close> and \<open>Reply\<close> do nothing; the getters return references to temporary objects. The telemetry is the only
  member.
\<close>

definition WebSocketImpl :: telemetry where
  "WebSocketImpl = CTelemetry"

definition WebSocketHandler :: "(telemetry, 'n) chandler" where
  "WebSocketHandler =
     \<lparr>ch_Process = (\<lambda>h n. (Inr (), h, n)), ch_Reply = (\<lambda>a h n. (Inr (), h, n)),
      ch_GetMsgId = (\<lambda>h. Inl UndefinedBehaviour), ch_GetAddress = (\<lambda>h. Inl UndefinedBehaviour),
      ch_GetMethod = (\<lambda>h. Inl UndefinedBehaviour), ch_GetUri = (\<lambda>h. Inl UndefinedBehaviour),
      ch_GetParams = (\<lambda>h. Inl UndefinedBehaviour), ch_GetHeaders = (\<lambda>h. Inl UndefinedBehaviour),
      ch_GetContent = (\<lambda>h. Inl UndefinedBehaviour), ch_GetTelemetry = (\<lambda>h. h)\<rparr>"

interpretation websocket_handler: connection_handler WebSocketHandler
  by unfold_locales (auto simp: WebSocketHandler_def same_message_def)

text \<open>
  Whatever would be answered on such a connection, nothing is sent and it is not closed.
\<close>

lemma websocket_silent: "reply_all WebSocketHandler as h n = (h, n)"
  by (induction as) (simp_all add: WebSocketHandler_def)

end
