(* ===== verification/Fiber_Monad.thy ===== *)
theory Fiber_Monad
  imports Fiber_Prelude
begin

text \<open>
  Sequencing of operations that change a state and may throw: \<open>mret\<close>, \<open>mbind\<close>, \<open>mthrow\<close> and the
  handler \<open>mcatch_std\<close> for \<open>catch (std::exception&)\<close>, with a weakest precondition \<open>mwp\<close> over a
  postcondition for returning and one for throwing. The state survives an exception, as it does in
  the source: what was done before the \<open>throw\<close> stays done.
\<close>

type_synonym ('s, 'a) act = "'s \<Rightarrow> (exn + 'a) \<times> 's"

named_theorems wp_simps \<open>weakest preconditions of the sequencing operations\<close>

definition mret :: "'a \<Rightarrow> ('s, 'a) act" where
  "mret a s = (Inr a, s)"

definition mthrow :: "exn \<Rightarrow> ('s, 'a) act" where
  "mthrow x s = (Inl x, s)"

definition mbind :: "('s, 'a) act \<Rightarrow> ('a \<Rightarrow> ('s, 'b) act) \<Rightarrow> ('s, 'b) act" where
  "mbind m f s = (case m s of (Inl x, s') \<Rightarrow> (Inl x, s') | (Inr a, s') \<Rightarrow> f a s')"

definition mlift :: "exn + 'a \<Rightarrow> ('s, 'a) act" where
  "mlift r s = (r, s)"

definition mcatch_std :: "('s, 'a) act \<Rightarrow> (exn \<Rightarrow> ('s, 'a) act) \<Rightarrow> ('s, 'a) act" where
  "mcatch_std m handler s =
     (case m s of
        (Inl x, s') \<Rightarrow> if is_std_exception x then handler x s' else (Inl x, s')
      | (Inr a, s') \<Rightarrow> (Inr a, s'))"

text \<open>An operation on one half of the state.\<close>

definition on_fst :: "('a, 'c) act \<Rightarrow> ('a \<times> 'b, 'c) act" where
  "on_fst m s = (case m (fst s) of (r, a) \<Rightarrow> (r, (a, snd s)))"

definition on_snd :: "('b, 'c) act \<Rightarrow> ('a \<times> 'b, 'c) act" where
  "on_snd m s = (case m (snd s) of (r, b) \<Rightarrow> (r, (fst s, b)))"

definition mwp :: "('s, 'a) act \<Rightarrow> ('a \<Rightarrow> 's \<Rightarrow> bool) \<Rightarrow> (exn \<Rightarrow> 's \<Rightarrow> bool) \<Rightarrow> 's \<Rightarrow> bool" where
  "mwp m Q X s = (case m s of (Inl x, s') \<Rightarrow> X x s' | (Inr a, s') \<Rightarrow> Q a s')"

lemma mwp_mret [wp_simps]: "mwp (mret a) Q X s = Q a s"
  by (simp add: mwp_def mret_def)

lemma mwp_mthrow [wp_simps]: "mwp (mthrow x) Q X s = X x s"
  by (simp add: mwp_def mthrow_def)

lemma mwp_mlift [wp_simps]: "mwp (mlift r) Q X s = (case r of Inl x \<Rightarrow> X x s | Inr a \<Rightarrow> Q a s)"
  by (simp add: mwp_def mlift_def)

lemma mwp_mbind [wp_simps]: "mwp (mbind m f) Q X s = mwp m (\<lambda>a. mwp (f a) Q X) X s"
  by (auto simp: mwp_def mbind_def split: prod.split sum.split)

lemma mwp_mcatch_std [wp_simps]:
  "mwp (mcatch_std m handler) Q X s =
     mwp m Q (\<lambda>x s'. if is_std_exception x then mwp (handler x) Q X s' else X x s') s"
  by (auto simp: mwp_def mcatch_std_def split: prod.split sum.split)

lemma mwp_on_fst [wp_simps]:
  "mwp (on_fst m) Q X s = mwp m (\<lambda>a q. Q a (q, snd s)) (\<lambda>x q. X x (q, snd s)) (fst s)"
  by (auto simp: mwp_def on_fst_def split: prod.split sum.split)

lemma mwp_on_snd [wp_simps]:
  "mwp (on_snd m) Q X s = mwp m (\<lambda>a w. Q a (fst s, w)) (\<lambda>x w. X x (fst s, w)) (snd s)"
  by (auto simp: mwp_def on_snd_def split: prod.split sum.split)

lemma mwp_if [wp_simps]: "mwp (if b then m else m') Q X s = (if b then mwp m Q X s else mwp m' Q X s)"
  by simp

lemma mwp_mono:
  assumes "mwp m Q X s" and "\<And>a s'. Q a s' \<Longrightarrow> Q' a s'" and "\<And>x s'. X x s' \<Longrightarrow> X' x s'"
  shows "mwp m Q' X' s"
  using assms by (auto simp: mwp_def split: prod.splits sum.splits)

lemma mwp_result: "m s = (r, s') \<Longrightarrow> mwp m Q X s \<longleftrightarrow> (case r of Inl x \<Rightarrow> X x s' | Inr a \<Rightarrow> Q a s')"
  by (simp add: mwp_def split: sum.split)

lemma mwp_conj: "mwp m (\<lambda>a s. Q a s \<and> Q' a s) (\<lambda>x s. X x s \<and> X' x s) s \<longleftrightarrow> mwp m Q X s \<and> mwp m Q' X' s"
  by (auto simp: mwp_def split: prod.split sum.split)

lemma mwp_true: "mwp m (\<lambda>_ _. True) (\<lambda>_ _. True) s"
  by (auto simp: mwp_def split: prod.split sum.split)

section \<open>Preserving a property of the first component\<close>

named_theorems keeps_intros \<open>operations that preserve a property of the first component of the state\<close>

definition keeps :: "('a \<Rightarrow> bool) \<Rightarrow> ('a \<times> 'b, 'c) act \<Rightarrow> bool" where
  "keeps P m \<longleftrightarrow> (\<forall>s. P (fst s) \<longrightarrow> P (fst (snd (m s))))"

lemma keepsD: "keeps P m \<Longrightarrow> P (fst s) \<Longrightarrow> P (fst (snd (m s)))"
  unfolding keeps_def by blast

lemma keepsI: "(\<And>s. P (fst s) \<Longrightarrow> P (fst (snd (m s)))) \<Longrightarrow> keeps P m"
  unfolding keeps_def by blast

lemma keeps_mret [keeps_intros]: "keeps P (mret a)"
  by (simp add: keeps_def mret_def)

lemma keeps_mthrow [keeps_intros]: "keeps P (mthrow x)"
  by (simp add: keeps_def mthrow_def)

lemma keeps_mlift [keeps_intros]: "keeps P (mlift r)"
  by (simp add: keeps_def mlift_def)

lemma keeps_on_snd [keeps_intros]: "keeps P (on_snd m)"
  by (simp add: keeps_def on_snd_def split_beta)

lemma keeps_on_fst: "(\<And>a. P a \<Longrightarrow> P (snd (m a))) \<Longrightarrow> keeps P (on_fst m)"
  by (simp add: keeps_def on_fst_def split_beta)

lemma keeps_mbind [keeps_intros]:
  assumes "keeps P m" and "\<And>a. keeps P (f a)"
  shows "keeps P (mbind m f)"
proof (rule keepsI)
  fix s :: "'a \<times> 'b"
  assume "P (fst s)"
  then have "P (fst (snd (m s)))" by (rule keepsD [OF assms(1)])
  then show "P (fst (snd (mbind m f s)))"
    by (cases "m s"; cases "fst (m s)") (simp_all add: mbind_def keepsD [OF assms(2)])
qed

lemma keeps_mcatch_std [keeps_intros]:
  assumes "keeps P m" and "\<And>x. keeps P (handler x)"
  shows "keeps P (mcatch_std m handler)"
proof (rule keepsI)
  fix s :: "'a \<times> 'b"
  assume "P (fst s)"
  then have "P (fst (snd (m s)))" by (rule keepsD [OF assms(1)])
  then show "P (fst (snd (mcatch_std m handler s)))"
    by (cases "m s"; cases "fst (m s)") (simp_all add: mcatch_std_def keepsD [OF assms(2)])
qed

lemma keeps_if [keeps_intros]: "(b \<Longrightarrow> keeps P m) \<Longrightarrow> (\<not> b \<Longrightarrow> keeps P m') \<Longrightarrow> keeps P (if b then m else m')"
  by simp

lemma keeps_option [keeps_intros]:
  "keeps P m \<Longrightarrow> (\<And>x. keeps P (f x)) \<Longrightarrow> keeps P (case opt of None \<Rightarrow> m | Some x \<Rightarrow> f x)"
  by (simp split: option.split)

lemma keeps_state: "(\<And>s. keeps P (m s)) \<Longrightarrow> keeps P (\<lambda>s. m s s)"
  by (simp add: keeps_def)

end
