(* ===== verification/Fiber_Interfaces.thy ===== *)
theory Fiber_Interfaces
  imports Fiber_Handler Fiber_Monad
begin

text \<open>
  ci/interface/IRequest.h and ci/interface/IMQ.h: the interfaces through which the kernel and a
  message queue module talk to each other.

  A pointer to a request object is a \<open>reqref\<close>. An interface is the record of its virtual functions,
  over a world \<open>'w\<close> in which the objects live. \<open>QueryInterface\<close> belongs to the component library the
  repository takes as a submodule: \<open>rq_query\<close> says whether an object answers it.

  The locale \<open>irequest\<close> states what a caller of \<open>IRequest\<close> relies on: the functions of one request leave the
  identity, the content and the header options of every request as they are, \<open>Reply\<close> never returns
  \<open>false\<close>, and it throws nothing that a handler of \<open>std::exception\<close> would catch.
\<close>

type_synonym reqref = nat

datatype tele_option = EmplaceAt | ExtractAt

record 'w irequest =
  rq_query :: "reqref \<Rightarrow> bool"
  rq_msgid :: "'w \<Rightarrow> reqref \<Rightarrow> uint64"
  rq_header :: "reqref \<Rightarrow> string \<Rightarrow> string option \<Rightarrow> 'w \<Rightarrow> zcstring \<times> 'w"
  rq_content :: "'w \<Rightarrow> reqref \<Rightarrow> zcstring"
  rq_uri :: "'w \<Rightarrow> reqref \<Rightarrow> zcstring"
  rq_reply :: "reqref \<Rightarrow> reply_args \<Rightarrow> ('w, bool) act"
  rq_telemetry :: "reqref \<Rightarrow> tele_option \<Rightarrow> 'w \<Rightarrow> 'w"

record 's imq =
  mq_Get :: "reqref \<Rightarrow> ('s, unit) act"
  mq_Post :: "reqref \<Rightarrow> ('s, unit) act"
  mq_Put :: "reqref \<Rightarrow> ('s, unit) act"
  mq_Head :: "reqref \<Rightarrow> ('s, unit) act"
  mq_Options :: "reqref \<Rightarrow> ('s, unit) act"
  mq_Delete :: "reqref \<Rightarrow> ('s, unit) act"
  mq_Trace :: "reqref \<Rightarrow> ('s, unit) act"
  mq_Connect :: "reqref \<Rightarrow> ('s, unit) act"
  mq_Patch :: "reqref \<Rightarrow> ('s, unit) act"

definition same_requests :: "'w irequest \<Rightarrow> 'w \<Rightarrow> 'w \<Rightarrow> bool" where
  "same_requests R w w' \<longleftrightarrow>
     (\<forall>r. rq_msgid R w' r = rq_msgid R w r \<and> rq_content R w' r = rq_content R w r \<and>
          (\<forall>k d. fst (rq_header R r k d w') = fst (rq_header R r k d w)))"

lemma same_requests_refl: "same_requests R w w"
  by (simp add: same_requests_def)

lemma same_requests_trans: "same_requests R w w' \<Longrightarrow> same_requests R w' w'' \<Longrightarrow> same_requests R w w''"
  by (simp add: same_requests_def)

locale irequest =
  fixes R :: "'w irequest"
  assumes header_same: "same_requests R w (snd (rq_header R r k d w))"
    and reply_same: "same_requests R w (snd (rq_reply R r a w))"
    and telemetry_same: "same_requests R w (rq_telemetry R r t w)"
    and reply_true: "fst (rq_reply R r a w) = Inr b \<Longrightarrow> b"
    and reply_not_std: "fst (rq_reply R r a w) = Inl x \<Longrightarrow> \<not> is_std_exception x"
begin

lemma mwp_reply:
  assumes "\<And>w'. same_requests R w w' \<Longrightarrow> Q True w'"
    and "\<And>x w'. same_requests R w w' \<Longrightarrow> \<not> is_std_exception x \<Longrightarrow> X x w'"
  shows "mwp (rq_reply R r a) Q X w"
proof (cases "rq_reply R r a w")
  case (Pair res w')
  then have "same_requests R w w'" using reply_same [of w r a] by simp
  with Pair assms reply_true [of r a w] reply_not_std [of r a w] show ?thesis
    by (auto simp: mwp_def split: sum.split)
qed

end

text \<open>
  What the kernel relies on when it calls a queue module: whatever the operation, the request and the
  outcome, the module's own state stays well formed.
\<close>

locale imq_module =
  fixes mq :: "('q \<times> 'w) imq" and ok :: "'q \<Rightarrow> bool"
  assumes keeps_Get: "keeps ok (mq_Get mq r)"
    and keeps_Post: "keeps ok (mq_Post mq r)"
    and keeps_Put: "keeps ok (mq_Put mq r)"
    and keeps_Head: "keeps ok (mq_Head mq r)"
    and keeps_Options: "keeps ok (mq_Options mq r)"
    and keeps_Delete: "keeps ok (mq_Delete mq r)"
    and keeps_Trace: "keeps ok (mq_Trace mq r)"
    and keeps_Connect: "keeps ok (mq_Connect mq r)"
    and keeps_Patch: "keeps ok (mq_Patch mq r)"
begin

lemmas op_keeps = keeps_Get keeps_Post keeps_Put keeps_Head keeps_Options keeps_Delete keeps_Trace keeps_Connect keeps_Patch

end

end
