(* ===== verification/Fiber_Request.thy ===== *)
theory Fiber_Request
  imports Fiber_Interfaces
begin

text \<open>
  kernel/main/impl/requestimpl.cpp: \<open>RequestImpl\<close>, the kernel's implementation of \<open>IRequest\<close> over an
  \<open>HttpImpl\<close>, with the case insensitive map of its header options, filled at the first lookup.

  Request objects live in a \<open>world\<close>: a heap of them and the sockets. That an object lives as long as
  an interface pointer to it is the component library's reference counting; the heap is total.
\<close>

record request_impl =
  Http :: http_impl
  HeaderMap :: "(zcstring, zcstring) umap"

record world =
  heap :: "reqref \<Rightarrow> request_impl"
  sockets :: net

definition GetHeaderOption :: "request_impl \<Rightarrow> string \<Rightarrow> string option \<Rightarrow> zcstring \<times> request_impl" where
  "GetHeaderOption ri opt defvalue =
     (let m = (if HeaderMap ri = []
               then umap_emplace_all zcstring_ifasthash zcstring_iequal [] (Headers (Request (Http ri)))
               else HeaderMap ri);
          ri = ri\<lparr>HeaderMap := m\<rparr>
      in case umap_find zcstring_ifasthash zcstring_iequal m (zstring opt) of
           Some v \<Rightarrow> (v, ri)
         | None \<Rightarrow> ((case defvalue of Some d \<Rightarrow> zstring d | None \<Rightarrow> znull), ri))"

definition upd_request :: "reqref \<Rightarrow> request_impl \<Rightarrow> world \<Rightarrow> world" where
  "upd_request r ri w = w\<lparr>heap := (heap w)(r := ri)\<rparr>"

definition RequestImpl_Reply :: "env \<Rightarrow> reqref \<Rightarrow> reply_args \<Rightarrow> (world, bool) act" where
  "RequestImpl_Reply e r a w =
     (case Reply e (Http (heap w r)) (sockets w) a of
        (res, h, n) \<Rightarrow>
          (case res of Inl x \<Rightarrow> Inl x | Inr _ \<Rightarrow> Inr True,
           (upd_request r ((heap w r)\<lparr>Http := h\<rparr>) w)\<lparr>sockets := n\<rparr>))"

definition SetTelemetry :: "env \<Rightarrow> reqref \<Rightarrow> tele_option \<Rightarrow> world \<Rightarrow> world" where
  "SetTelemetry e r opt w =
     (let (now, n) = timestamp e (sockets w);
          h = Http (heap w r);
          t = (case opt of
                 EmplaceAt \<Rightarrow> (Telemetry h)\<lparr>tmEmplacedAt := now\<rparr>
               | ExtractAt \<Rightarrow> (Telemetry h)\<lparr>tmExtractedAt := now\<rparr>)
      in (upd_request r ((heap w r)\<lparr>Http := h\<lparr>Telemetry := t\<rparr>\<rparr>) w)\<lparr>sockets := n\<rparr>)"

definition RequestImpl :: "env \<Rightarrow> (reqref \<Rightarrow> bool) \<Rightarrow> world irequest" where
  "RequestImpl e query =
     \<lparr>rq_query = query,
      rq_msgid = (\<lambda>w r. MsgId (Http (heap w r))),
      rq_header = (\<lambda>r k d w. case GetHeaderOption (heap w r) k d of (v, ri) \<Rightarrow> (v, upd_request r ri w)),
      rq_content = (\<lambda>w r. ReqContent (Request (Http (heap w r)))),
      rq_uri = (\<lambda>w r. Uri (Request (Http (heap w r)))),
      rq_reply = RequestImpl_Reply e,
      rq_telemetry = SetTelemetry e\<rparr>"

text \<open>\<open>RequestImpl::Process\<close>: dispatch on the request method to a queue that implements \<open>IMQ\<close>.\<close>

definition ok_reply :: reply_args where
  "ok_reply =
     \<lparr>rCode = 200, rMessage = Some ''OK'', rContent = None, rContentLength = 0, rHeaders = [], rClose = True\<rparr>"

definition RequestImpl_Process :: "env \<Rightarrow> ('q \<times> world) imq option \<Rightarrow> reqref \<Rightarrow> ('q \<times> world, unit) act" where
  "RequestImpl_Process e mq r s =
     (case mq of
        None \<Rightarrow> mthrow (StdRuntimeError ''IMQ interface not implemented'') s
      | Some queue \<Rightarrow>
          (case Method (Request (Http (heap (snd s) r))) of
             GET \<Rightarrow> mq_Get queue r s
           | POST \<Rightarrow> mq_Post queue r s
           | PUT \<Rightarrow> mq_Put queue r s
           | HEAD \<Rightarrow> mq_Head queue r s
           | OPTIONS \<Rightarrow> mq_Options queue r s
           | DELETE \<Rightarrow> mq_Delete queue r s
           | TRACE \<Rightarrow> mq_Trace queue r s
           | CONNECT \<Rightarrow> mq_Connect queue r s
           | PATCH \<Rightarrow> mq_Patch queue r s
           | UNSUPPORTED \<Rightarrow> mbind (on_snd (RequestImpl_Reply e r ok_reply)) (\<lambda>_. mret ()) s))"

section \<open>Header options\<close>

definition header_cached :: "request_impl \<Rightarrow> bool" where
  "header_cached ri \<longleftrightarrow>
     HeaderMap ri = [] \<or>
     HeaderMap ri = umap_emplace_all zcstring_ifasthash zcstring_iequal [] (Headers (Request (Http ri)))"

text \<open>The reference: the first header whose name equals the option up to the case of letters.\<close>

definition header_lookup :: "(zcstring \<times> zcstring) list \<Rightarrow> string \<Rightarrow> string option \<Rightarrow> zcstring" where
  "header_lookup hs opt defvalue =
     (case List.find (\<lambda>h. map icase (zbytes (fst h)) = map icase opt) hs of
        Some h \<Rightarrow> snd h
      | None \<Rightarrow> (case defvalue of Some d \<Rightarrow> zstring d | None \<Rightarrow> znull))"

lemma umap_find_Nil [simp]: "umap_find hash eq [] k = None"
  by (simp add: umap_find_def)

lemma iequal_zstring: "zcstring_iequal (zstring opt) z \<longleftrightarrow> map icase (zbytes z) = map icase opt"
  by (auto simp: zcstring_iequal_iff)

lemma GetHeaderOption_lookup:
  assumes "header_cached ri"
  shows "fst (GetHeaderOption ri opt d) = header_lookup (Headers (Request (Http ri))) opt d"
proof -
  let ?m = "umap_emplace_all zcstring_ifasthash zcstring_iequal [] (Headers (Request (Http ri)))"
  have "(if HeaderMap ri = [] then ?m else HeaderMap ri) = ?m" using assms by (auto simp: header_cached_def)
  then show ?thesis
    by (simp add: GetHeaderOption_def header_lookup_def header_keys.find_emplace_all iequal_zstring split: option.split)
qed

lemma GetHeaderOption_cached: "header_cached ri \<Longrightarrow> header_cached (snd (GetHeaderOption ri opt d))"
  by (auto simp: GetHeaderOption_def header_cached_def Let_def split: option.splits)

lemma GetHeaderOption_http [simp]: "Http (snd (GetHeaderOption ri opt d)) = Http ri"
  by (auto simp: GetHeaderOption_def Let_def split: option.splits)

lemma GetHeaderOption_again: "fst (GetHeaderOption (snd (GetHeaderOption ri k d)) k' d') = fst (GetHeaderOption ri k' d')"
  by (auto simp: GetHeaderOption_def Let_def split: option.splits)

lemma GetHeaderOption_cong:
  "Request (Http ri') = Request (Http ri) \<Longrightarrow> HeaderMap ri' = HeaderMap ri \<Longrightarrow>
     fst (GetHeaderOption ri' k d) = fst (GetHeaderOption ri k d)"
  by (auto simp: GetHeaderOption_def Let_def split: option.splits)

section \<open>The interface laws\<close>

lemma RequestImpl_sel [simp]:
  "rq_query (RequestImpl e qy) = qy"
  "rq_msgid (RequestImpl e qy) w r = MsgId (Http (heap w r))"
  "rq_content (RequestImpl e qy) w r = ReqContent (Request (Http (heap w r)))"
  "rq_uri (RequestImpl e qy) w r = Uri (Request (Http (heap w r)))"
  "rq_reply (RequestImpl e qy) = RequestImpl_Reply e"
  "rq_telemetry (RequestImpl e qy) = SetTelemetry e"
  by (simp_all add: RequestImpl_def)

lemma rq_header_RequestImpl:
  "rq_header (RequestImpl e qy) r k d w =
     (fst (GetHeaderOption (heap w r) k d), upd_request r (snd (GetHeaderOption (heap w r) k d)) w)"
  by (simp add: RequestImpl_def split_beta)

lemma heap_upd_request [simp]: "heap (upd_request r ri w) = (heap w)(r := ri)"
  by (simp add: upd_request_def)

lemma same_requests_upd:
  assumes "\<And>x. x \<noteq> r \<Longrightarrow> heap w' x = heap w x"
    and "MsgId (Http (heap w' r)) = MsgId (Http (heap w r))" and "Request (Http (heap w' r)) = Request (Http (heap w r))"
    and "\<And>k d. fst (GetHeaderOption (heap w' r) k d) = fst (GetHeaderOption (heap w r) k d)"
  shows "same_requests (RequestImpl e qy) w w'"
  unfolding same_requests_def
proof (intro allI)
  fix x
  show "rq_msgid (RequestImpl e qy) w' x = rq_msgid (RequestImpl e qy) w x \<and>
    rq_content (RequestImpl e qy) w' x = rq_content (RequestImpl e qy) w x \<and>
    (\<forall>k d. fst (rq_header (RequestImpl e qy) x k d w') = fst (rq_header (RequestImpl e qy) x k d w))"
    using assms by (cases "x = r") (simp_all add: rq_header_RequestImpl)
qed

interpretation request_impl: irequest "RequestImpl e qy" for e qy
proof
  fix w :: world and r k d
  show "same_requests (RequestImpl e qy) w (snd (rq_header (RequestImpl e qy) r k d w))"
    by (rule same_requests_upd [of r]) (simp_all add: rq_header_RequestImpl GetHeaderOption_again)
next
  fix w :: world and r a
  obtain res h n where p: "Reply e (Http (heap w r)) (sockets w) a = (res, h, n)" by (metis prod_cases3)
  from Reply_outcome [OF p] show "same_requests (RequestImpl e qy) w (snd (rq_reply (RequestImpl e qy) r a w))"
    by (intro same_requests_upd [of r]) (auto simp: RequestImpl_Reply_def p intro: GetHeaderOption_cong)
next
  fix w :: world and r t
  show "same_requests (RequestImpl e qy) w (rq_telemetry (RequestImpl e qy) r t w)"
    by (rule same_requests_upd [of r])
      (auto simp: SetTelemetry_def timestamp_def Let_def intro: GetHeaderOption_cong split: tele_option.split)
next
  fix r a and w :: world and b
  assume "fst (rq_reply (RequestImpl e qy) r a w) = Inr b"
  then show b by (auto simp: RequestImpl_Reply_def split: prod.splits sum.splits)
next
  fix r a and w :: world and x
  assume x: "fst (rq_reply (RequestImpl e qy) r a w) = Inl x"
  obtain res h n where p: "Reply e (Http (heap w r)) (sockets w) a = (res, h, n)" by (metis prod_cases3)
  from x have "res = Inl x" by (auto simp: RequestImpl_Reply_def p split: sum.splits)
  with Reply_outcome [OF p] show "\<not> is_std_exception x" by (auto simp: send_failed_def)
qed

section \<open>Dispatch\<close>

lemma RequestImpl_Process_keeps:
  assumes "imq_module mq ok"
  shows "keeps ok (RequestImpl_Process e (Some mq) r)"
proof (rule keepsI)
  fix s :: "'a \<times> world"
  assume "ok (fst s)"
  moreover have "keeps ok (mbind (on_snd (RequestImpl_Reply e r ok_reply)) (\<lambda>_. mret ()))"
    by (intro keeps_intros)
  ultimately show "ok (fst (snd (RequestImpl_Process e (Some mq) r s)))"
    using imq_module.op_keeps [OF assms]
    by (simp add: RequestImpl_Process_def keepsD split: request_method.split)
qed

end
