(* ===== verification/Fiber_Transform.thy ===== *)
theory Fiber_Transform
  imports Fiber_Prelude
begin

text \<open>
  ci/utils/transform.h: \<open>trim\<close>, \<open>lowercase\<close>, \<open>uppercase\<close>, \<open>explode\<close> and \<open>implode\<close> on strings.
  With an empty delimiter the loop of \<open>explode\<close> does not advance: \<open>explode_loop\<close> is a partial function whose
  \<open>None\<close> means that it never ends.
\<close>

section \<open>Trimming and case\<close>

definition trim_string :: "string \<Rightarrow> string" where
  "trim_string s = (let s = dropWhile isspace s in rev (dropWhile isspace (rev s)))"

definition trim_list :: "string list \<Rightarrow> string list" where
  "trim_list xs = map trim_string xs"

definition tolower :: "byte \<Rightarrow> byte" where
  "tolower c = (if 65 \<le> code c \<and> code c \<le> 90 then char_of (code c + 32) else c)"

definition toupper :: "byte \<Rightarrow> byte" where
  "toupper c = (if 97 \<le> code c \<and> code c \<le> 122 then char_of (code c - 32) else c)"

definition lowercase :: "string \<Rightarrow> string" where
  "lowercase s = map tolower s"

definition uppercase :: "string \<Rightarrow> string" where
  "uppercase s = map toupper s"

lemma trim_string_idem [simp]: "trim_string (trim_string s) = trim_string s"
proof -
  let ?d = "dropWhile isspace s"
  let ?r = "rev (dropWhile isspace (rev ?d))"
  have "dropWhile isspace ?r = ?r"
  proof (cases ?d)
    case (Cons c t)
    then have "\<not> isspace c" using hd_dropWhile [of isspace s] by simp
    moreover obtain u where "?r = c # u"
    proof -
      have "dropWhile isspace (rev t @ [c]) = dropWhile isspace (rev t) @ [c]"
        using \<open>\<not> isspace c\<close> by (induction "rev t") (auto simp: dropWhile_append)
      then show ?thesis using that Cons by simp
    qed
    ultimately show ?thesis by simp
  qed (simp only: rev.simps dropWhile.simps)
  then show ?thesis by (simp add: trim_string_def Let_def)
qed

section \<open>\<open>explode\<close> and \<open>implode\<close>\<close>

text \<open>\<open>std::string::find\<close> from a start position.\<close>

function string_find :: "string \<Rightarrow> string \<Rightarrow> nat \<Rightarrow> nat option" where
  "string_find del s start =
     (if length s < start + length del then None
      else if take (length del) (drop start s) = del then Some start
      else if start < length s then string_find del s (Suc start) else None)"
  by pat_completeness auto
termination by (relation "measure (\<lambda>(del, s, start). length s - start)") auto

declare string_find.simps [simp del]

partial_function (option) explode_loop ::
    "string \<Rightarrow> string \<Rightarrow> int \<Rightarrow> nat \<Rightarrow> nat option \<Rightarrow> string list \<Rightarrow> string list option" where
  "explode_loop del s limit start end list =
     (if limit - 1 \<noteq> 0 \<and> end \<noteq> None then
        explode_loop del s (limit - 1) (the end + length del) (string_find del s (the end + length del))
          (list @ [take (the end - start) (drop start s)])
      else Some (list @ [drop start s]))"

declare explode_loop.simps [code]

definition explode :: "string \<Rightarrow> string \<Rightarrow> int \<Rightarrow> string list option" where
  "explode del s limit =
     (if s \<noteq> [] then explode_loop del s limit 0 (string_find del s 0) [] else Some [])"

text \<open>The loop of \<open>implode\<close> runs one time less than there are pieces; without pieces it runs past the end.\<close>

fun implode_loop :: "string \<Rightarrow> string list \<Rightarrow> string" where
  "implode_loop glue [] = []"
| "implode_loop glue [p] = p"
| "implode_loop glue (p # ps) = p @ glue @ implode_loop glue ps"

definition implode :: "string \<Rightarrow> string list \<Rightarrow> exn + string" where
  "implode glue pieces = (if pieces = [] then Inl UndefinedBehaviour else Inr (implode_loop glue pieces))"

lemma string_find_Some:
  "string_find del s start = Some e \<Longrightarrow>
     start \<le> e \<and> e + length del \<le> length s \<and> take (length del) (drop e s) = del \<and>
     (\<forall>k. start \<le> k \<and> k < e \<longrightarrow> take (length del) (drop k s) \<noteq> del)"
proof (induction del s start rule: string_find.induct)
  case (1 del s start)
  show ?case
  proof (cases "take (length del) (drop start s) = del")
    case True
    with 1(2) show ?thesis by (subst (asm) string_find.simps) (auto split: if_splits)
  next
    case False
    with 1(2) have r: "\<not> length s < start + length del" "start < length s" "string_find del s (Suc start) = Some e"
      by (subst (asm) string_find.simps; simp split: if_splits)+
    from "1.IH" [OF r(1) False r(2,3)] False show ?thesis
      by (metis Suc_leI Suc_le_lessD le_neq_implies_less less_imp_le_nat order_trans)
  qed
qed

lemma string_find_None:
  "string_find del s start = None \<Longrightarrow> start \<le> k \<Longrightarrow> k + length del \<le> length s \<Longrightarrow> del \<noteq> [] \<Longrightarrow>
     take (length del) (drop k s) \<noteq> del"
proof (induction del s start arbitrary: k rule: string_find.induct)
  case (1 del s start)
  have n: "take (length del) (drop start s) \<noteq> del" "\<not> length s < start + length del" "start < length s"
    "string_find del s (Suc start) = None"
    using 1(2-5) string_find.simps [of del s start] by (cases del; simp split: if_splits)+
  show ?case
  proof (cases "k = start")
    case False
    then show ?thesis using "1.IH" [OF n(2,1,3,4), of k] 1(3-5) by simp
  qed (use n in simp)
qed

text \<open>Joining what was split gives the string back, with any limit; unlimited splitting leaves no delimiter.\<close>

lemma implode_loop_append:
  "ps \<noteq> [] \<Longrightarrow> implode_loop glue (ps @ [q]) = implode_loop glue ps @ glue @ q"
  by (induction glue ps rule: implode_loop.induct) auto

definition joined :: "string \<Rightarrow> string list \<Rightarrow> string" where
  "joined del ps = concat (map (\<lambda>p. p @ del) ps)"

lemma implode_joined: "implode_loop del (ps @ [q]) = joined del ps @ q"
proof (induction ps arbitrary: q rule: rev_induct)
  case (snoc p ps)
  then show ?case using implode_loop_append [of "ps @ [p]" del q] by (simp add: joined_def)
qed (simp add: joined_def)

lemma explode_loop_spec:
  assumes "del \<noteq> []" and "start \<le> length s" and "joined del acc = take start s"
    and "end = string_find del s start"
  shows "\<exists>ps q. explode_loop del s limit start end acc = Some (acc @ ps @ [q]) \<and> joined del (acc @ ps) @ q = s"
  using assms
proof (induction "length s - start" arbitrary: limit start "end" acc rule: less_induct)
  case less
  show ?case
  proof (cases "limit - 1 \<noteq> 0 \<and> end \<noteq> None")
    case False
    then show ?thesis using less.prems
      by (subst explode_loop.simps) (auto intro!: exI [of _ "[]"])
  next
    case True
    then obtain e where e: "string_find del s start = Some e" "end = Some e" using less.prems(4) by auto
    note f = string_find_Some [OF e(1)]
    let ?p = "take (e - start) (drop start s)"
    have "take (e + length del) s = take start s @ ?p @ del"
    proof -
      have "take (e + length del) s = take e s @ take (length del) (drop e s)" by (rule take_add)
      also have "take e s = take start s @ ?p"
        using f take_add [of start "e - start" s] by simp
      finally show ?thesis using f by simp
    qed
    then have j: "joined del (acc @ [?p]) = take (e + length del) s"
      using less.prems(3) by (simp add: joined_def)
    have lt: "length s - (e + length del) < length s - start"
      using f less.prems(1) by (cases del) auto
    obtain ps q where "explode_loop del s (limit - 1) (e + length del) (string_find del s (e + length del)) (acc @ [?p]) =
        Some ((acc @ [?p]) @ ps @ [q])" "joined del ((acc @ [?p]) @ ps) @ q = s"
      using less.hyps [OF lt less.prems(1) _ j refl] f by blast
    then show ?thesis using True e
      by (subst explode_loop.simps) (auto intro!: exI [of _ "?p # ps"])
  qed
qed

lemma explode_terminates:
  assumes "del \<noteq> []" and "s \<noteq> []"
  shows "\<exists>ps. explode del s limit = Some ps \<and> implode del ps = Inr s"
proof -
  obtain ps q where "explode_loop del s limit 0 (string_find del s 0) [] = Some ([] @ ps @ [q])"
    "joined del ([] @ ps) @ q = s"
    using explode_loop_spec [OF assms(1), of 0 s "[]" "string_find del s 0" limit] by (auto simp: joined_def)
  with assms(2) show ?thesis by (simp add: explode_def implode_def implode_joined)
qed

section \<open>Splitting at a character\<close>

lemma string_find_char:
  "drop start s = p @ d # rest \<Longrightarrow> d \<notin> set p \<Longrightarrow> string_find [d] s start = Some (start + length p)"
proof (induction p arbitrary: start)
  case Nil
  then have "\<not> length s < start + 1" by (cases "start < length s") auto
  then show ?case using Nil by (subst string_find.simps) simp
next
  case (Cons c p)
  then have l: "start < length s" by (cases "start < length s") auto
  have "drop (Suc start) s = p @ d # rest" using Cons.prems(1) by (simp add: drop_Suc tl_drop [symmetric])
  with Cons l show ?case by (subst string_find.simps) auto
qed

lemma string_find_char_None: "d \<notin> set (drop start s) \<Longrightarrow> string_find [d] s start = None"
proof (induction "[d]" s start rule: string_find.induct)
  case (1 s start)
  show ?case
  proof (cases "start < length s")
    case True
    then have "drop start s = s ! start # drop (Suc start) s" by (simp add: Cons_nth_drop_Suc)
    with 1 True show ?thesis by (subst string_find.simps) auto
  next
    case False
    then show ?thesis by (subst string_find.simps) auto
  qed
qed

lemma explode_loop_char:
  assumes "ps \<noteq> []" and "\<forall>p \<in> set ps. d \<notin> set p" and "drop start s = implode_loop [d] ps" and "limit < 0"
  shows "explode_loop [d] s limit start (string_find [d] s start) acc = Some (acc @ ps)"
  using assms
proof (induction "[d]" ps arbitrary: start limit acc rule: implode_loop.induct)
  case (2 p)
  then have "string_find [d] s start = None" using string_find_char_None by simp
  then show ?case using 2 by (subst explode_loop.simps) simp
next
  case (3 p q ps)
  let ?n = "start + length p"
  have s: "drop start s = p @ d # implode_loop [d] (q # ps)" using 3(4) by simp
  from string_find_char [OF s] 3(3) have f: "string_find [d] s start = Some ?n" by simp
  have "drop (?n + 1) s = drop (length p + 1) (drop start s)" by (simp add: add_ac)
  also have "\<dots> = implode_loop [d] (q # ps)" by (simp add: s)
  finally have r: "drop (?n + 1) s = implode_loop [d] (q # ps)" .
  show ?case
    using 3(1) [OF _ _ r, of "limit - 1" "acc @ [p]"] 3(3,5) s f by (subst explode_loop.simps) simp
qed simp

lemma explode_implode:
  assumes "ps \<noteq> []" and "\<forall>p \<in> set ps. d \<notin> set p" and "implode_loop [d] ps \<noteq> []" and "limit < 0"
  shows "explode [d] (implode_loop [d] ps) limit = Some ps"
  using explode_loop_char [OF assms(1,2) _ assms(4), of 0 "implode_loop [d] ps" "[]"] assms(3) by (simp add: explode_def)

end
