(* ===== verification/Fiber_Regex.thy ===== *)
theory Fiber_Regex
  imports Fiber_Prelude
begin

text \<open>
  The part of \<open>std::regex\<close> (ECMAScript grammar) the program uses: a backtracking matcher that gives, for
  an expression, a text and a position, every way to match there, in the order in which the engine
  tries them. The first one is the match. Groups are kept as the list of their bounds; a group that
  took no part is empty.
\<close>

datatype re =
    Eps
  | Chr "byte \<Rightarrow> bool"
  | Seq re re
  | Alt re re
  | Star bool re
  | Cap nat re
  | Back nat
  | Bol
  | Eol

type_synonym caps = "(nat \<times> nat \<times> nat) list"

definition cap_text :: "string \<Rightarrow> caps \<Rightarrow> nat \<Rightarrow> string" where
  "cap_text s c k = (case map_of c k of None \<Rightarrow> [] | Some (b, e) \<Rightarrow> take (e - b) (drop b s))"

function rmatch :: "re \<Rightarrow> string \<Rightarrow> nat \<Rightarrow> caps \<Rightarrow> (nat \<times> caps) list" where
  "rmatch Eps s i c = [(i, c)]"
| "rmatch (Chr P) s i c = (if i < length s \<and> P (s ! i) then [(Suc i, c)] else [])"
| "rmatch (Seq a b) s i c = concat (map (\<lambda>x. rmatch b s (fst x) (snd x)) (rmatch a s i c))"
| "rmatch (Alt a b) s i c = rmatch a s i c @ rmatch b s i c"
| "rmatch (Star greedy a) s i c =
     (let more = concat (map (\<lambda>x. rmatch (Star greedy a) s (fst x) (snd x))
                   (filter (\<lambda>x. i < fst x \<and> fst x \<le> length s) (rmatch a s i c)))
      in if greedy then more @ [(i, c)] else (i, c) # more)"
| "rmatch (Cap k a) s i c = map (\<lambda>x. (fst x, (k, i, fst x) # snd x)) (rmatch a s i c)"
| "rmatch (Back k) s i c =
     (let t = cap_text s c k in if take (length t) (drop i s) = t then [(i + length t, c)] else [])"
| "rmatch Bol s i c = (if i = 0 then [(i, c)] else [])"
| "rmatch Eol s i c = (if i = length s then [(i, c)] else [])"
  by pat_completeness auto
termination
  by (relation "measures [\<lambda>(r, s, i, c). size r, \<lambda>(r, s, i, c). length s - i]") auto

declare rmatch.simps(5) [simp del]

text \<open>\<open>regex_search\<close>: the first position at which the expression matches.\<close>

function search_from :: "re \<Rightarrow> string \<Rightarrow> nat \<Rightarrow> (nat \<times> nat \<times> caps) option" where
  "search_from r s i =
     (case rmatch r s i [] of
        x # _ \<Rightarrow> Some (i, fst x, snd x)
      | [] \<Rightarrow> if i < length s then search_from r s (Suc i) else None)"
  by pat_completeness auto
termination by (relation "measure (\<lambda>(r, s, i). length s - i)") auto

declare search_from.simps [simp del]

definition regex_search :: "re \<Rightarrow> string \<Rightarrow> (nat \<times> nat \<times> caps) option" where
  "regex_search r s = search_from r s 0"

text \<open>
  \<open>regex_replace\<close> with an expression that ends in \<open>$\<close>: there is at most one match. The replacement is
  a group of the match, or empty.
\<close>

definition regex_replace_end :: "re \<Rightarrow> nat option \<Rightarrow> string \<Rightarrow> string" where
  "regex_replace_end r grp s =
     (case regex_search r s of
        None \<Rightarrow> s
      | Some (b, e, c) \<Rightarrow> take b s @ (case grp of None \<Rightarrow> [] | Some k \<Rightarrow> cap_text s c k) @ drop e s)"

section \<open>Abbreviated expressions\<close>

definition Plus :: "re \<Rightarrow> re" where
  "Plus r = Seq r (Star True r)"

definition Opt :: "re \<Rightarrow> re" where
  "Opt r = Alt r Eps"

fun Lit :: "string \<Rightarrow> re" where
  "Lit [] = Eps"
| "Lit [c] = Chr (\<lambda>x. x = c)"
| "Lit (c # cs) = Seq (Chr (\<lambda>x. x = c)) (Lit cs)"

fun Seqs :: "re list \<Rightarrow> re" where
  "Seqs [] = Eps"
| "Seqs [r] = r"
| "Seqs (r # rs) = Seq r (Seqs rs)"

definition is_word :: "byte \<Rightarrow> bool" where
  "is_word c \<longleftrightarrow> (48 \<le> code c \<and> code c \<le> 57) \<or> (65 \<le> code c \<and> code c \<le> 90) \<or> (97 \<le> code c \<and> code c \<le> 122) \<or> code c = 95"

definition is_dot :: "byte \<Rightarrow> bool" where
  "is_dot c \<longleftrightarrow> c \<noteq> LF \<and> c \<noteq> CR"

definition Spaces :: re where
  "Spaces = Star True (Chr isspace)"

section \<open>Runs of characters\<close>

text \<open>A greedy star over a character class takes the whole run first, and gives characters back one by one.\<close>

definition run :: "(byte \<Rightarrow> bool) \<Rightarrow> string \<Rightarrow> nat \<Rightarrow> nat" where
  "run P s i = length (takeWhile P (drop i s))"

lemma run_step:
  "run P s i = (if i < length s \<and> P (s ! i) then Suc (run P s (Suc i)) else 0)"
  by (cases "i < length s") (auto simp: run_def Cons_nth_drop_Suc [symmetric])

lemma run_le: "i \<le> length s \<Longrightarrow> i + run P s i \<le> length s"
  using length_takeWhile_le [of P "drop i s"] by (simp add: run_def)

lemma rmatch_star_run:
  "rmatch (Star True (Chr P)) s i c = map (\<lambda>k. (i + k, c)) (rev [0..<Suc (run P s i)])"
proof (induction "run P s i" arbitrary: i)
  case 0
  then show ?case using run_step [of P s i] by (subst rmatch.simps(5)) (auto split: if_splits)
next
  case (Suc n)
  then have i: "i < length s" "P (s ! i)" "run P s (Suc i) = n" using run_step [of P s i] by (simp_all split: if_splits)
  have "rmatch (Star True (Chr P)) s i c = rmatch (Star True (Chr P)) s (Suc i) c @ [(i, c)]"
    using i by (subst rmatch.simps(5)) simp
  also have "\<dots> = map (\<lambda>k. (Suc i + k, c)) (rev [0..<Suc n]) @ [(i, c)]"
    using Suc.hyps(1) [of "Suc i"] i(3) by simp
  also have "map (\<lambda>k. (Suc i + k, c)) (rev [0..<Suc n]) = map (\<lambda>k. (i + k, c)) (rev (map Suc [0..<Suc n]))"
    by (simp add: rev_map [symmetric])
  also have "map Suc [0..<Suc n] = [1..<Suc (Suc n)]" by (simp add: map_Suc_upt)
  also have "map (\<lambda>k. (i + k, c)) (rev [1..<Suc (Suc n)]) @ [(i, c)] = map (\<lambda>k. (i + k, c)) (rev [0..<Suc (Suc n)])"
    by (simp add: upt_conv_Cons [of 0])
  finally show ?case using Suc.hyps(2) by simp
qed

lemma rmatch_star_hd: "\<exists>xs. rmatch (Star True (Chr P)) s i c = (i + run P s i, c) # xs"
  by (simp add: rmatch_star_run)

text \<open>The first match of a sequence, when the first way through its head can be continued.\<close>

lemma rmatch_Seq_hd:
  assumes "rmatch a s i c = (j, d) # xs" and "rmatch b s j d = y # ys"
  shows "\<exists>zs. rmatch (Seq a b) s i c = y # zs"
  using assms by simp

lemma rmatch_plus_hd:
  assumes "i < length s" and "P (s ! i)"
  shows "\<exists>xs. rmatch (Plus (Chr P)) s i c = (i + run P s i, c) # xs"
proof -
  obtain xs where "rmatch (Star True (Chr P)) s (Suc i) c = (Suc i + run P s (Suc i), c) # xs"
    using rmatch_star_hd by blast
  moreover have "rmatch (Plus (Chr P)) s i c = rmatch (Star True (Chr P)) s (Suc i) c"
    using assms by (simp add: Plus_def)
  ultimately show ?thesis using assms run_step [of P s i] by simp
qed

lemma rmatch_plus_none: "\<not> (i < length s \<and> P (s ! i)) \<Longrightarrow> rmatch (Plus (Chr P)) s i c = []"
  by (auto simp: Plus_def)

lemma rmatch_Cap_hd:
  "rmatch a s i c = (j, d) # xs \<Longrightarrow> \<exists>ys. rmatch (Cap k a) s i c = (j, (k, i, j) # d) # ys"
  by simp

lemma search_from_hd: "rmatch r s i [] = x # xs \<Longrightarrow> search_from r s i = Some (i, fst x, snd x)"
  by (subst search_from.simps) simp

lemma run_prefix:
  assumes "\<forall>c \<in> set t. P c" and "u = [] \<or> \<not> P (hd u)"
  shows "run P (p @ t @ u) (length p) = length t"
proof -
  have "takeWhile P (t @ u) = t" using assms by (cases u) (simp_all add: takeWhile_append takeWhile_all)
  then show ?thesis by (simp add: run_def)
qed

section \<open>Lazy repetition\<close>

lemma rmatch_lazy_run:
  "rmatch (Star False (Chr P)) s i c = map (\<lambda>k. (i + k, c)) [0..<Suc (run P s i)]"
proof (induction "run P s i" arbitrary: i)
  case 0
  then show ?case using run_step [of P s i] by (subst rmatch.simps(5)) (auto split: if_splits)
next
  case (Suc n)
  then have i: "i < length s" "P (s ! i)" "run P s (Suc i) = n" using run_step [of P s i] by (simp_all split: if_splits)
  have "rmatch (Star False (Chr P)) s i c = (i, c) # rmatch (Star False (Chr P)) s (Suc i) c"
    using i by (subst rmatch.simps(5)) simp
  also have "\<dots> = (i, c) # map (\<lambda>k. (i + k, c)) (map Suc [0..<Suc n])"
    using Suc.hyps(1) [of "Suc i"] i(3) by (simp add: comp_def del: upt_Suc)
  also have "\<dots> = map (\<lambda>k. (i + k, c)) [0..<Suc (Suc n)]"
    by (simp only: map_Suc_upt) (simp add: upt_conv_Cons [of 0] del: upt_Suc)
  finally show ?case using Suc.hyps(2) by simp
qed

lemma concat_map_first:
  assumes "\<forall>j < k. f j = []" and "f k = y # ys" and "k < n"
  shows "\<exists>zs. concat (map f [0..<n]) = y # zs"
proof -
  have "[0..<n] = [0..<k] @ k # [Suc k..<n]" using assms(3) by (metis le_add_diff_inverse less_imp_le_nat upt_add_eq_append upt_conv_Cons zero_le)
  moreover have "concat (map f [0..<k]) = []" using assms(1) by simp
  ultimately show ?thesis using assms(2) by (simp del: concat_eq_Nil_conv)
qed

text \<open>A lazy group takes as few characters as the rest of the expression allows.\<close>

lemma rmatch_lazy_first:
  assumes "\<forall>j < k. rmatch b s (i + j) ((g, i, i + j) # c) = []" and "rmatch b s (i + k) ((g, i, i + k) # c) = y # ys"
    and "k \<le> run P s i"
  shows "\<exists>zs. rmatch (Seq (Cap g (Star False (Chr P))) b) s i c = y # zs"
  using concat_map_first [of k "\<lambda>j. rmatch b s (i + j) ((g, i, i + j) # c)" y ys "Suc (run P s i)"] assms
  by (simp add: rmatch_lazy_run comp_def del: upt_Suc)

text \<open>An expression that cannot match without a certain kind of character.\<close>

fun must_see :: "(byte \<Rightarrow> bool) \<Rightarrow> re \<Rightarrow> bool" where
  "must_see P (Chr Q) = (\<forall>c. Q c \<longrightarrow> P c)"
| "must_see P (Seq a b) = (must_see P a \<or> must_see P b)"
| "must_see P (Alt a b) = (must_see P a \<and> must_see P b)"
| "must_see P (Cap k a) = must_see P a"
| "must_see P _ = False"

lemma rmatch_absent: "must_see P r \<Longrightarrow> \<forall>c \<in> set s. \<not> P c \<Longrightarrow> rmatch r s i c = []"
  by (induction r arbitrary: i c) auto

lemma regex_search_absent:
  assumes "must_see P r" and "\<forall>c \<in> set s. \<not> P c"
  shows "regex_search r s = None"
proof -
  have "search_from r s i = None" for i
    by (induction "length s - i" arbitrary: i) (subst search_from.simps; simp add: rmatch_absent [OF assms])+
  then show ?thesis by (simp add: regex_search_def)
qed

lemma run_none: "\<not> (i < length s \<and> P (s ! i)) \<Longrightarrow> run P s i = 0"
  using run_step [of P s i] by (simp split: if_splits)

lemma rmatch_spaces_none: "\<not> (i < length s \<and> isspace (s ! i)) \<Longrightarrow> rmatch Spaces s i c = [(i, c)]"
  by (simp add: Spaces_def rmatch_star_run run_none)

lemma rmatch_spaces_Eol:
  assumes "i < length s" and "\<not> isspace (last s)"
  shows "rmatch (Seq Spaces Eol) s i c = []"
proof -
  have "i + run isspace s i < length s"
  proof (rule ccontr)
    assume "\<not> ?thesis"
    then have "length (takeWhile isspace (drop i s)) = length (drop i s)"
      using run_le [of i s isspace] assms(1) by (simp add: run_def)
    then have "takeWhile isspace (drop i s) = drop i s" by (metis takeWhile_eq_take take_all order_refl)
    then have "\<forall>c \<in> set (drop i s). isspace c" by (metis set_takeWhileD)
    moreover have "last s \<in> set (drop i s)" using assms(1) last_drop [of i s] last_in_set [of "drop i s"] by simp
    ultimately show False using assms(2) by blast
  qed
  then show ?thesis by (auto simp: Spaces_def rmatch_star_run)
qed

section \<open>First matches\<close>

text \<open>
  The rules that run an expression along a given text: the first way through each part, from the
  position where the part before it stopped.
\<close>

definition first_match :: "re \<Rightarrow> string \<Rightarrow> nat \<Rightarrow> caps \<Rightarrow> nat \<times> caps \<Rightarrow> bool" where
  "first_match r s i c y \<longleftrightarrow> (\<exists>zs. rmatch r s i c = y # zs)"

lemma first_match_only: "rmatch r s i c = [y] \<Longrightarrow> first_match r s i c y"
  by (simp add: first_match_def)

lemma first_match_Seq: "first_match a s i c (j, d) \<Longrightarrow> first_match b s j d y \<Longrightarrow> first_match (Seq a b) s i c y"
  unfolding first_match_def using rmatch_Seq_hd by blast

lemma first_match_Cap: "first_match a s i c (j, d) \<Longrightarrow> first_match (Cap k a) s i c (j, (k, i, j) # d)"
  unfolding first_match_def using rmatch_Cap_hd by blast

lemma first_match_Bol: "first_match r s 0 c y \<Longrightarrow> first_match (Seq Bol r) s 0 c y"
  by (rule first_match_Seq [of _ _ _ _ 0 c]) (simp_all add: first_match_only)

lemma run_drop:
  assumes "drop i s = t @ u" and "\<forall>c \<in> set t. P c" and "u = [] \<or> \<not> P (hd u)"
  shows "run P s i = length t"
  using run_prefix [OF assms(2,3), of "[]"] assms(1) by (simp add: run_def)

lemma first_match_Spaces:
  assumes "drop i s = t @ u" and "\<forall>c \<in> set t. isspace c" and "u = [] \<or> \<not> isspace (hd u)"
  shows "first_match Spaces s i c (i + length t, c)"
  unfolding first_match_def Spaces_def run_drop [OF assms, symmetric] by (rule rmatch_star_hd)

lemma first_match_no_space: "drop i s = [] \<or> \<not> isspace (hd (drop i s)) \<Longrightarrow> first_match Spaces s i c (i, c)"
  using first_match_Spaces [of i s "[]" "drop i s" c] by simp

lemma first_match_Plus:
  assumes "drop i s = t @ u" and "t \<noteq> []" and "\<forall>c \<in> set t. P c" and "u = [] \<or> \<not> P (hd u)"
  shows "first_match (Plus (Chr P)) s i c (i + length t, c)"
proof -
  have "run P s i \<noteq> 0" using assms(2) by (simp add: run_drop [OF assms(1,3,4)])
  then have "i < length s" "P (s ! i)" using run_step [of P s i] by (simp_all split: if_splits)
  then show ?thesis unfolding first_match_def run_drop [OF assms(1,3,4), symmetric] by (rule rmatch_plus_hd)
qed

text \<open>A lazy group over the text \<open>t\<close>: the rest of the expression fails inside it and matches behind it.\<close>

lemma first_match_lazy:
  assumes "drop i s = t @ u" and "\<forall>c \<in> set t. P c"
    and "\<And>j. j < length t \<Longrightarrow> rmatch b s (i + j) ((g, i, i + j) # c) = []"
    and "first_match b s (i + length t) ((g, i, i + length t) # c) y"
  shows "first_match (Seq (Cap g (Star False (Chr P))) b) s i c y"
proof -
  have "length t \<le> run P s i" using assms(1,2) by (simp add: run_def)
  with assms(3,4) rmatch_lazy_first [of "length t" b s i g c y] show ?thesis unfolding first_match_def by blast
qed

lemma first_match_search: "first_match r s 0 [] (e, c) \<Longrightarrow> regex_search r s = Some (0, e, c)"
  unfolding first_match_def regex_search_def using search_from_hd by fastforce

end
