(* ===== verification/Fiber_Option.thy ===== *)
theory Fiber_Option
  imports Fiber_Transform Fiber_Regex
begin

text \<open>
  ci/utils/option.h: option values of the configuration. \<open>get_bytes\<close> reads a size with a unit,
  \<open>time_period\<close> a duration in hours, minutes and seconds, \<open>expand\<close> a list of numbers and ranges.
\<close>

section \<open>Values with units\<close>

definition get_value :: "(string \<times> string) list \<Rightarrow> string \<Rightarrow> string \<Rightarrow> string" where
  "get_value options opt def_value = (case map_of options opt of Some v \<Rightarrow> v | None \<Rightarrow> def_value)"

definition re_bytes :: re where
  "re_bytes = Seqs [Spaces, Cap 1 (Plus (Chr isdigit)), Spaces, Opt (Cap 2 (Alt (Lit ''G'') (Alt (Lit ''M'') (Alt (Lit ''K'') (Lit ''B'')))))]"

definition unit_shift :: "string \<Rightarrow> nat" where
  "unit_shift units = (if units = ''G'' then 30 else if units = ''M'' then 20 else if units = ''K'' then 10 else 0)"

definition get_bytes :: "string \<Rightarrow> nat \<Rightarrow> exn + nat" where
  "get_bytes val def_value =
     (if val \<noteq> [] then
        case regex_search re_bytes val of
          Some (b, e, c) \<Rightarrow>
            (case stoul (cap_text val c 1) of
               Inl x \<Rightarrow> Inl x
             | Inr n \<Rightarrow> Inr (unat (push_bit (unit_shift (cap_text val c 2)) (word_of_nat n :: uint64))))
        | None \<Rightarrow> Inr def_value
      else Inr def_value)"

definition get_bytes_option :: "(string \<times> string) list \<Rightarrow> string \<Rightarrow> nat \<Rightarrow> exn + nat" where
  "get_bytes_option options opt def_value = get_bytes (get_value options opt []) def_value"

text \<open>\<open>std::stol\<close> on the digits of a group: the signed 64-bit range.\<close>

definition stol :: "string \<Rightarrow> exn + int" where
  "stol s =
     (let (neg, ds) = stoul_sign (dropWhile isspace (c_str s));
          num = takeWhile isdigit ds
      in if num = [] then Inl StdInvalidArgument
         else let v = (if neg then - int (dec_val num) else int (dec_val num))
              in if - (2 ^ 63) \<le> v \<and> v < 2 ^ 63 then Inr v else Inl StdOutOfRange)"

definition unit_group :: "nat \<Rightarrow> string \<Rightarrow> re" where
  "unit_group k u = Opt (Seqs [Spaces, Cap k (Plus (Chr isdigit)), Spaces, Lit u])"

definition re_period :: re where
  "re_period = Seqs [unit_group 1 ''h'', unit_group 2 ''m'', unit_group 3 ''s'']"

definition period_part :: "string \<Rightarrow> int \<Rightarrow> exn + int" where
  "period_part s k = (if s = [] then Inr 0 else case stol s of Inl x \<Rightarrow> Inl x | Inr v \<Rightarrow> Inr (v * k))"

text \<open>The sum of the three parts is of type \<open>long\<close>: beyond its range it is undefined.\<close>

definition in_long :: "int \<Rightarrow> bool" where
  "in_long v \<longleftrightarrow> - (2 ^ 63) \<le> v \<and> v < 2 ^ 63"

definition time_period :: "string \<Rightarrow> exn + nat" where
  "time_period val =
     (if val \<noteq> [] then
        case regex_search re_period val of
          Some (b, e, c) \<Rightarrow>
            (case (period_part (cap_text val c 1) 3600, period_part (cap_text val c 2) 60, period_part (cap_text val c 3) 1) of
               (Inr h, Inr m, Inr s) \<Rightarrow>
                 if in_long h \<and> in_long m \<and> in_long (h + m) \<and> in_long (h + m + s) then Inr (u64 (h + m + s))
                 else Inl UndefinedBehaviour
             | (Inl x, _, _) \<Rightarrow> Inl x
             | (_, Inl x, _) \<Rightarrow> Inl x
             | (_, _, Inl x) \<Rightarrow> Inl x)
        | None \<Rightarrow> Inr 0
      else Inr 0)"

section \<open>Number lists\<close>

text \<open>The values from \<open>f\<close> up to \<open>t\<close>, counting modulo \<open>2 ^ 64\<close> as \<open>++f\<close> does.\<close>

function range_loop :: "uint64 \<Rightarrow> uint64 \<Rightarrow> uint64 set \<Rightarrow> uint64 set" where
  "range_loop f t res = (if f \<noteq> t then range_loop (f + 1) t (insert f res) else res)"
  by pat_completeness auto
termination
proof (relation "measure (\<lambda>(f, t, res). unat (t - f))", simp)
  fix f t :: uint64 and res :: "uint64 set"
  assume "f \<noteq> t"
  then have "t - f \<noteq> 0" by simp
  moreover from this have "0 < unat (t - f)" by (simp add: unat_gt_0)
  ultimately have "unat (t - f - 1) < unat (t - f)" by (simp add: unat_minus_one)
  then show "((f + 1, t, insert f res), (f, t, res)) \<in> measure (\<lambda>(f, t, res). unat (t - f))"
    by (simp add: algebra_simps)
qed

declare range_loop.simps [simp del]

definition expand_part :: "string \<Rightarrow> uint64 set \<Rightarrow> exn + uint64 set" where
  "expand_part p res =
     (case map_option trim_list (explode ''-'' p (-1)) of
        Some [a] \<Rightarrow> (case stoul a of Inl x \<Rightarrow> Inl x | Inr v \<Rightarrow> Inr (insert (word_of_nat v) res))
      | Some [a, b] \<Rightarrow>
          (case stoul (if b = [] then a else b) of
             Inl x \<Rightarrow> Inl x
           | Inr t \<Rightarrow>
               (case stoul a of
                  Inl x \<Rightarrow> Inl x
                | Inr f \<Rightarrow> Inr (insert (word_of_nat t) (range_loop (word_of_nat f) (word_of_nat t) res))))
      | _ \<Rightarrow> Inr res)"

fun expand_loop :: "string list \<Rightarrow> uint64 set \<Rightarrow> exn + uint64 set" where
  "expand_loop [] res = Inr res"
| "expand_loop (p # ps) res = (case expand_part p res of Inl x \<Rightarrow> Inl x | Inr res' \<Rightarrow> expand_loop ps res')"

definition expand :: "string \<Rightarrow> exn + uint64 set" where
  "expand rng =
     (if rng \<noteq> [] then
        case map_option trim_list (explode '','' rng (-1)) of
          Some chain \<Rightarrow> expand_loop chain {}
        | None \<Rightarrow> Inr {}
      else Inr {})"

section \<open>Sizes with units\<close>

text \<open>A printed number with a unit, and blanks around, is read as that number of bytes, modulo \<open>2 ^ 64\<close>.\<close>

definition unit_text :: "string \<Rightarrow> bool" where
  "unit_text u \<longleftrightarrow> u \<in> {''G'', ''M'', ''K'', ''B''}"

lemma first_match_unit:
  assumes "unit_text u" and "drop i s = u @ t"
  shows "first_match (Opt (Cap 2 (Alt (Lit ''G'') (Alt (Lit ''M'') (Alt (Lit ''K'') (Lit ''B'')))))) s i c (i + 1, (2, i, i + 1) # c)"
proof -
  have "i < length s" "s ! i = hd u"
    using assms by (cases "i < length s"; auto simp: unit_text_def Cons_nth_drop_Suc [symmetric])+
  then show ?thesis using assms(1) by (auto simp: unit_text_def Opt_def first_match_def)
qed

lemma isspace_not_isdigit: "isspace c \<Longrightarrow> \<not> isdigit c"
  using isdigit_not_isspace by blast

lemma unit_text_hd: "unit_text u \<Longrightarrow> \<not> isspace (hd (u @ t)) \<and> \<not> isdigit (hd (u @ t)) \<and> u \<noteq> []"
  by (auto simp: unit_text_def isspace_def isdigit_def)

lemma search_bytes:
  assumes "\<forall>c \<in> set ws. isspace c" and "\<forall>c \<in> set ds. isdigit c" and "ds \<noteq> []"
    and "\<forall>c \<in> set ws'. isspace c" and "unit_text u"
    and s_def: "s = ws @ ds @ ws' @ u @ t"
  shows "\<exists>e c. regex_search re_bytes s = Some (0, e, c) \<and> cap_text s c 1 = ds \<and> cap_text s c 2 = u"
proof -
  let ?i = "length ws" and ?j = "length ws + length ds" and ?k = "length ws + length ds + length ws'"
  note uh = unit_text_hd [OF assms(5), of t]
  have d0: "\<not> isspace (hd ds)" using assms(2,3) isdigit_not_isspace by (cases ds) auto
  have h2: "\<not> isdigit (hd (ws' @ u @ t))" using assms(4) uh isspace_not_isdigit by (cases ws') auto
  have a: "first_match Spaces s 0 [] (?i, [])"
    using first_match_Spaces [of 0 s ws "ds @ ws' @ u @ t"] assms(1,3) d0 by (simp add: s_def)
  have b: "first_match (Plus (Chr isdigit)) s ?i [] (?j, [])"
    using first_match_Plus [of ?i s ds "ws' @ u @ t"] assms(2,3) h2 by (simp add: s_def)
  have c: "first_match Spaces s ?j [(1, ?i, ?j)] (?k, [(1, ?i, ?j)])"
    using first_match_Spaces [of ?j s ws' "u @ t"] assms(4) uh by (auto simp: s_def)
  have "drop ?k s = u @ t" by (simp add: s_def)
  note d = first_match_unit [OF assms(5) this, of "[(1, ?i, ?j)]"]
  have "first_match re_bytes s 0 [] (?k + 1, [(2, ?k, ?k + 1), (1, ?i, ?j)])"
    unfolding re_bytes_def Seqs.simps
    by (rule first_match_Seq [OF a first_match_Seq [OF first_match_Cap [OF b] first_match_Seq [OF c d]]])
  moreover have "length u = 1" using assms(5) by (auto simp: unit_text_def)
  ultimately show ?thesis by (auto simp: cap_text_def s_def dest!: first_match_search)
qed

lemma get_bytes_unit:
  assumes "\<forall>c \<in> set ws. isspace c" and "n < 2 ^ 64" and "\<forall>c \<in> set ws'. isspace c" and "unit_text u"
  shows "get_bytes (ws @ to_string n @ ws' @ u @ t) d = Inr (n * 2 ^ unit_shift u mod 2 ^ 64)"
proof -
  let ?s = "ws @ to_string n @ ws' @ u @ t"
  obtain e c where "regex_search re_bytes ?s = Some (0, e, c)" "cap_text ?s c 1 = to_string n" "cap_text ?s c 2 = u"
    using search_bytes [OF assms(1) to_string_digits [of n] _ assms(3,4) refl, where t = t] by (auto simp del: One_nat_def)
  moreover have "stoul (to_string n) = Inr n" using stoul_to_string [of "[]" n] assms(2) by simp
  moreover have "unat (push_bit k (word_of_nat n :: uint64)) = n * 2 ^ k mod 2 ^ 64" for k
  proof -
    have "push_bit k (word_of_nat n :: uint64) = word_of_nat (n * 2 ^ k)" by (simp add: push_bit_eq_mult)
    also have "unat \<dots> = n * 2 ^ k mod 2 ^ 64" by (simp only: unat_of_nat) simp
    finally show ?thesis .
  qed
  ultimately show ?thesis by (simp add: get_bytes_def del: One_nat_def)
qed

section \<open>Ranges\<close>

lemma range_loop_spec:
  assumes "n = unat (t - f)"
  shows "range_loop f t res = res \<union> (\<lambda>k. f + word_of_nat k) ` {..<n}"
  using assms
proof (induction n arbitrary: f res)
  case 0
  then have "f = t" by (metis eq_iff_diff_eq_0 unat_eq_zero)
  then show ?case by (subst range_loop.simps) simp
next
  case (Suc n)
  then have ne: "t - f \<noteq> 0" by auto
  then have "n = unat (t - (f + 1))" using Suc.prems by (simp add: unat_minus_one diff_diff_eq [symmetric])
  from Suc.IH [OF this] have "range_loop f t res = insert f res \<union> (\<lambda>k. (f + 1) + word_of_nat k) ` {..<n}"
    using ne by (subst range_loop.simps) auto
  also have "\<dots> = res \<union> (\<lambda>k. f + word_of_nat k) ` {..<Suc n}"
    by (simp add: lessThan_Suc_eq_insert_0 image_image algebra_simps)
  finally show ?case .
qed

definition range_text :: "nat \<Rightarrow> nat \<Rightarrow> string" where
  "range_text f t = to_string f @ CHR ''-'' # to_string t"

lemma to_string_no: "\<not> isdigit d \<Longrightarrow> d \<notin> set (to_string n)"
  using to_string_digits [of n] by blast

lemma stoul_digits [simp]: "n < 2 ^ 64 \<Longrightarrow> stoul (to_string n) = Inr n"
  using stoul_to_string [of "[]" n] by simp

lemma hyphen_comma_not_digits [simp]: "\<not> isdigit CHR ''-''" "\<not> isdigit CHR '',''"
  by (simp_all add: isdigit_def)

lemma trim_string_ends:
  assumes "s \<noteq> []" and "\<not> isspace (hd s)" and "\<not> isspace (last s)"
  shows "trim_string s = s"
proof -
  have "dropWhile isspace x = x" if "x \<noteq> []" "\<not> isspace (hd x)" for x :: string
    using that by (cases x) simp_all
  with assms show ?thesis by (simp add: trim_string_def hd_rev)
qed

lemma digit_ends: "\<not> isspace (hd (to_string n))" "\<not> isspace (last (to_string n))"
  using to_string_digits [of n] isdigit_not_isspace by (metis hd_in_set last_in_set to_string_nonempty)+

lemma trim_digits [simp]: "trim_string (to_string n) = to_string n"
  by (rule trim_string_ends) (simp_all add: digit_ends)

lemma expand_range:
  assumes "f \<le> t" and "t < 2 ^ 64"
  shows "expand (range_text f t) = Inr (word_of_nat ` {f..t})"
proof -
  let ?r = "range_text f t"
  have "explode '','' (implode_loop '','' [?r]) (-1) = Some [?r]"
    by (intro explode_implode) (auto simp: range_text_def to_string_no)
  then have chain: "explode '','' ?r (-1) = Some [?r]" by simp
  have "explode ''-'' (implode_loop ''-'' [to_string f, to_string t]) (-1) = Some [to_string f, to_string t]"
    by (intro explode_implode) (auto simp: to_string_no)
  then have parts: "explode ''-'' ?r (-1) = Some [to_string f, to_string t]" by (simp add: range_text_def)
  have trim: "trim_string ?r = ?r"
    by (rule trim_string_ends) (simp_all add: range_text_def digit_ends)
  have n: "unat (word_of_nat t - word_of_nat f :: uint64) = t - f"
  proof -
    have "(word_of_nat t - word_of_nat f :: uint64) = word_of_nat (t - f)" using assms(1) by simp
    then show ?thesis using assms(2) by (simp add: unat_of_nat)
  qed
  have "range_loop (word_of_nat f) (word_of_nat t) {} = (\<lambda>k. word_of_nat (f + k) :: uint64) ` {..<t - f}"
    using range_loop_spec [OF n [symmetric], of "{}"] by simp
  also have "insert (word_of_nat t) \<dots> = word_of_nat ` {f..t}"
  proof -
    have "{f..t} = insert t ((\<lambda>k. f + k) ` {..<t - f})"
    proof (intro set_eqI iffI)
      fix x assume "x \<in> {f..t}"
      then show "x \<in> insert t ((\<lambda>k. f + k) ` {..<t - f})" by (cases "x = t") (auto intro!: image_eqI [of _ _ "x - f"])
    qed (use assms(1) in auto)
    then show ?thesis by (simp add: image_image)
  qed
  finally show ?thesis using assms chain parts trim
    by (simp add: expand_def expand_part_def trim_list_def) (simp add: range_text_def)
qed

end
