(* ===== verification/Fiber_SyncQueue.thy ===== *)
theory Fiber_SyncQueue
  imports Fiber_Interfaces Fiber_Option
begin

text \<open>
  mq/mq-sync/src/sync-queue.cpp and sync-queue.h: \<open>SyncQueueHandler\<close>, the queue between the clients
  that \<open>PUT\<close> a request and wait for its answer, and the workers that \<open>GET\<close> the oldest request and
  \<open>POST\<close> the answer.

  The handler keeps the identifiers in arrival order (\<open>mq_queue\<close>), those handed to a worker
  (\<open>mq_locked\<close>) and the waiting requests by identifier (\<open>mq_messages\<close>). Each block under the mutex is
  a definition of its own (\<open>get_section\<close>, \<open>post_find\<close>, \<open>post_erase\<close>, \<open>put_section\<close>, \<open>head_section\<close>,
  \<open>GetStats\<close>); the operations compose them with calls of the \<open>IRequest\<close> interface, which they take as
  an argument, as the module does.
\<close>

section \<open>State and critical sections\<close>

record sync_queue =
  mq_queue :: "uint64 list"
  mq_locked :: "uint64 list"
  mq_messages :: "(uint64, reqref) umap"
  LimitTasks :: nat
  LimitSize :: nat
  LimitPeriodSec :: nat
  mq_name :: string

abbreviation msg_find :: "(uint64, reqref) umap \<Rightarrow> uint64 \<Rightarrow> reqref option" where
  "msg_find \<equiv> umap_find (\<lambda>k. k) (=)"

definition uset_emplace :: "'a \<Rightarrow> 'a list \<Rightarrow> 'a list" where
  "uset_emplace x xs = (if x \<in> set xs then xs else xs @ [x])"

definition query :: "'w irequest \<Rightarrow> reqref \<Rightarrow> reqref option" where
  "query R r = (if rq_query R r then Some r else None)"

definition GetStats :: "sync_queue \<Rightarrow> nat \<times> nat \<times> nat" where
  "GetStats q = (length (mq_queue q), length (mq_locked q), length (mq_messages q))"

definition get_section :: "'w irequest \<Rightarrow> (sync_queue, uint64 \<times> reqref option) act" where
  "get_section R q =
     (case mq_queue q of
        [] \<Rightarrow> (Inr (0, None), q)
      | muid # rest \<Rightarrow>
          let q = q\<lparr>mq_queue := rest, mq_locked := uset_emplace muid (mq_locked q)\<rparr>
          in case msg_find (mq_messages q) muid of
               None \<Rightarrow> (Inl StdOutOfRange, q)
             | Some r \<Rightarrow> (Inr (muid, query R r), q))"

definition post_find :: "'w irequest \<Rightarrow> uint64 \<Rightarrow> (sync_queue, reqref option) act" where
  "post_find R xid q = (Inr (Option.bind (msg_find (mq_messages q) xid) (query R)), q)"

definition post_erase :: "uint64 \<Rightarrow> (sync_queue, unit) act" where
  "post_erase xid q =
     (Inr (), q\<lparr>mq_messages := umap_erase (\<lambda>k. k) (=) (mq_messages q) xid, mq_locked := removeAll xid (mq_locked q)\<rparr>)"

definition put_section :: "uint64 \<Rightarrow> reqref \<Rightarrow> (sync_queue, bool) act" where
  "put_section mid r q =
     (if LimitSize q = 0 \<or> length (mq_queue q) < LimitSize q then
        let q = q\<lparr>mq_queue := mq_queue q @ [mid]\<rparr>;
            (m, inserted) = umap_emplace (\<lambda>k. k) (=) (mq_messages q) mid r
        in (Inr inserted, q\<lparr>mq_messages := m\<rparr>)
      else (Inr False, q))"

definition head_section :: "(sync_queue, uint64) act" where
  "head_section q = (Inr (case mq_queue q of [] \<Rightarrow> 0 | m # _ \<Rightarrow> m), q)"

section \<open>Replies\<close>

definition mq_reply ::
    "sync_queue \<Rightarrow> nat \<Rightarrow> string \<Rightarrow> (string \<times> nat) option \<Rightarrow> nat \<Rightarrow> (string \<times> hval) list \<Rightarrow> string \<Rightarrow> reply_args" where
  "mq_reply q cd msg content len headers ContentType =
     (let (QueueCount, LockedCount, MessagesCount) = GetStats q
      in \<lparr>rCode = cd, rMessage = Some msg, rContent = content, rContentLength = len,
          rHeaders = headers @
            [(''X-MQ-CLASS'', Live ''Sync.MQ.Queue''),
             (''X-MQ-QUEUE-COUNT'', Dangling (to_string QueueCount)),
             (''X-MQ-PENDING-COUNT'', Dangling (to_string LockedCount)),
             (''X-MQ-MESSAGES-COUNT'', Dangling (to_string MessagesCount))] @
            (if ContentType \<noteq> [] then [(''Content-Type'', Live ContentType)] else []),
          rClose = True\<rparr>)"

definition body_ptr :: "zcstring \<Rightarrow> (string \<times> nat) option" where
  "body_ptr Body = map_option (\<lambda>blk. (blk, nat (zbegin Body))) (zblock Body)"

definition ReplyWithCode ::
    "'w irequest \<Rightarrow> reqref \<Rightarrow> nat \<Rightarrow> string \<Rightarrow> zcstring \<Rightarrow> (string \<times> hval) list \<Rightarrow> string \<Rightarrow>
     (sync_queue \<times> 'w, bool) act" where
  "ReplyWithCode R unknown cd msg Body headers ContentType s =
     (if rq_query R unknown then
        on_snd (rq_reply R unknown
          (mq_reply (fst s) cd msg (body_ptr Body) (zlength Body) headers ContentType)) s
      else (Inr False, s))"

definition ReplyWithCode_string ::
    "'w irequest \<Rightarrow> reqref \<Rightarrow> nat \<Rightarrow> string \<Rightarrow> string \<Rightarrow> (string \<times> hval) list \<Rightarrow> string \<Rightarrow>
     (sync_queue \<times> 'w, bool) act" where
  "ReplyWithCode_string R unknown cd msg Body headers ContentType s =
     (if rq_query R unknown then
        on_snd (rq_reply R unknown
          (mq_reply (fst s) cd msg (Some (Body @ [NUL], 0)) (length Body) headers ContentType)) s
      else (Inr False, s))"

section \<open>Operations\<close>

definition header_of :: "'w irequest \<Rightarrow> reqref \<Rightarrow> string \<Rightarrow> string option \<Rightarrow> (sync_queue \<times> 'w, zcstring) act" where
  "header_of R r k d = on_snd (\<lambda>w. case rq_header R r k d w of (v, w) \<Rightarrow> (Inr v, w))"

definition content_of :: "'w irequest \<Rightarrow> reqref \<Rightarrow> (sync_queue \<times> 'w, zcstring) act" where
  "content_of R r = on_snd (\<lambda>w. (Inr (rq_content R w r), w))"

definition msgid_of :: "'w irequest \<Rightarrow> reqref \<Rightarrow> (sync_queue \<times> 'w, uint64) act" where
  "msgid_of R r = on_snd (\<lambda>w. (Inr (rq_msgid R w r), w))"

definition telemetry_of :: "'w irequest \<Rightarrow> reqref \<Rightarrow> tele_option \<Rightarrow> (sync_queue \<times> 'w, unit) act" where
  "telemetry_of R r t = on_snd (\<lambda>w. (Inr (), rq_telemetry R r t w))"

text \<open>An operation whose result the caller ignores, and a check that the argument is a request.\<close>

definition ignoring :: "('s, 'a) act \<Rightarrow> ('s, unit) act" where
  "ignoring m = mbind m (\<lambda>_. mret ())"

definition with_request :: "'w irequest \<Rightarrow> reqref \<Rightarrow> ('s, unit) act \<Rightarrow> ('s, unit) act" where
  "with_request R unknown m =
     (if rq_query R unknown then m else mthrow (StdRuntimeError ''IRequest not implemented''))"

text \<open>\<open>ReplyWithCode(to, 200, "OK", from->GetContent(), forward id, content type of from)\<close>.\<close>

definition forward :: "'w irequest \<Rightarrow> reqref \<Rightarrow> reqref \<Rightarrow> uint64 \<Rightarrow> (sync_queue \<times> 'w, bool) act" where
  "forward R to frm uid =
     mbind (header_of R frm ''Content-Type'' (Some ''application/json'')) (\<lambda>ct.
     mbind (mlift (zstr ct)) (\<lambda>ContentType.
     mbind (content_of R frm) (\<lambda>Body.
     ReplyWithCode R to 200 ''OK'' Body [(''X-MSG-FORWARD-UID'', Live (to_string (unat uid)))] ContentType)))"

definition Get :: "'w irequest \<Rightarrow> reqref \<Rightarrow> (sync_queue \<times> 'w, unit) act" where
  "Get R unknown = with_request R unknown (
     mbind (on_fst (get_section R)) (\<lambda>(muid, xrequest).
       case xrequest of
         Some x \<Rightarrow>
           mbind (telemetry_of R x EmplaceAt) (\<lambda>_.
           ignoring (forward R unknown x muid))
       | None \<Rightarrow> ignoring (ReplyWithCode_string R unknown 204 ''Queue is empty'' [] [] [])))"

definition post_answer :: "'w irequest \<Rightarrow> reqref \<Rightarrow> reqref \<Rightarrow> uint64 \<Rightarrow> (sync_queue \<times> 'w, unit) act" where
  "post_answer R unknown x xid =
     mbind (telemetry_of R x ExtractAt) (\<lambda>_.
     mbind (msgid_of R unknown) (\<lambda>mid.
     mbind (forward R x unknown mid) (\<lambda>sent.
       if sent then
         mbind (on_fst (post_erase xid)) (\<lambda>_. ignoring (ReplyWithCode_string R unknown 200 ''OK'' [] [] []))
       else ignoring (ReplyWithCode_string R unknown 499 ''Unable to sent client response'' [] [] []))))"

definition Post :: "'w irequest \<Rightarrow> reqref \<Rightarrow> (sync_queue \<times> 'w, unit) act" where
  "Post R unknown = with_request R unknown (
     mbind (header_of R unknown ''X-MSG-FORWARD-UID'' None) (\<lambda>x_mid.
       if \<not> zempty x_mid then
         mcatch_std (
           mbind (mlift (zstr x_mid)) (\<lambda>text.
           mbind (mlift (stoul text)) (\<lambda>n.
           let xid = word_of_nat n in
           mbind (on_fst (post_find R xid)) (\<lambda>xrequest.
             case xrequest of
               Some x \<Rightarrow> post_answer R unknown x xid
             | None \<Rightarrow> ignoring (ReplyWithCode_string R unknown 300 ''Multiple Replays. Reply Ignored.'' [] [] [])))))
           (\<lambda>_. ignoring (ReplyWithCode_string R unknown 400
                  ''Bad Request. Invalid `X-MSG-FORWARD-UID` header'' [] [] []))
       else ignoring (ReplyWithCode_string R unknown 400
              ''Bad Request. Header `X-MSG-FORWARD-UID` not found'' [] [] [])))"

definition Put :: "'w irequest \<Rightarrow> reqref \<Rightarrow> (sync_queue \<times> 'w, unit) act" where
  "Put R unknown = with_request R unknown (
     mbind (msgid_of R unknown) (\<lambda>mid.
     mbind (on_fst (put_section mid unknown)) (\<lambda>inserted.
       if inserted then mret ()
       else (\<lambda>s. ignoring (ReplyWithCode_string R unknown 507 ''Insufficient Storage'' []
                   [(''X-MQ-QUEUE-LIMIT'', Live (to_string (LimitSize (fst s))))] []) s))))"

definition HeadMsg :: "'w irequest \<Rightarrow> reqref \<Rightarrow> (sync_queue \<times> 'w, unit) act" where
  "HeadMsg R unknown =
     mbind (on_fst head_section) (\<lambda>mid.
       if mid \<noteq> 0 then
         ignoring (ReplyWithCode_string R unknown 200 ''OK'' [] [(''X-MSG-HEAD-UID'', Live (to_string (unat mid)))] [])
       else ignoring (ReplyWithCode_string R unknown 204 ''Queue is empty'' [] [] []))"

definition options_help :: string where
  "options_help =
     ''<GET> - Get message from queue head'' @ [LF] @
     ''<PUT> - Emplace message in queue tail.'' @ [LF] @
     ''<POST> - Push message reply with specific ID (X-MQ-MESSAGE-ID header option must be specified)'' @ [LF] @
     ''<HEAD> - Check queue status. Reply header option contain X-MQ-QUEUE-SIZE - number of queue messages, X-MQ-QUEUE-LOCKED - number of locked (in progress) messages'' @ [LF] @
     ''<OPTIONS> - Supported metods and this help''"

definition Options :: "'w irequest \<Rightarrow> reqref \<Rightarrow> (sync_queue \<times> 'w, unit) act" where
  "Options R unknown = ignoring (ReplyWithCode_string R unknown 200 ''OK'' options_help [] ''text/plain'')"

definition not_allowed :: "'w irequest \<Rightarrow> reqref \<Rightarrow> string \<Rightarrow> string \<Rightarrow> (sync_queue \<times> 'w, unit) act" where
  "not_allowed R unknown meth allowed =
     ignoring (ReplyWithCode_string R unknown 405 (''Method '' @ meth @ '' Not Allowed'') []
       [(''Access-Control-Allow-Methods'', Live allowed), (''Allow'', Live allowed)] [])"

definition Delete :: "'w irequest \<Rightarrow> reqref \<Rightarrow> (sync_queue \<times> 'w, unit) act" where
  "Delete R unknown = not_allowed R unknown ''DELETE'' ''PUT,GET,POST,HEAD,OPTIONS''"

definition Trace :: "'w irequest \<Rightarrow> reqref \<Rightarrow> (sync_queue \<times> 'w, unit) act" where
  "Trace R unknown = not_allowed R unknown ''TRACE'' ''PUT''"

definition Connect :: "'w irequest \<Rightarrow> reqref \<Rightarrow> (sync_queue \<times> 'w, unit) act" where
  "Connect R unknown = not_allowed R unknown ''CONNECT'' ''PUT,GET,POST,HEAD,OPTIONS''"

definition Patch :: "'w irequest \<Rightarrow> reqref \<Rightarrow> (sync_queue \<times> 'w, unit) act" where
  "Patch R unknown = not_allowed R unknown ''PATCH'' ''PUT,GET,POST,HEAD,OPTIONS''"

definition SyncQueueHandler :: "'w irequest \<Rightarrow> (sync_queue \<times> 'w) imq" where
  "SyncQueueHandler R =
     \<lparr>mq_Get = Get R, mq_Post = Post R, mq_Put = Put R, mq_Head = HeadMsg R, mq_Options = Options R,
      mq_Delete = Delete R, mq_Trace = Trace R, mq_Connect = Connect R, mq_Patch = Patch R\<rparr>"

section \<open>Saving and restoring\<close>

text \<open>
  The storage is an object of the kernel with the \<open>ISerialize\<close> interface: \<open>None\<close> when the kernel does not
  offer it. (That of \<open>Kernel\<close> prints what it is given and has no record to read.) \<open>Serialize\<close> gives the records it
  writes; \<open>UnSerialize\<close> reads the records of both keys (given as the lists the calls of \<open>Read\<close> return
  one by one), frees them, and returns the number it logs.
\<close>

definition Serialize :: "bool \<Rightarrow> sync_queue \<Rightarrow> (string \<times> string \<times> string) list" where
  "Serialize serialize q =
     (if serialize then
        map (\<lambda>mid. (mq_name q @ ''.locked'', ''id'', to_string (unat mid))) (mq_locked q) @
        map (\<lambda>mid. (mq_name q @ ''.message'', ''id'', to_string (unat (fst mid)))) (mq_messages q)
      else [])"

fun read_all :: "nat \<Rightarrow> (string \<times> string \<times> string) list \<Rightarrow> nat" where
  "read_all nCount [] = nCount"
| "read_all nCount (_ # recs) = read_all (Suc nCount) recs"

definition UnSerialize :: "(string \<times> string \<times> string) list option \<Rightarrow> (sync_queue, nat) act" where
  "UnSerialize serialize q =
     (case serialize of
        Some recs \<Rightarrow> (Inr (read_all 0 (filter (\<lambda>x. fst x = mq_name q @ ''.message'') recs)), q)
      | None \<Rightarrow> (Inr 0, q))"

text \<open>The module's name and version, and its end: \<open>Finalize\<close>, which the destructor calls as well, writes the records.\<close>

definition GetInfo :: "string \<times> string" where
  "GetInfo = (''Sync.MQ.Queue'', ''0.0.1'')"

definition Finalize :: "bool \<Rightarrow> sync_queue \<Rightarrow> (string \<times> string \<times> string) list" where
  "Finalize serialize q = Serialize serialize q"

lemma read_all_length: "read_all n recs = n + length recs"
  by (induction n recs rule: read_all.induct) simp_all

text \<open>
  A queue of the same name that reads what another one wrote at its end counts the other's waiting requests
  and restores none of them: a request waiting at a restart is lost.
\<close>

lemma UnSerialize_Finalize:
  assumes "mq_name q' = mq_name q"
  shows "UnSerialize (Some (Finalize True q)) q' = (Inr (length (mq_messages q)), q')"
  using assms by (simp add: UnSerialize_def Finalize_def Serialize_def read_all_length filter_map o_def)

section \<open>Initialisation\<close>

text \<open>
  \<open>pIKernel\<close> and \<open>pIConfig\<close> say whether the two objects answer \<open>QueryInterface\<close>; \<open>pIConfig\<close> is then the function
  \<open>GetConfigValue\<close>. Without it the limits keep what the freshly allocated object holds.
\<close>

definition limit_option :: "(string \<Rightarrow> string \<Rightarrow> string) \<Rightarrow> string \<Rightarrow> nat" where
  "limit_option GetConfigValue name =
     (case stol (GetConfigValue name ''0'') of Inl _ \<Rightarrow> 0 | Inr v \<Rightarrow> u64 v)"

definition Initialize ::
    "string \<Rightarrow> bool \<Rightarrow> (string \<Rightarrow> string \<Rightarrow> string) option \<Rightarrow> (string \<times> string \<times> string) list option \<Rightarrow> (sync_queue, bool) act" where
  "Initialize Name pIKernel pIConfig serialize q =
     (let q = q\<lparr>mq_name := Name\<rparr> in
      if pIKernel then
        case pIConfig of
          None \<Rightarrow> (Inr True, snd (UnSerialize serialize q))
        | Some GetConfigValue \<Rightarrow>
            (case time_period (GetConfigValue ''queue-limit-request'' ''0s'') of
               Inl x \<Rightarrow> (Inl x, q)
             | Inr period \<Rightarrow>
                 let q = q\<lparr>LimitPeriodSec := period, LimitSize := limit_option GetConfigValue ''queue-limit-size'',
                           LimitTasks := limit_option GetConfigValue ''queue-limit-tasks''\<rparr>
                 in (Inr True, snd (UnSerialize serialize q)))
      else (Inr False, q))"

section \<open>Invariants\<close>

text \<open>
  \<open>sq_inv\<close> holds whatever the clients do: a waiting request is in the queue or in a worker's hands,
  and the queue is within its limit. \<open>sq_exact\<close> is the intended state: in addition every queued or
  locked identifier has its request, and no identifier is in two places.
\<close>

definition sq_inv :: "sync_queue \<Rightarrow> bool" where
  "sq_inv q \<longleftrightarrow>
     distinct (map fst (mq_messages q)) \<and> distinct (mq_locked q) \<and>
     fst ` set (mq_messages q) \<subseteq> set (mq_queue q) \<union> set (mq_locked q) \<and>
     (LimitSize q \<noteq> 0 \<longrightarrow> length (mq_queue q) \<le> LimitSize q)"

definition sq_exact :: "sync_queue \<Rightarrow> bool" where
  "sq_exact q \<longleftrightarrow>
     sq_inv q \<and> distinct (mq_queue q) \<and> set (mq_queue q) \<inter> set (mq_locked q) = {} \<and>
     set (mq_queue q) \<union> set (mq_locked q) \<subseteq> fst ` set (mq_messages q)"

lemma set_uset_emplace [simp]: "set (uset_emplace x xs) = insert x (set xs)"
  by (auto simp: uset_emplace_def)

lemma distinct_uset_emplace [simp]: "distinct (uset_emplace x xs) = distinct xs"
  by (auto simp: uset_emplace_def)

lemma fst_umap_emplace: "fst (umap_emplace (\<lambda>k. k) (=) m k v) = (if map_of m k = None then m @ [(k, v)] else m)"
  by (simp add: umap_emplace_def umap_find_plain split: option.split)

lemma snd_umap_emplace: "snd (umap_emplace (\<lambda>k. k) (=) m k v) \<longleftrightarrow> map_of m k = None"
  by (simp add: umap_emplace_def umap_find_plain split: option.split)

lemmas section_defs = get_section_def post_find_def post_erase_def put_section_def head_section_def

lemma get_section_inv: "sq_inv q \<Longrightarrow> sq_inv (snd (get_section R q))"
  by (auto simp: get_section_def sq_inv_def Let_def split: list.split option.split)

lemma post_erase_inv: "sq_inv q \<Longrightarrow> sq_inv (snd (post_erase xid q))"
  by (auto simp: post_erase_def sq_inv_def umap_erase_plain distinct_map_filter distinct_removeAll image_iff)

lemma put_section_eq:
  "put_section mid r q =
     (if LimitSize q = 0 \<or> length (mq_queue q) < LimitSize q then
        (Inr (map_of (mq_messages q) mid = None),
         q\<lparr>mq_queue := mq_queue q @ [mid],
           mq_messages := if map_of (mq_messages q) mid = None then mq_messages q @ [(mid, r)] else mq_messages q\<rparr>)
      else (Inr False, q))"
  by (simp add: put_section_def Let_def split_beta fst_umap_emplace snd_umap_emplace)

lemma put_section_inv: "sq_inv q \<Longrightarrow> sq_inv (snd (put_section mid r q))"
  by (auto simp: put_section_eq sq_inv_def map_of_eq_None_iff)

lemma get_section_exact:
  assumes "sq_exact q"
  shows "sq_exact (snd (get_section R q)) \<and>
    fst (get_section R q) =
      Inr (case mq_queue q of [] \<Rightarrow> (0, None) | m # _ \<Rightarrow> (m, Option.bind (map_of (mq_messages q) m) (query R)))"
proof (cases "mq_queue q")
  case Nil
  then show ?thesis using assms by (simp add: get_section_def)
next
  case (Cons m ms)
  with assms have "m \<in> fst ` set (mq_messages q)" by (auto simp: sq_exact_def)
  then obtain r where "map_of (mq_messages q) m = Some r" by (metis map_of_eq_None_iff not_None_eq)
  with Cons assms show ?thesis
    by (auto simp: get_section_def sq_exact_def sq_inv_def umap_find_plain Let_def)
qed

lemma put_section_exact:
  "sq_exact q \<Longrightarrow> map_of (mq_messages q) mid = None \<Longrightarrow> sq_exact (snd (put_section mid r q))"
  by (auto simp: put_section_eq sq_exact_def sq_inv_def map_of_eq_None_iff)

lemma keys_umap_erase: "fst ` set (umap_erase (\<lambda>k. k) (=) m xid) = fst ` set m - {xid}"
  by (force simp: umap_erase_plain)

lemma post_erase_exact:
  "sq_exact q \<Longrightarrow> xid \<notin> set (mq_queue q) \<Longrightarrow> sq_exact (snd (post_erase xid q))"
  using post_erase_inv [of q xid] by (auto simp: sq_exact_def post_erase_def keys_umap_erase)

text \<open>A new handler: whatever its uninitialised limits, it starts in the invariant and keeps it when initialised.\<close>

definition new_queue :: "nat \<Rightarrow> nat \<Rightarrow> nat \<Rightarrow> sync_queue" where
  "new_queue lt ls lp =
     \<lparr>mq_queue = [], mq_locked = [], mq_messages = [], LimitTasks = lt, LimitSize = ls, LimitPeriodSec = lp, mq_name = []\<rparr>"

lemma Initialize_exact:
  "sq_exact (snd (Initialize Name k cfg ser (new_queue lt ls lp)))"
  by (auto simp: Initialize_def new_queue_def sq_exact_def sq_inv_def UnSerialize_def Let_def
      split: option.split sum.split)

section \<open>Every operation preserves the invariant\<close>

lemma keeps_ignoring [keeps_intros]: "keeps P m \<Longrightarrow> keeps P (ignoring m)"
  unfolding ignoring_def by (intro keeps_intros)

lemma keeps_with_request [keeps_intros]: "keeps P m \<Longrightarrow> keeps P (with_request R u m)"
  unfolding with_request_def by (intro keeps_intros)

lemma keeps_world_access [keeps_intros]:
  "keeps P (header_of R r k d)" "keeps P (content_of R r)" "keeps P (msgid_of R r)" "keeps P (telemetry_of R r t)"
  unfolding header_of_def content_of_def msgid_of_def telemetry_of_def by (intro keeps_intros)+

lemma fst_on_snd [simp]: "fst (snd (on_snd m s)) = fst s"
  by (simp add: on_snd_def split_beta)

lemma keeps_reply [keeps_intros]:
  "keeps P (ReplyWithCode R u c m b hs ct)" "keeps P (ReplyWithCode_string R u c m b' hs ct)"
  by (simp_all add: keeps_def ReplyWithCode_def ReplyWithCode_string_def)

lemma keeps_forward [keeps_intros]: "keeps P (forward R to frm uid)"
  unfolding forward_def by (intro keeps_intros)

lemma keeps_sections [keeps_intros]:
  "keeps sq_inv (on_fst (get_section R))" "keeps sq_inv (on_fst (post_erase xid))"
  "keeps sq_inv (on_fst (put_section mid r))" "keeps P (on_fst (post_find R xid))" "keeps P (on_fst head_section)"
  by (auto intro!: keeps_on_fst get_section_inv post_erase_inv put_section_inv simp: post_find_def head_section_def)

lemma Get_keeps: "keeps sq_inv (Get R u)"
  unfolding Get_def split_beta by (intro keeps_intros)

lemma Post_keeps: "keeps sq_inv (Post R u)"
  unfolding Post_def post_answer_def Let_def by (intro keeps_intros)

lemma Put_keeps: "keeps sq_inv (Put R u)"
proof -
  have "keeps P (\<lambda>s. ignoring (ReplyWithCode_string R u c m b (hs s) ct) s)" for P c m b hs ct
    by (rule keeps_state) (intro keeps_intros)
  then show ?thesis unfolding Put_def by (intro keeps_intros)
qed

lemma status_ops_keep:
  "keeps P (HeadMsg R u)" "keeps P (Options R u)" "keeps P (Delete R u)" "keeps P (Trace R u)"
  "keeps P (Connect R u)" "keeps P (Patch R u)"
  unfolding HeadMsg_def Options_def Delete_def Trace_def Connect_def Patch_def not_allowed_def
  by (intro keeps_intros)+

interpretation sync_queue: imq_module "SyncQueueHandler R" sq_inv for R
  by unfold_locales (simp_all add: SyncQueueHandler_def Get_keeps Post_keeps Put_keeps status_ops_keep)

section \<open>What each operation does\<close>

lemmas run_defs = mbind_def mret_def mthrow_def mlift_def mcatch_std_def on_fst_def on_snd_def ignoring_def
  with_request_def header_of_def content_of_def msgid_of_def telemetry_of_def

definition as_unit :: "(exn + 'a) \<times> 's \<Rightarrow> (exn + unit) \<times> 's" where
  "as_unit r = (case r of (Inl x, s) \<Rightarrow> (Inl x, s) | (Inr _, s) \<Rightarrow> (Inr (), s))"

lemma ignoring_eq: "ignoring m s = as_unit (m s)"
  by (auto simp: ignoring_def mbind_def mret_def as_unit_def split: prod.split sum.split)

text \<open>The reply that carries the content of a request to the other side.\<close>

definition forward_reply :: "'w irequest \<Rightarrow> sync_queue \<Rightarrow> 'w \<Rightarrow> reqref \<Rightarrow> uint64 \<Rightarrow> string \<Rightarrow> reply_args" where
  "forward_reply R q w frm uid ct =
     mq_reply q 200 ''OK'' (body_ptr (rq_content R w frm)) (zlength (rq_content R w frm))
       [(''X-MSG-FORWARD-UID'', Live (to_string (unat uid)))] ct"

lemma forward_eq:
  assumes "rq_header R frm ''Content-Type'' (Some ''application/json'') w = (z, w')" and "zstr z = Inr ct" and "rq_query R to"
  shows "forward R to frm uid (q, w) = on_snd (rq_reply R to (forward_reply R q w' frm uid ct)) (q, w')"
  using assms by (simp add: forward_def run_defs ReplyWithCode_def forward_reply_def)

lemma Get_empty:
  assumes "rq_query R u" and "mq_queue q = []"
  shows "Get R u (q, w) = as_unit (on_snd (rq_reply R u (mq_reply q 204 ''Queue is empty'' (Some ([NUL], 0)) 0 [] [])) (q, w))"
  using assms by (simp add: Get_def with_request_def mbind_def on_fst_def get_section_def ignoring_eq ReplyWithCode_string_def)

lemma Get_oldest:
  assumes "rq_query R u" and "mq_queue q = m # ms" and "map_of (mq_messages q) m = Some r" and "rq_query R r"
    and "rq_header R r ''Content-Type'' (Some ''application/json'') (rq_telemetry R r EmplaceAt w) = (z, w')"
    and "zstr z = Inr ct"
  shows "Get R u (q, w) =
    (let q' = q\<lparr>mq_queue := ms, mq_locked := uset_emplace m (mq_locked q)\<rparr>
     in as_unit (on_snd (rq_reply R u (forward_reply R q' w' r m ct)) (q', w')))"
  using assms
  by (simp add: Get_def with_request_def mbind_def on_fst_def get_section_def umap_find_plain query_def
      telemetry_of_def on_snd_def ignoring_eq forward_eq [unfolded on_snd_def] Let_def)

lemma Put_admitted:
  assumes "rq_query R u" and "LimitSize q = 0 \<or> length (mq_queue q) < LimitSize q"
    and "map_of (mq_messages q) (rq_msgid R w u) = None"
  shows "Put R u (q, w) =
    (Inr (), q\<lparr>mq_queue := mq_queue q @ [rq_msgid R w u], mq_messages := mq_messages q @ [(rq_msgid R w u, u)]\<rparr>, w)"
  using assms by (simp add: Put_def run_defs put_section_eq)

lemma Put_full:
  assumes "rq_query R u" and "LimitSize q \<noteq> 0" and "LimitSize q \<le> length (mq_queue q)"
  shows "Put R u (q, w) =
    as_unit (on_snd (rq_reply R u (mq_reply q 507 ''Insufficient Storage'' (Some ([NUL], 0)) 0
      [(''X-MQ-QUEUE-LIMIT'', Live (to_string (LimitSize q)))] [])) (q, w))"
  using assms
  by (simp add: Put_def with_request_def mbind_def msgid_of_def on_fst_def put_section_eq on_snd_def ignoring_eq
      ReplyWithCode_string_def)

text \<open>
  The forward identifier of a \<open>POST\<close>: the header option parsed by \<open>std::stoul\<close>. What the worker was told in
  the answer to its \<open>GET\<close> names the message, since \<open>stoul\<close> skips white space (the blank after the colon is part
  of a header value) and reads back what \<open>to_string\<close> printed.
\<close>

definition names_message :: "zcstring \<Rightarrow> uint64 \<Rightarrow> bool" where
  "names_message z m \<longleftrightarrow>
     zwf z \<and> (case stoul (zbytes z) of Inl _ \<Rightarrow> False | Inr n \<Rightarrow> word_of_nat n = m)"

lemma stoul_Nil: "\<exists>x. stoul [] = Inl x"
  by (simp add: stoul_def c_str_def Let_def stoul_sign_def)

lemma names_message_parse:
  assumes "names_message z m"
  shows "\<not> zempty z" "zstr z = Inr (zbytes z)" "\<exists>n. stoul (zbytes z) = Inr n \<and> word_of_nat n = m"
  using assms stoul_Nil by (auto simp: names_message_def zempty_iff split: sum.splits)

lemma stoul_printed:
  assumes "dropWhile isspace s = to_string (unat (m :: uint64))"
  shows "stoul s = Inr (unat m)"
proof -
  let ?ws = "takeWhile isspace s"
  have s: "s = ?ws @ to_string (unat m)" using assms takeWhile_dropWhile_id [of isspace s] by simp
  have "unat m < 2 ^ 64" by (rule order_less_le_trans [OF unsigned_less]) simp
  moreover have "\<forall>c \<in> set ?ws. isspace c" by (auto dest: set_takeWhileD)
  ultimately have "stoul (?ws @ to_string (unat m)) = Inr (unat m)" by (intro stoul_to_string)
  with s show ?thesis by metis
qed

lemma names_message_printed: "zwf z \<Longrightarrow> dropWhile isspace (zbytes z) = to_string (unat m) \<Longrightarrow> names_message z m"
  by (simp add: names_message_def stoul_printed)

lemma Post_answers:
  assumes "rq_query R u" and "rq_header R u ''X-MSG-FORWARD-UID'' None w = (z, w1)" and "names_message z m"
    and "map_of (mq_messages q) m = Some r" and "rq_query R r"
    and "rq_header R u ''Content-Type'' (Some ''application/json'') (rq_telemetry R r ExtractAt w1) = (c, w2)"
    and "zstr c = Inr ct"
    and "rq_reply R r (forward_reply R q w2 u (rq_msgid R (rq_telemetry R r ExtractAt w1) u) ct) w2 = (Inr True, w3)"
    and "rq_reply R u (mq_reply (snd (post_erase m q)) 200 ''OK'' (Some ([NUL], 0)) 0 [] []) w3 = (Inr True, w4)"
  shows "Post R u (q, w) = (Inr (), snd (post_erase m q), w4)"
  using assms names_message_parse(1,2) [OF assms(3)] names_message_parse(3) [OF assms(3)]
  by (elim exE conjE) (simp add: Post_def with_request_def mbind_def header_of_def on_snd_def mcatch_std_def mlift_def on_fst_def
      post_find_def umap_find_plain query_def post_answer_def telemetry_of_def msgid_of_def
      forward_eq [unfolded on_snd_def] ignoring_eq ReplyWithCode_string_def as_unit_def post_erase_def Let_def)

text \<open>When the client's connection fails, the exception leaves \<open>Post\<close>: nothing is erased.\<close>

lemma Post_client_gone:
  assumes "rq_query R u" and "rq_header R u ''X-MSG-FORWARD-UID'' None w = (z, w1)" and "names_message z m"
    and "map_of (mq_messages q) m = Some r" and "rq_query R r"
    and "rq_header R u ''Content-Type'' (Some ''application/json'') (rq_telemetry R r ExtractAt w1) = (c, w2)"
    and "zstr c = Inr ct"
    and "rq_reply R r (forward_reply R q w2 u (rq_msgid R (rq_telemetry R r ExtractAt w1) u) ct) w2 = (Inl x, w3)"
    and "\<not> is_std_exception x"
  shows "Post R u (q, w) = (Inl x, q, w3)"
  using assms names_message_parse(1,2) [OF assms(3)] names_message_parse(3) [OF assms(3)]
  by (elim exE conjE) (simp add: Post_def with_request_def mbind_def header_of_def on_snd_def mcatch_std_def mlift_def on_fst_def
      post_find_def umap_find_plain query_def post_answer_def telemetry_of_def msgid_of_def
      forward_eq [unfolded on_snd_def] Let_def)

lemma Post_answered_before:
  assumes "rq_query R u" and "rq_header R u ''X-MSG-FORWARD-UID'' None w = (z, w1)" and "names_message z m"
    and "map_of (mq_messages q) m = None"
    and "rq_reply R u (mq_reply q 300 ''Multiple Replays. Reply Ignored.'' (Some ([NUL], 0)) 0 [] []) w1 = (res, w2)"
    and "\<forall>x. res = Inl x \<longrightarrow> \<not> is_std_exception x"
  shows "Post R u (q, w) = as_unit (res, q, w2)"
  using assms names_message_parse(1,2) [OF assms(3)] names_message_parse(3) [OF assms(3)]
  by (elim exE conjE) (auto simp: Post_def with_request_def mbind_def header_of_def on_snd_def mcatch_std_def mlift_def on_fst_def
      post_find_def umap_find_plain ignoring_eq ReplyWithCode_string_def as_unit_def Let_def split: sum.splits)

lemma Post_without_id:
  assumes "rq_query R u" and "rq_header R u ''X-MSG-FORWARD-UID'' None w = (z, w1)" and "zempty z"
  shows "Post R u (q, w) =
    as_unit (on_snd (rq_reply R u (mq_reply q 400 ''Bad Request. Header `X-MSG-FORWARD-UID` not found''
      (Some ([NUL], 0)) 0 [] [])) (q, w1))"
  using assms
  by (simp add: Post_def with_request_def mbind_def header_of_def on_snd_def ignoring_eq ReplyWithCode_string_def)

lemma Post_bad_id:
  assumes "rq_query R u" and "rq_header R u ''X-MSG-FORWARD-UID'' None w = (z, w1)" and "\<not> zempty z"
    and "zstr z = Inr t" and "stoul t = Inl x"
  shows "Post R u (q, w) =
    as_unit (on_snd (rq_reply R u (mq_reply q 400 ''Bad Request. Invalid `X-MSG-FORWARD-UID` header''
      (Some ([NUL], 0)) 0 [] [])) (q, w1))"
proof -
  have "is_std_exception x" using assms(5) by (auto simp: stoul_def Let_def split: if_splits prod.splits)
  with assms show ?thesis
    by (simp add: Post_def with_request_def mbind_def header_of_def on_snd_def mcatch_std_def mlift_def ignoring_eq
        ReplyWithCode_string_def Let_def)
qed

end
