(* ===== verification/Fiber_Reach.thy ===== *)
theory Fiber_Reach
  imports Main
begin

text \<open>
  Reachability and invariants, shared by the step relations of the concurrent components (the message
  queue, the SAPI queue and the thread pool).
\<close>

inductive reach :: "('s \<Rightarrow> 's \<Rightarrow> bool) \<Rightarrow> 's \<Rightarrow> 's \<Rightarrow> bool" for step s0 where
  reach_init: "reach step s0 s0"
| reach_step: "reach step s0 s \<Longrightarrow> step s s' \<Longrightarrow> reach step s0 s'"

inductive_cases reach_cases: "reach step s0 s"

lemma reach_trans: "reach step s1 s2 \<Longrightarrow> reach step s0 s1 \<Longrightarrow> reach step s0 s2"
  by (induction rule: reach.induct) (auto intro: reach_step)

lemma reach_one: "step s s' \<Longrightarrow> reach step s s'"
  by (blast intro: reach_init reach_step)

text \<open>A property that holds at the start and that every step preserves.\<close>

locale inductive_invariant =
  fixes step :: "'s \<Rightarrow> 's \<Rightarrow> bool" and start :: "'s \<Rightarrow> bool" and ok :: "'s \<Rightarrow> bool"
  assumes start_ok: "start s \<Longrightarrow> ok s"
    and step_ok: "ok s \<Longrightarrow> step s s' \<Longrightarrow> ok s'"
begin

lemma reachable_ok: "reach step s0 s \<Longrightarrow> start s0 \<Longrightarrow> ok s"
  by (induction rule: reach.induct) (auto intro: start_ok step_ok)

end

text \<open>
  \<open>inevitable step goal s\<close>: every execution from \<open>s\<close> ends, and whatever choices were made it ends in a state
  that satisfies \<open>goal\<close>.
\<close>

inductive inevitable :: "('s \<Rightarrow> 's \<Rightarrow> bool) \<Rightarrow> ('s \<Rightarrow> bool) \<Rightarrow> 's \<Rightarrow> bool" for step goal where
  inevitableI: "\<forall>s'. step s s' \<longrightarrow> inevitable step goal s' \<Longrightarrow> (\<forall>s'. \<not> step s s') \<longrightarrow> goal s \<Longrightarrow> inevitable step goal s"

lemma inevitable_reach: "inevitable step goal s \<Longrightarrow> \<exists>s'. reach step s s' \<and> goal s' \<and> (\<forall>s''. \<not> step s' s'')"
proof (induction rule: inevitable.induct)
  case (inevitableI s)
  show ?case
  proof (cases "\<exists>s'. step s s'")
    case True
    then obtain s' where step: "step s s'" by blast
    then obtain s'' where r: "reach step s' s''" and g: "goal s''" "\<forall>x. \<not> step s'' x" using inevitableI(1) by auto
    have "reach step s s''" using reach_trans [OF r] reach_one [of step s s'] step by blast
    with g show ?thesis by auto
  next
    case False
    then have "goal s" "\<forall>x. \<not> step s x" using inevitableI(2) by auto
    then show ?thesis using reach_init [of step s] by auto
  qed
qed

lemma inevitable_mono:
  assumes "inevitable step goal s" and "\<And>s. goal s \<Longrightarrow> goal' s"
  shows "inevitable step goal' s"
  using assms(1)
proof (induction rule: inevitable.induct)
  case (inevitableI s)
  then show ?case by (intro inevitable.inevitableI) (simp, blast intro: assms(2))
qed

text \<open>There is no infinite execution.\<close>

lemma inevitable_no_run: "inevitable step goal s \<Longrightarrow> f 0 = s \<Longrightarrow> \<not> (\<forall>n :: nat. step (f n) (f (Suc n)))"
proof (induction arbitrary: f rule: inevitable.induct)
  case (inevitableI s)
  show ?case
  proof
    assume run: "\<forall>n. step (f n) (f (Suc n))"
    then have "step s (f (Suc 0))" using inevitableI(3) by auto
    then have "\<forall>g. g 0 = f (Suc 0) \<longrightarrow> \<not> (\<forall>n. step (g n) (g (Suc n)))" using inevitableI(1) by simp
    from this [rule_format, of "\<lambda>n. f (Suc n)"] run show False by simp
  qed
qed

text \<open>An invariant with a rank that every step lowers, and a goal that holds where no step is possible.\<close>

locale ranked_progress = inductive_invariant step start ok
  for step :: "'s \<Rightarrow> 's \<Rightarrow> bool" and start ok :: "'s \<Rightarrow> bool" +
  fixes rank :: "'s \<Rightarrow> nat" and goal :: "'s \<Rightarrow> bool"
  assumes rank_step: "ok s \<Longrightarrow> step s s' \<Longrightarrow> rank s' < rank s"
    and stuck_goal: "ok s \<Longrightarrow> \<forall>s'. \<not> step s s' \<Longrightarrow> goal s"
begin

lemma ok_inevitable: "ok s \<Longrightarrow> inevitable step goal s"
proof (induction "rank s" arbitrary: s rule: less_induct)
  case less
  then show ?case by (intro inevitableI) (auto intro: step_ok rank_step stuck_goal)
qed

lemma start_inevitable: "start s \<Longrightarrow> inevitable step goal s"
  by (rule ok_inevitable [OF start_ok])

end

text \<open>A sum over threads of which one moves.\<close>

lemma sum_upd:
  fixes f :: "'a \<Rightarrow> 'b :: cancel_comm_monoid_add"
  assumes "finite S" and "i \<in> S"
  shows "(\<Sum>k \<in> S. f ((g(i := x)) k)) + f (g i) = (\<Sum>k \<in> S. f (g k)) + f x"
proof -
  have "(\<Sum>k \<in> S. f ((g(i := x)) k)) = f x + (\<Sum>k \<in> S - {i}. f (g k))"
    using assms by (subst sum.remove [of _ i]) (auto intro!: sum.cong)
  moreover have "(\<Sum>k \<in> S. f (g k)) = f (g i) + (\<Sum>k \<in> S - {i}. f (g k))"
    using assms by (subst sum.remove [of _ i]) auto
  ultimately show ?thesis by (simp add: ac_simps)
qed

end
