(* ===== verification/Fiber_Broker.thy ===== *)
theory Fiber_Broker
  imports Fiber_SyncQueue Fiber_Reach
begin

text \<open>
  What \<open>SyncQueueHandler\<close> promises, as an abstract broker, and the executions of several threads.

  The handler's shared state changes only in the blocks under \<open>mq_sync\<close>. Any execution of any number of
  threads is therefore a sequence of these blocks, a list of \<open>critical\<close> blocks: what is proved of every list
  holds under every interleaving. Where the order of a thread's own steps matters (a \<open>POST\<close> looks the
  message up, answers the client outside the lock, and erases the message in a second block) the
  step relation \<open>cstep\<close> adds the program counters of the threads.
\<close>

section \<open>The abstract broker\<close>

record broker =
  waiting :: "(uint64 \<times> reqref) list"
  inflight :: "uint64 \<rightharpoonup> reqref"

definition b_put :: "nat \<Rightarrow> uint64 \<Rightarrow> reqref \<Rightarrow> broker \<Rightarrow> bool \<times> broker" where
  "b_put lim m r b =
     (if lim = 0 \<or> length (waiting b) < lim then (True, b\<lparr>waiting := waiting b @ [(m, r)]\<rparr>) else (False, b))"

definition b_get :: "broker \<Rightarrow> (uint64 \<times> reqref) option \<times> broker" where
  "b_get b =
     (case waiting b of
        [] \<Rightarrow> (None, b)
      | (m, r) # rest \<Rightarrow> (Some (m, r), b\<lparr>waiting := rest, inflight := (inflight b)(m \<mapsto> r)\<rparr>))"

definition b_answer :: "uint64 \<Rightarrow> broker \<Rightarrow> broker" where
  "b_answer m b = b\<lparr>inflight := (inflight b)(m := None)\<rparr>"

definition broker_of :: "sync_queue \<Rightarrow> broker" where
  "broker_of q =
     \<lparr>waiting = map (\<lambda>m. (m, the (map_of (mq_messages q) m))) (mq_queue q),
      inflight = (\<lambda>m. if m \<in> set (mq_locked q) then map_of (mq_messages q) m else None)\<rparr>"

lemma sq_exact_lookup:
  "sq_exact q \<Longrightarrow> m \<in> set (mq_queue q) \<union> set (mq_locked q) \<Longrightarrow> \<exists>r. map_of (mq_messages q) m = Some r"
  using map_of_eq_None_iff [of "mq_messages q" m] by (auto simp: sq_exact_def)

lemma get_section_refines:
  assumes "sq_exact q" and "\<forall>r. rq_query R r"
  shows "\<exists>res. fst (get_section R q) = Inr res \<and>
    b_get (broker_of q) =
      (case res of (m, Some r) \<Rightarrow> Some (m, r) | (_, None) \<Rightarrow> None, broker_of (snd (get_section R q)))"
proof (cases "mq_queue q")
  case Nil
  then show ?thesis by (simp add: get_section_def b_get_def broker_of_def)
next
  case (Cons m ms)
  then obtain r where r: "map_of (mq_messages q) m = Some r" using sq_exact_lookup assms(1) by fastforce
  with Cons assms show ?thesis
    by (auto simp: get_section_def b_get_def broker_of_def umap_find_plain query_def Let_def fun_eq_iff)
qed

lemma put_section_refines:
  assumes "sq_exact q" and "map_of (mq_messages q) m = None"
  shows "b_put (LimitSize q) m r (broker_of q) =
    (put_section m r q = (Inr True, snd (put_section m r q)), broker_of (snd (put_section m r q)))"
proof -
  have "m \<notin> set (mq_queue q)" "m \<notin> set (mq_locked q)"
    using sq_exact_lookup [OF assms(1), of m] assms(2) by auto
  moreover have "x \<in> set (mq_queue q) \<Longrightarrow> map_of (mq_messages q @ [(m, r)]) x = map_of (mq_messages q) x" for x
    using sq_exact_lookup [OF assms(1), of x] by (auto simp: map_add_def split: option.split)
  ultimately show ?thesis using assms(2)
    by (auto simp: b_put_def broker_of_def put_section_eq fun_eq_iff map_add_def split: option.split)
qed

lemma map_of_umap_erase: "map_of (umap_erase (\<lambda>k. k) (=) ms x) y = (if y = x then None else map_of ms y)"
  by (induction ms) (auto simp: umap_erase_plain)

lemma post_erase_refines:
  "xid \<notin> set (mq_queue q) \<Longrightarrow> broker_of (snd (post_erase xid q)) = b_answer xid (broker_of q)"
  by (auto simp: broker_of_def post_erase_def b_answer_def map_of_umap_erase fun_eq_iff)

section \<open>Interleavings of critical sections\<close>

datatype critical =
    SPut uint64 reqref
  | SGet
  | SFind uint64
  | SErase uint64
  | SHead

text \<open>The identifiers a section hands out, and those it takes in.\<close>

fun run_section :: "'w irequest \<Rightarrow> critical \<Rightarrow> sync_queue \<Rightarrow> sync_queue" where
  "run_section R (SPut m r) q = snd (put_section m r q)"
| "run_section R SGet q = snd (get_section R q)"
| "run_section R (SFind x) q = snd (post_find R x q)"
| "run_section R (SErase x) q = snd (post_erase x q)"
| "run_section R SHead q = snd (head_section q)"

fun handed_out :: "critical \<Rightarrow> sync_queue \<Rightarrow> uint64 list" where
  "handed_out SGet q = take 1 (mq_queue q)"
| "handed_out _ q = []"

fun taken_in :: "critical \<Rightarrow> sync_queue \<Rightarrow> uint64 list" where
  "taken_in (SPut m r) q = (if LimitSize q = 0 \<or> length (mq_queue q) < LimitSize q then [m] else [])"
| "taken_in _ q = []"

fun run_sections :: "'w irequest \<Rightarrow> critical list \<Rightarrow> sync_queue \<Rightarrow> sync_queue" where
  "run_sections R [] q = q"
| "run_sections R (c # cs) q = run_sections R cs (run_section R c q)"

fun all_handed_out :: "'w irequest \<Rightarrow> critical list \<Rightarrow> sync_queue \<Rightarrow> uint64 list" where
  "all_handed_out R [] q = []"
| "all_handed_out R (c # cs) q = handed_out c q @ all_handed_out R cs (run_section R c q)"

fun all_taken_in :: "'w irequest \<Rightarrow> critical list \<Rightarrow> sync_queue \<Rightarrow> uint64 list" where
  "all_taken_in R [] q = []"
| "all_taken_in R (c # cs) q = taken_in c q @ all_taken_in R cs (run_section R c q)"

text \<open>
  The results of the sections, and the same sections of the abstract broker. Under the lock an execution of any
  number of threads is a sequence of sections: that results and final state are those of the broker, for every
  sequence, says that the handler is linearizable.
\<close>

datatype outcome = OPut bool | OGet "(uint64 \<times> reqref) option" | OFind "reqref option" | OErase | OHead uint64

fun section_outcome :: "'w irequest \<Rightarrow> critical \<Rightarrow> sync_queue \<Rightarrow> exn + outcome" where
  "section_outcome R (SPut m r) q = map_sum id OPut (fst (put_section m r q))"
| "section_outcome R SGet q = map_sum id (\<lambda>(m, x). OGet (map_option (Pair m) x)) (fst (get_section R q))"
| "section_outcome R (SFind x) q = map_sum id OFind (fst (post_find R x q))"
| "section_outcome R (SErase x) q = map_sum id (\<lambda>_. OErase) (fst (post_erase x q))"
| "section_outcome R SHead q = map_sum id OHead (fst (head_section q))"

fun section_outcomes :: "'w irequest \<Rightarrow> critical list \<Rightarrow> sync_queue \<Rightarrow> (exn + outcome) list" where
  "section_outcomes R [] q = []"
| "section_outcomes R (c # cs) q = section_outcome R c q # section_outcomes R cs (run_section R c q)"

definition b_find :: "uint64 \<Rightarrow> broker \<Rightarrow> reqref option" where
  "b_find x b = (case inflight b x of Some r \<Rightarrow> Some r | None \<Rightarrow> map_of (waiting b) x)"

fun broker_section :: "nat \<Rightarrow> critical \<Rightarrow> broker \<Rightarrow> outcome \<times> broker" where
  "broker_section lim (SPut m r) b = map_prod OPut id (b_put lim m r b)"
| "broker_section lim SGet b = map_prod OGet id (b_get b)"
| "broker_section lim (SFind x) b = (OFind (b_find x b), b)"
| "broker_section lim (SErase x) b = (OErase, b_answer x b)"
| "broker_section lim SHead b = (OHead (case waiting b of [] \<Rightarrow> 0 | (m, _) # _ \<Rightarrow> m), b)"

fun broker_run :: "nat \<Rightarrow> critical list \<Rightarrow> broker \<Rightarrow> outcome list \<times> broker" where
  "broker_run lim [] b = ([], b)"
| "broker_run lim (c # cs) b =
     (let (x, b') = broker_section lim c b; (xs, b'') = broker_run lim cs b' in (x # xs, b''))"

text \<open>What the callers see to: new identifiers, and answers only to what was fetched.\<close>

fun orderly :: "critical \<Rightarrow> broker \<Rightarrow> bool" where
  "orderly (SPut m r) b \<longleftrightarrow> b_find m b = None"
| "orderly (SErase x) b \<longleftrightarrow> x \<notin> fst ` set (waiting b)"
| "orderly _ b \<longleftrightarrow> True"

fun all_orderly :: "nat \<Rightarrow> critical list \<Rightarrow> broker \<Rightarrow> bool" where
  "all_orderly lim [] b \<longleftrightarrow> True"
| "all_orderly lim (c # cs) b \<longleftrightarrow> orderly c b \<and> all_orderly lim cs (snd (broker_section lim c b))"

lemma fst_waiting_broker_of: "fst ` set (waiting (broker_of q)) = set (mq_queue q)"
  by (force simp: broker_of_def)

lemma b_find_broker_of:
  assumes "sq_exact q"
  shows "b_find x (broker_of q) = map_of (mq_messages q) x"
proof -
  have w: "map_of (map (\<lambda>m. (m, the (map_of (mq_messages q) m))) ms) x = (if x \<in> set ms then Some (the (map_of (mq_messages q) x)) else None)" for ms
    by (induction ms) auto
  consider "x \<in> set (mq_locked q)" | "x \<in> set (mq_queue q)" "x \<notin> set (mq_locked q)" | "x \<notin> set (mq_queue q) \<union> set (mq_locked q)" by blast
  then show ?thesis
  proof cases
    case 3
    then have "map_of (mq_messages q) x = None" using assms by (auto simp: sq_exact_def sq_inv_def map_of_eq_None_iff)
    with 3 show ?thesis by (simp add: b_find_def broker_of_def w)
  qed (use sq_exact_lookup [OF assms, of x] in \<open>auto simp: b_find_def broker_of_def w\<close>)
qed

lemma run_section_limit: "LimitSize (run_section R c q) = LimitSize q"
  by (cases c) (auto simp: section_defs Let_def split_beta split: list.split option.split)

lemma run_section_exact:
  assumes "sq_exact q" and "orderly c (broker_of q)"
  shows "sq_exact (run_section R c q)"
proof (cases c)
  case (SPut m r)
  then show ?thesis using assms put_section_exact [of q m r] b_find_broker_of [OF assms(1)] by simp
next
  case SGet
  then show ?thesis using get_section_exact [OF assms(1), of R] by simp
next
  case (SErase x)
  then show ?thesis using assms post_erase_exact [of q x] fst_waiting_broker_of by simp
qed (use assms in \<open>simp_all add: post_find_def head_section_def\<close>)

lemma run_section_refines:
  assumes "sq_exact q" and "\<forall>r. rq_query R r" and "orderly c (broker_of q)"
  shows "section_outcome R c q = Inr (fst (broker_section (LimitSize q) c (broker_of q))) \<and>
    broker_of (run_section R c q) = snd (broker_section (LimitSize q) c (broker_of q))"
proof (cases c)
  case (SPut m r)
  then have "map_of (mq_messages q) m = None" using assms(3) b_find_broker_of [OF assms(1)] by simp
  from put_section_refines [OF assms(1) this, of r] this show ?thesis by (simp add: SPut put_section_eq)
next
  case SGet
  obtain m x where x: "fst (get_section R q) = Inr (m, x)"
      "b_get (broker_of q) = (map_option (Pair m) x, broker_of (snd (get_section R q)))"
    using get_section_refines [OF assms(1,2)] by (force split: option.splits prod.splits)
  then show ?thesis by (simp add: SGet)
next
  case (SFind x)
  have "Option.bind y (query R) = y" for y using assms(2) by (cases y) (simp_all add: query_def)
  then show ?thesis using b_find_broker_of [OF assms(1)] by (simp add: SFind post_find_def umap_find_plain)
next
  case (SErase x)
  then show ?thesis using assms(3) post_erase_refines [of x q] fst_waiting_broker_of by (simp add: post_erase_def)
next
  case SHead
  then show ?thesis by (cases "mq_queue q") (simp_all add: head_section_def broker_of_def)
qed

lemma run_sections_refine:
  assumes "sq_exact q" and "\<forall>r. rq_query R r" and "all_orderly (LimitSize q) cs (broker_of q)"
  shows "section_outcomes R cs q = map Inr (fst (broker_run (LimitSize q) cs (broker_of q))) \<and>
    broker_of (run_sections R cs q) = snd (broker_run (LimitSize q) cs (broker_of q)) \<and> sq_exact (run_sections R cs q)"
  using assms(1,3)
proof (induction cs arbitrary: q)
  case (Cons c cs)
  have "orderly c (broker_of q)" using Cons.prems by simp
  note s = run_section_refines [OF Cons.prems(1) assms(2) this] and ex = run_section_exact [OF Cons.prems(1) this, of R]
  show ?case using Cons.IH [OF ex] Cons.prems(2) s by (simp add: run_section_limit split_beta Let_def)
qed simp

lemma run_section_fifo: "handed_out c q @ mq_queue (run_section R c q) = mq_queue q @ taken_in c q"
  by (cases c) (auto simp: get_section_def put_section_eq post_find_def post_erase_def head_section_def Let_def
      split: list.split option.split)

lemma run_sections_fifo:
  "all_handed_out R cs q @ mq_queue (run_sections R cs q) = mq_queue q @ all_taken_in R cs q"
proof (induction cs arbitrary: q)
  case (Cons c cs)
  then show ?case using run_section_fifo [of c q R] by (metis all_handed_out.simps(2) all_taken_in.simps(2)
    append.assoc run_sections.simps(2))
qed simp

lemma run_sections_inv: "sq_inv q \<Longrightarrow> sq_inv (run_sections R cs q)"
proof (induction cs arbitrary: q)
  case (Cons c cs)
  then show ?case
    by (cases c) (simp_all add: put_section_inv get_section_inv post_erase_inv post_find_def head_section_def)
qed simp

lemma taken_in_subset: "set (all_taken_in R cs q) \<subseteq> {m. \<exists>r. SPut m r \<in> set cs}"
proof (induction cs arbitrary: q)
  case (Cons c cs)
  have "set (taken_in c q) \<subseteq> {m. \<exists>r. SPut m r = c}" by (cases c) auto
  with Cons.IH [of "run_section R c q"] show ?case by auto
qed simp

text \<open>The identifiers of the \<open>PUT\<close>s of an execution, in order.\<close>

fun put_ids :: "critical list \<Rightarrow> uint64 list" where
  "put_ids [] = []"
| "put_ids (SPut m r # cs) = m # put_ids cs"
| "put_ids (_ # cs) = put_ids cs"

lemma set_put_ids: "set (put_ids cs) = {m. \<exists>r. SPut m r \<in> set cs}"
  by (induction cs rule: put_ids.induct) auto

lemma distinct_taken_in: "distinct (put_ids cs) \<Longrightarrow> distinct (all_taken_in R cs q)"
proof (induction cs arbitrary: q)
  case (Cons c cs)
  show ?case
  proof (cases c)
    case (SPut m r)
    with Cons taken_in_subset [of R cs "run_section R c q"] show ?thesis by (auto simp: set_put_ids)
  qed (use Cons in auto)
qed simp

lemma handed_out_once:
  assumes "distinct (put_ids cs)" and "distinct (mq_queue q)" and "set (mq_queue q) \<inter> set (put_ids cs) = {}"
  shows "distinct (all_handed_out R cs q)"
proof -
  have "distinct (mq_queue q @ all_taken_in R cs q)"
    using assms distinct_taken_in [OF assms(1)] taken_in_subset [of R cs q] by (auto simp: set_put_ids)
  then have "distinct (all_handed_out R cs q @ mq_queue (run_sections R cs q))"
    by (simp only: run_sections_fifo)
  then show ?thesis by simp
qed

section \<open>Answering a message that nobody fetched\<close>

text \<open>
  \<open>POST\<close> accepts any identifier it finds in \<open>mq_messages\<close>, also one still in the queue. The identifier
  stays in the queue without its message: the \<open>GET\<close> that reaches it throws \<open>std::out_of_range\<close>, and the
  identifier stays among the locked ones.
\<close>

lemma post_erase_unfetched:
  assumes "mq_queue q = m # ms"
  shows "\<not> sq_exact (snd (post_erase m q)) \<and>
    (\<exists>q'. get_section R (snd (post_erase m q)) = (Inl StdOutOfRange, q') \<and> m \<in> set (mq_locked q') \<and>
       map_of (mq_messages q') m = None)"
proof -
  have none: "map_of (mq_messages (snd (post_erase m q))) m = None"
    by (simp add: post_erase_def map_of_umap_erase)
  with sq_exact_lookup [of "snd (post_erase m q)" m] have "\<not> sq_exact (snd (post_erase m q))"
    using assms by (auto simp: post_erase_def)
  with none show ?thesis using assms
    by (simp add: post_erase_def get_section_def umap_find_plain Let_def)
qed

section \<open>Threads answering clients\<close>

datatype pc = Idle | Found uint64 reqref | Answered uint64

record cstate =
  shared :: sync_queue
  pcs :: "nat \<Rightarrow> pc"
  answers :: "(uint64 \<times> nat) list"
  issued :: "uint64 list"

text \<open>
  \<open>own x t\<close> says that thread \<open>t\<close> may execute a \<open>POST\<close> for message \<open>x\<close>; a \<open>PUT\<close> brings an identifier that
  was not issued before, as the server's are.
\<close>

inductive cstep :: "'w irequest \<Rightarrow> (uint64 \<Rightarrow> nat \<Rightarrow> bool) \<Rightarrow> cstate \<Rightarrow> cstate \<Rightarrow> bool"
  for R :: "'w irequest" and own :: "uint64 \<Rightarrow> nat \<Rightarrow> bool" where
  c_put: "m \<notin> set (issued s) \<Longrightarrow>
    cstep R own s (s\<lparr>shared := snd (put_section m r (shared s)), issued := m # issued s\<rparr>)"
| c_get: "cstep R own s (s\<lparr>shared := snd (get_section R (shared s))\<rparr>)"
| c_find: "pcs s t = Idle \<Longrightarrow> own x t \<Longrightarrow> fst (post_find R x (shared s)) = Inr (Some r) \<Longrightarrow>
    cstep R own s (s\<lparr>pcs := (pcs s)(t := Found x r)\<rparr>)"
| c_answer: "pcs s t = Found x r \<Longrightarrow>
    cstep R own s (s\<lparr>pcs := (pcs s)(t := Answered x), answers := answers s @ [(x, t)]\<rparr>)"
| c_fail: "pcs s t = Found x r \<Longrightarrow> cstep R own s (s\<lparr>pcs := (pcs s)(t := Idle)\<rparr>)"
| c_erase: "pcs s t = Answered x \<Longrightarrow>
    cstep R own s (s\<lparr>shared := snd (post_erase x (shared s)), pcs := (pcs s)(t := Idle)\<rparr>)"

definition quiet :: "cstate \<Rightarrow> bool" where
  "quiet s \<longleftrightarrow> (\<forall>t. pcs s t = Idle) \<and> answers s = [] \<and> fst ` set (mq_messages (shared s)) \<subseteq> set (issued s)"

definition one_answerer :: "(uint64 \<Rightarrow> nat \<Rightarrow> bool) \<Rightarrow> bool" where
  "one_answerer own \<longleftrightarrow> (\<forall>x t t'. own x t \<longrightarrow> own x t' \<longrightarrow> t = t')"

text \<open>
  The invariant, over the identifiers waiting \<open>K\<close>, answered \<open>A\<close> and issued \<open>I\<close> and the program
  counters \<open>P\<close>: an answered message that is still there is about to be erased by the thread that
  answered it, and a thread that has found a message is the first to answer it.
\<close>

definition ainv :: "(uint64 \<Rightarrow> nat \<Rightarrow> bool) \<Rightarrow> uint64 set \<Rightarrow> uint64 set \<Rightarrow> uint64 set \<Rightarrow> (nat \<Rightarrow> pc) \<Rightarrow> bool" where
  "ainv own K A I P \<longleftrightarrow>
     K \<subseteq> I \<and> A \<subseteq> I \<and> (\<forall>x \<in> A \<inter> K. \<exists>t. P t = Answered x) \<and>
     (\<forall>t x r. P t = Found x r \<longrightarrow> own x t \<and> x \<notin> A \<and> x \<in> I) \<and> (\<forall>t x. P t = Answered x \<longrightarrow> own x t)"

definition answers_inv :: "(uint64 \<Rightarrow> nat \<Rightarrow> bool) \<Rightarrow> cstate \<Rightarrow> bool" where
  "answers_inv own s \<longleftrightarrow>
     distinct (map fst (answers s)) \<and>
     ainv own (fst ` set (mq_messages (shared s))) (fst ` set (answers s)) (set (issued s)) (pcs s)"

lemma ainv_put: "ainv own K A I P \<Longrightarrow> m \<notin> I \<Longrightarrow> K' \<subseteq> K \<union> {m} \<Longrightarrow> ainv own K' A (insert m I) P"
  unfolding ainv_def by blast

lemma ainv_find:
  assumes "ainv own K A I P" and "one_answerer own" and "P t = Idle" and "own x t" and "x \<in> K"
  shows "ainv own K A I (P(t := Found x r))"
proof -
  have "x \<notin> A"
    using assms unfolding ainv_def one_answerer_def by (metis IntI pc.distinct(3))
  moreover have "\<exists>t'. (P(t := Found x r)) t' = Answered y" if "y \<in> A \<inter> K" for y
    using assms(1,3) that unfolding ainv_def by (metis fun_upd_other pc.distinct(3))
  ultimately show ?thesis using assms(1,4,5) unfolding ainv_def by auto
qed

lemma ainv_answer:
  assumes "ainv own K A I P" and "one_answerer own" and "P t = Found x r"
  shows "ainv own K (insert x A) I (P(t := Answered x)) \<and> x \<notin> A"
proof -
  let ?P = "P(t := Answered x)"
  have x: "own x t" "x \<notin> A" "x \<in> I" using assms(1,3) unfolding ainv_def by blast+
  have found: "own y t' \<and> y \<notin> insert x A \<and> y \<in> I" if y: "?P t' = Found y r'" for t' y r'
  proof -
    have "t' \<noteq> t" "P t' = Found y r'" using y by (auto split: if_splits)
    moreover from this have "own y t'" "y \<notin> A" "y \<in> I" using assms(1) unfolding ainv_def by blast+
    ultimately show ?thesis using assms(2) x(1) unfolding one_answerer_def by blast
  qed
  have answered: "\<exists>t'. ?P t' = Answered y" if y: "y \<in> insert x A \<inter> K" for y
  proof (cases "y = x")
    case True
    then show ?thesis by (intro exI [of _ t]) simp
  next
    case False
    with y have "y \<in> A \<inter> K" by blast
    then obtain t' where "P t' = Answered y" using assms(1) unfolding ainv_def by blast
    then show ?thesis using assms(3) by (intro exI [of _ t']) auto
  qed
  have own: "own y t'" if "?P t' = Answered y" for t' y
    using that x(1) assms(1) unfolding ainv_def by (cases "t' = t") auto
  have "K \<subseteq> I" "insert x A \<subseteq> I" using assms(1) x(3) unfolding ainv_def by blast+
  with found answered own x(2) show ?thesis unfolding ainv_def by blast
qed

lemma ainv_release:
  assumes "ainv own K A I P" and "\<forall>y \<in> A \<inter> K'. P t \<noteq> Answered y" and "K' \<subseteq> K"
  shows "ainv own K' A I (P(t := Idle))"
proof -
  have "\<exists>t'. (P(t := Idle)) t' = Answered y" if y: "y \<in> A \<inter> K'" for y
  proof -
    have "y \<in> A \<inter> K" using y assms(3) by blast
    then obtain t' where "P t' = Answered y" using assms(1) unfolding ainv_def by blast
    then show ?thesis using assms(2) y by (intro exI [of _ t']) auto
  qed
  moreover have "K' \<subseteq> I" using assms(1,3) unfolding ainv_def by blast
  ultimately show ?thesis using assms(1) unfolding ainv_def by auto
qed

lemma keys_put_section:
  "fst ` set (mq_messages (snd (put_section m r q))) \<subseteq> fst ` set (mq_messages q) \<union> {m}"
  by (auto simp: put_section_eq)

lemma messages_get_section [simp]: "mq_messages (snd (get_section R q)) = mq_messages q"
  by (simp add: get_section_def Let_def split: list.split option.split)

lemma cstep_answers_inv:
  assumes "cstep R own s s'" and "one_answerer own" and "answers_inv own s"
  shows "answers_inv own s'"
  using assms(1)
proof cases
  case (c_put m r)
  then show ?thesis using assms(3) keys_put_section [of m r "shared s"] by (auto simp: answers_inv_def intro: ainv_put)
next
  case c_get
  then show ?thesis using assms(3) by (simp add: answers_inv_def)
next
  case (c_find t x r)
  have "x \<in> fst ` set (mq_messages (shared s))"
    using c_find(4) by (auto simp: post_find_def umap_find_plain split: bind_splits dest!: map_of_SomeD intro: rev_image_eqI)
  then show ?thesis using assms(2,3) c_find by (simp add: answers_inv_def ainv_find)
next
  case (c_answer t x r)
  then show ?thesis using assms(3) ainv_answer [OF _ assms(2), of _ _ _ "pcs s" t x r]
    by (auto simp: answers_inv_def)
next
  case (c_fail t x r)
  then show ?thesis using assms(3) by (auto simp: answers_inv_def intro: ainv_release)
next
  case (c_erase t x)
  then show ?thesis using assms(3) by (auto simp: answers_inv_def post_erase_def keys_umap_erase intro: ainv_release)
qed

lemma quiet_answers_inv: "quiet s \<Longrightarrow> answers_inv own s"
  by (simp add: quiet_def answers_inv_def ainv_def)

interpretation answers: inductive_invariant "cstep R own" "\<lambda>s. quiet s \<and> one_answerer own" "\<lambda>s. answers_inv own s \<and> one_answerer own"
  for R own
  by unfold_locales (auto intro: quiet_answers_inv cstep_answers_inv)

lemma answered_once:
  "reach (cstep R own) s0 s \<Longrightarrow> quiet s0 \<Longrightarrow> one_answerer own \<Longrightarrow> distinct (map fst (answers s))"
  using answers.reachable_ok [of R own s0 s] by (simp add: answers_inv_def)

text \<open>
  Without that discipline two threads that answer the same message at once both reach the client: the
  lookup and the erasure are different critical sections.
\<close>

lemma answered_twice:
  assumes "pcs s t = Idle" and "pcs s t' = Idle" and "t \<noteq> t'" and "own m t" and "own m t'"
    and "map_of (mq_messages (shared s)) m = Some r" and "rq_query R r" and "answers s = []"
  shows "\<exists>s'. reach (cstep R own) s s' \<and> answers s' = [(m, t), (m, t')]"
proof -
  have f: "fst (post_find R m (shared s)) = Inr (Some r)"
    using assms(6,7) by (simp add: post_find_def umap_find_plain query_def)
  let ?s1 = "s\<lparr>pcs := (pcs s)(t := Found m r)\<rparr>"
  let ?s2 = "?s1\<lparr>pcs := (pcs ?s1)(t' := Found m r)\<rparr>"
  let ?s3 = "?s2\<lparr>pcs := (pcs ?s2)(t := Answered m), answers := answers ?s2 @ [(m, t)]\<rparr>"
  let ?s4 = "?s3\<lparr>pcs := (pcs ?s3)(t' := Answered m), answers := answers ?s3 @ [(m, t')]\<rparr>"
  have "cstep R own s ?s1" using assms f by (intro c_find)
  moreover have "cstep R own ?s1 ?s2" using assms f by (intro c_find) simp_all
  moreover have "cstep R own ?s2 ?s3" using assms(3) by (intro c_answer [of _ _ m r]) simp
  moreover have "cstep R own ?s3 ?s4" using assms(3) by (intro c_answer [of _ _ m r]) simp
  ultimately have "reach (cstep R own) s ?s4" by (meson reach_init reach_step)
  then show ?thesis using assms(8) by (intro exI [of _ ?s4]) simp
qed

end
