(* ===== verification/Fiber_Exchange.thy ===== *)
theory Fiber_Exchange
  imports Fiber_Request Fiber_Broker
begin

text \<open>
  The exchange between a client, the queue and a worker over the kernel's own request objects: what
  \<open>GET\<close> and \<open>POST\<close> of \<open>SyncQueueHandler\<close> put on the sockets when it is given \<open>RequestImpl\<close>.
\<close>

definition readable :: "env \<Rightarrow> bool" where
  "readable e \<longleftrightarrow> (\<forall>k t. e_stale e k t \<noteq> None)"

lemma reply_head_total:
  assumes "readable e" and "content_length a = Inr len"
  shows "\<exists>answer. reply_head e h now a = Inr answer"
proof -
  have "\<exists>s. header_lines (e_stale e) hs = Inr s" for hs
    using header_lines_total [of hs "e_stale e"] assms(1) by (auto simp: readable_def)
  then obtain s where "header_lines (e_stale e) (sort_key (\<lambda>kv. e_rank e (fst kv)) (rHeaders a)) = Inr s" by blast
  with assms(2) show ?thesis by (simp add: reply_head_def)
qed

text \<open>A reply that reaches the peer: its events, and that it leaves every other request alone.\<close>

definition replied :: "env \<Rightarrow> reqref \<Rightarrow> reply_args \<Rightarrow> string \<Rightarrow> world \<Rightarrow> world \<Rightarrow> bool" where
  "replied e r a body w w' \<longleftrightarrow>
     (let fd = Handle (Http (heap w r)) in
      \<exists>answer. reply_head e (Http (heap w r)) (e_now e (ticks (sockets w))) a = Inr answer \<and>
        events (sockets w') = events (sockets w) @ [Sent fd answer (int (length answer))] @
          (if body \<noteq> [] then [Sent fd body (int (length body))] else []) @ closing fd \<and>
        Handle (Http (heap w' r)) = 0 \<and> (\<forall>x. x \<noteq> r \<longrightarrow> heap w' x = heap w x))"

lemma RequestImpl_Reply_sent:
  assumes "sends_all e" and "readable e" and "content_length a = Inr len" and "content_bytes a = Inr body" and "rClose a"
  shows "\<exists>w'. RequestImpl_Reply e r a w = (Inr True, w') \<and> replied e r a body w w'"
proof -
  obtain answer where "reply_head e (Http (heap w r)) (e_now e (ticks (sockets w))) a = Inr answer"
    using reply_head_total [OF assms(2,3)] by blast
  with Reply_sent [OF assms(1) this assms(4)] assms(5) show ?thesis
    by (auto simp: RequestImpl_Reply_def replied_def Let_def)
qed

lemma mq_reply_sel [simp]:
  "rContent (mq_reply q cd msg c len hs ct) = c" "rContentLength (mq_reply q cd msg c len hs ct) = len"
  "rClose (mq_reply q cd msg c len hs ct)" "rCode (mq_reply q cd msg c len hs ct) = cd"
  by (simp_all add: mq_reply_def GetStats_def)

definition body_ok :: "zcstring \<Rightarrow> bool" where
  "body_ok z \<longleftrightarrow> zwf z \<and> zblock z \<noteq> None \<and> zbytes z \<noteq> [] \<and> length (zbytes z) < 2 ^ 64"

lemma body_ok_content:
  assumes "body_ok (rq_content R w frm)"
  shows "content_bytes (forward_reply R q w frm uid ct) = Inr (zbytes (rq_content R w frm))"
    "\<exists>len. content_length (forward_reply R q w frm uid ct) = Inr len"
proof -
  let ?z = "rq_content R w frm"
  obtain blk where blk: "zblock ?z = Some blk" using assms by (auto simp: body_ok_def)
  have wf: "zwf ?z" using assms by (simp add: body_ok_def)
  have n: "int (length (zbytes ?z)) = zend ?z - zbegin ?z" "0 \<le> zbegin ?z" "nat (zend ?z) \<le> length blk"
    using wf blk by (auto simp: length_zbytes zwf_def)
  have len: "zlength ?z = length (zbytes ?z)" "zlength ?z \<noteq> 0"
    using assms n(1) u64_of_nat [of "length (zbytes ?z)"] by (auto simp: zlength_def body_ok_def)
  have "nat (zbegin ?z) + length (zbytes ?z) \<le> length blk" using n by simp
  moreover have "zbytes ?z = take (length (zbytes ?z)) (drop (nat (zbegin ?z)) blk)"
    using n by (simp add: zbytes_def blk)
  ultimately show "content_bytes (forward_reply R q w frm uid ct) = Inr (zbytes ?z)"
    using len by (simp add: content_bytes_def forward_reply_def body_ptr_def blk)
  show "\<exists>len. content_length (forward_reply R q w frm uid ct) = Inr len"
    using len by (simp add: content_length_def forward_reply_def)
qed

lemma empty_content:
  "content_bytes (mq_reply q cd msg (Some ([NUL], 0)) 0 hs ct) = Inr []"
  "content_length (mq_reply q cd msg (Some ([NUL], 0)) 0 hs ct) = Inr 0"
  by (simp_all add: content_bytes_def content_length_def strlen_def c_str_def)

text \<open>A status without content.\<close>

lemma status_replied:
  assumes "sends_all e" and "readable e"
  shows "\<exists>w'. RequestImpl_Reply e u (mq_reply q cd msg (Some ([NUL], 0)) 0 hs ct) w = (Inr True, w') \<and>
    replied e u (mq_reply q cd msg (Some ([NUL], 0)) 0 hs ct) [] w w'"
  by (rule RequestImpl_Reply_sent [OF assms empty_content(2,1)]) simp

section \<open>Header options of well-formed requests\<close>

definition headers_wf :: "request_impl \<Rightarrow> bool" where
  "headers_wf ri \<longleftrightarrow> header_cached ri \<and> (\<forall>h \<in> set (Headers (Request (Http ri))). zwf (snd h))"

definition option_of :: "request_impl \<Rightarrow> string \<Rightarrow> string option \<Rightarrow> zcstring" where
  "option_of ri = header_lookup (Headers (Request (Http ri)))"

lemma zwf_option_of: "headers_wf ri \<Longrightarrow> zwf (option_of ri k d)"
proof -
  assume wf: "headers_wf ri"
  have "zwf (snd h)" if "List.find P (Headers (Request (Http ri))) = Some h" for P h
    using that wf by (metis find_Some_iff headers_wf_def nth_mem)
  then show ?thesis by (auto simp: option_of_def header_lookup_def split: option.split)
qed

lemma rq_header_wf:
  assumes "headers_wf (heap w r)"
  shows "rq_header (RequestImpl e qy) r k d w =
    (option_of (heap w r) k d, upd_request r (snd (GetHeaderOption (heap w r) k d)) w)"
  using assms by (simp add: rq_header_RequestImpl GetHeaderOption_lookup headers_wf_def option_of_def)

lemma headers_wf_GetHeaderOption: "headers_wf ri \<Longrightarrow> headers_wf (snd (GetHeaderOption ri k d))"
  by (simp add: headers_wf_def GetHeaderOption_cached)

lemma heap_SetTelemetry:
  "heap (SetTelemetry e r t w) x =
     (if x = r then (heap w r)\<lparr>Http := Http (heap (SetTelemetry e r t w) r)\<rparr> else heap w x)"
  by (simp add: SetTelemetry_def timestamp_def Let_def)

lemma SetTelemetry_http [simp]:
  "Request (Http (heap (SetTelemetry e r t w) x)) = Request (Http (heap w x))"
  "Handle (Http (heap (SetTelemetry e r t w) x)) = Handle (Http (heap w x))"
  "MsgId (Http (heap (SetTelemetry e r t w) x)) = MsgId (Http (heap w x))"
  "events (sockets (SetTelemetry e r t w)) = events (sockets w)"
  by (simp_all add: SetTelemetry_def timestamp_def Let_def)

lemma headers_wf_SetTelemetry [simp]: "headers_wf (heap (SetTelemetry e r t w) x) = headers_wf (heap w x)"
  by (simp add: headers_wf_def header_cached_def SetTelemetry_def timestamp_def Let_def)

lemma option_of_SetTelemetry [simp]: "option_of (heap (SetTelemetry e r t w) x) = option_of (heap w x)"
  by (simp add: option_of_def)

lemma sockets_upd_request [simp]: "sockets (upd_request r ri w) = sockets w"
  by (simp add: upd_request_def)

section \<open>GET\<close>

text \<open>The answer that forwards a content, and what a socket sees of it.\<close>

definition forwarded :: "sync_queue \<Rightarrow> zcstring \<Rightarrow> uint64 \<Rightarrow> string \<Rightarrow> reply_args" where
  "forwarded q z uid ct =
     mq_reply q 200 ''OK'' (body_ptr z) (zlength z) [(''X-MSG-FORWARD-UID'', Live (to_string (unat uid)))] ct"

lemma forward_reply_RequestImpl:
  "forward_reply (RequestImpl e qy) q w frm uid ct = forwarded q (ReqContent (Request (Http (heap w frm)))) uid ct"
  by (simp add: forward_reply_def forwarded_def)

definition content_type :: "request_impl \<Rightarrow> string" where
  "content_type ri = zbytes (option_of ri ''Content-Type'' (Some ''application/json''))"

lemma Get_exchange:
  assumes "sends_all e" and "readable e" and "\<forall>x. qy x"
    and "mq_queue q = m # ms" and "map_of (mq_messages q) m = Some r"
    and "headers_wf (heap w r)" and "body_ok (ReqContent (Request (Http (heap w r))))"
  defines "q' \<equiv> q\<lparr>mq_queue := ms, mq_locked := uset_emplace m (mq_locked q)\<rparr>"
  shows "\<exists>w1 w'. Get (RequestImpl e qy) u (q, w) = (Inr (), q', w') \<and>
    events (sockets w1) = events (sockets w) \<and> (\<forall>x. Handle (Http (heap w1 x)) = Handle (Http (heap w x))) \<and>
    (\<forall>x. x \<noteq> r \<longrightarrow> heap w1 x = heap w x) \<and>
    replied e u (forwarded q' (ReqContent (Request (Http (heap w r)))) m (content_type (heap w r)))
      (zbytes (ReqContent (Request (Http (heap w r))))) w1 w'"
proof -
  let ?R = "RequestImpl e qy"
  define wt where "wt = SetTelemetry e r EmplaceAt w"
  have wf: "headers_wf (heap wt r)" using assms(6) by (simp add: wt_def)
  define w1 where "w1 = upd_request r (snd (GetHeaderOption (heap wt r) ''Content-Type'' (Some ''application/json''))) wt"
  have hdr: "rq_header ?R r ''Content-Type'' (Some ''application/json'') (rq_telemetry ?R r EmplaceAt w) =
      (option_of (heap wt r) ''Content-Type'' (Some ''application/json''), w1)"
    using rq_header_wf [OF wf] by (simp add: w1_def wt_def)
  have ct: "zstr (option_of (heap wt r) ''Content-Type'' (Some ''application/json'')) = Inr (content_type (heap w r))"
    using zwf_option_of [OF wf] by (simp add: content_type_def wt_def)
  have w1: "Request (Http (heap w1 r)) = Request (Http (heap w r))" "events (sockets w1) = events (sockets w)"
    "\<forall>x. Handle (Http (heap w1 x)) = Handle (Http (heap w x))" "\<forall>x. x \<noteq> r \<longrightarrow> heap w1 x = heap w x"
    by (simp_all add: w1_def wt_def SetTelemetry_def timestamp_def Let_def)
  let ?a = "forward_reply ?R q' w1 r m (content_type (heap w r))"
  have a: "?a = forwarded q' (ReqContent (Request (Http (heap w r)))) m (content_type (heap w r))"
    by (simp add: forward_reply_RequestImpl w1)
  have ok: "body_ok (rq_content ?R w1 r)" using assms(7) by (simp add: w1)
  obtain len where len: "content_length ?a = Inr len" using body_ok_content(2) [OF ok] by blast
  have cl: "rClose ?a" by (simp add: forward_reply_def)
  obtain w' where w': "RequestImpl_Reply e u ?a w1 = (Inr True, w')" "replied e u ?a (zbytes (rq_content ?R w1 r)) w1 w'"
    using RequestImpl_Reply_sent [OF assms(1,2) len body_ok_content(1) [OF ok] cl] by blast
  have "Get ?R u (q, w) = (Inr (), q', w')"
    using Get_oldest [OF _ assms(4,5) _ hdr ct, of u] assms(3) w'(1)
    by (simp add: q'_def [symmetric] Let_def on_snd_def as_unit_def)
  with w'(2) w1 show ?thesis by (auto simp: a)
qed

section \<open>POST\<close>

lemma replied_frame:
  assumes "replied e r a body w w'"
  shows "x \<noteq> r \<Longrightarrow> heap w' x = heap w x" "Handle (Http (heap w' r)) = 0"
  using assms by (auto simp: replied_def Let_def)

text \<open>What \<open>POST\<close> reads off its request before it answers: the identifier, and the content to send on.\<close>

lemma Post_reads:
  assumes "headers_wf (heap w u)"
  obtains w0 w1 c where
    "rq_header (RequestImpl e qy) u ''X-MSG-FORWARD-UID'' None w = (option_of (heap w u) ''X-MSG-FORWARD-UID'' None, w0)"
    "rq_header (RequestImpl e qy) u ''Content-Type'' (Some ''application/json'')
       (rq_telemetry (RequestImpl e qy) r ExtractAt w0) = (c, w1)"
    "zstr c = Inr (content_type (heap w u))"
    "forward_reply (RequestImpl e qy) q w1 u (rq_msgid (RequestImpl e qy) (rq_telemetry (RequestImpl e qy) r ExtractAt w0) u)
       (content_type (heap w u)) =
     forwarded q (ReqContent (Request (Http (heap w u)))) (MsgId (Http (heap w u))) (content_type (heap w u))"
    "Request (Http (heap w1 u)) = Request (Http (heap w u))" "events (sockets w1) = events (sockets w)"
    "\<forall>x. Handle (Http (heap w1 x)) = Handle (Http (heap w x))" "\<forall>x. x \<noteq> u \<longrightarrow> x \<noteq> r \<longrightarrow> heap w1 x = heap w x"
proof -
  let ?R = "RequestImpl e qy"
  define w0 where "w0 = upd_request u (snd (GetHeaderOption (heap w u) ''X-MSG-FORWARD-UID'' None)) w"
  define wt where "wt = SetTelemetry e r ExtractAt w0"
  have wf: "headers_wf (heap wt u)"
    using assms headers_wf_GetHeaderOption by (simp add: wt_def w0_def)
  define w1 where "w1 = upd_request u (snd (GetHeaderOption (heap wt u) ''Content-Type'' (Some ''application/json''))) wt"
  have req: "Request (Http (heap wt u)) = Request (Http (heap w u))" by (simp add: wt_def w0_def)
  show ?thesis
  proof (rule that)
    show "rq_header ?R u ''X-MSG-FORWARD-UID'' None w = (option_of (heap w u) ''X-MSG-FORWARD-UID'' None, w0)"
      using rq_header_wf [OF assms] by (simp add: w0_def)
    show "rq_header ?R u ''Content-Type'' (Some ''application/json'') (rq_telemetry ?R r ExtractAt w0) =
        (option_of (heap wt u) ''Content-Type'' (Some ''application/json''), w1)"
      using rq_header_wf [OF wf] by (simp add: w1_def wt_def)
    show "zstr (option_of (heap wt u) ''Content-Type'' (Some ''application/json'')) = Inr (content_type (heap w u))"
      using zwf_option_of [OF wf] by (simp add: content_type_def option_of_def req)
    show "Request (Http (heap w1 u)) = Request (Http (heap w u))" "events (sockets w1) = events (sockets w)"
      "\<forall>x. Handle (Http (heap w1 x)) = Handle (Http (heap w x))"
      by (simp_all add: w1_def wt_def w0_def)
    show "\<forall>x. x \<noteq> u \<longrightarrow> x \<noteq> r \<longrightarrow> heap w1 x = heap w x"
      by (simp add: w1_def wt_def w0_def heap_SetTelemetry)
    show "forward_reply ?R q w1 u (rq_msgid ?R (rq_telemetry ?R r ExtractAt w0) u) (content_type (heap w u)) =
        forwarded q (ReqContent (Request (Http (heap w u)))) (MsgId (Http (heap w u))) (content_type (heap w u))"
      by (simp add: forward_reply_RequestImpl w1_def wt_def w0_def)
  qed
qed

lemma Post_exchange:
  assumes "sends_all e" and "readable e" and "\<forall>x. qy x" and "u \<noteq> r"
    and "map_of (mq_messages q) m = Some r"
    and "headers_wf (heap w u)" and "body_ok (ReqContent (Request (Http (heap w u))))"
    and "names_message (option_of (heap w u) ''X-MSG-FORWARD-UID'' None) m"
  defines "q' \<equiv> snd (post_erase m q)"
  shows "\<exists>w1 w2 w'. Post (RequestImpl e qy) u (q, w) = (Inr (), q', w') \<and>
    events (sockets w1) = events (sockets w) \<and> (\<forall>x. Handle (Http (heap w1 x)) = Handle (Http (heap w x))) \<and>
    (\<forall>x. x \<noteq> u \<longrightarrow> x \<noteq> r \<longrightarrow> heap w1 x = heap w x) \<and>
    replied e r (forwarded q (ReqContent (Request (Http (heap w u)))) (MsgId (Http (heap w u))) (content_type (heap w u)))
      (zbytes (ReqContent (Request (Http (heap w u))))) w1 w2 \<and>
    replied e u (mq_reply q' 200 ''OK'' (Some ([NUL], 0)) 0 [] []) [] w2 w'"
proof -
  let ?R = "RequestImpl e qy" and ?ct = "content_type (heap w u)"
  obtain w0 w1 c where h: "rq_header ?R u ''X-MSG-FORWARD-UID'' None w = (option_of (heap w u) ''X-MSG-FORWARD-UID'' None, w0)"
      "rq_header ?R u ''Content-Type'' (Some ''application/json'') (rq_telemetry ?R r ExtractAt w0) = (c, w1)" "zstr c = Inr ?ct"
    and a: "forward_reply ?R q w1 u (rq_msgid ?R (rq_telemetry ?R r ExtractAt w0) u) ?ct =
      forwarded q (ReqContent (Request (Http (heap w u)))) (MsgId (Http (heap w u))) ?ct"
    and w1: "Request (Http (heap w1 u)) = Request (Http (heap w u))" "events (sockets w1) = events (sockets w)"
      "\<forall>x. Handle (Http (heap w1 x)) = Handle (Http (heap w x))" "\<forall>x. x \<noteq> u \<longrightarrow> x \<noteq> r \<longrightarrow> heap w1 x = heap w x"
    by (rule Post_reads [OF assms(6), of e qy r q])
  let ?a = "forward_reply ?R q w1 u (rq_msgid ?R (rq_telemetry ?R r ExtractAt w0) u) ?ct"
  have ok: "body_ok (rq_content ?R w1 u)" using assms(7) by (simp add: w1)
  obtain len where len: "content_length ?a = Inr len" using body_ok_content(2) [OF ok] by blast
  have cl: "rClose ?a" by (simp add: forward_reply_def)
  obtain w2 where w2: "RequestImpl_Reply e r ?a w1 = (Inr True, w2)" "replied e r ?a (zbytes (rq_content ?R w1 u)) w1 w2"
    using RequestImpl_Reply_sent [OF assms(1,2) len body_ok_content(1) [OF ok] cl] by blast
  let ?b = "mq_reply q' 200 ''OK'' (Some ([NUL], 0)) 0 [] []"
  obtain w' where w': "RequestImpl_Reply e u ?b w2 = (Inr True, w')" "replied e u ?b [] w2 w'"
    using status_replied [OF assms(1,2)] by blast
  have "Post ?R u (q, w) = (Inr (), q', w')"
    using Post_answers [OF _ h(1) assms(8,5) _ h(2,3)] w2(1) w'(1) assms(3) by (simp add: q'_def)
  with w2(2) [unfolded a] w'(2) w1 show ?thesis by auto
qed

text \<open>The client does not take the answer: it is closed, and the exception of the failed sending is thrown.\<close>

lemma RequestImpl_Reply_failed:
  assumes "readable e" and "content_length a = Inr len"
    and "\<forall>evs bs. e_send e evs (Handle (Http (heap w r))) bs \<noteq> int (length bs)"
  shows "\<exists>answer k w' m. RequestImpl_Reply e r a w = (Inl (RuntimeException m), w') \<and>
    events (sockets w') = events (sockets w) @ Sent (Handle (Http (heap w r))) answer k # closing (Handle (Http (heap w r)))"
proof -
  obtain answer where a: "reply_head e (Http (heap w r)) (e_now e (ticks (sockets w))) a = Inr answer"
    using reply_head_total [OF assms(1,2)] by blast
  then have "answer \<noteq> []" by (rule reply_head_nonempty)
  then show ?thesis using a assms(3)
    by (auto simp: RequestImpl_Reply_def Reply_def timestamp_def WriteData_def Let_def http_close_connection_eq
        send_failed_def throw_runtime_def)
qed

lemma Post_client_lost:
  assumes "readable e" and "\<forall>x. qy x" and "map_of (mq_messages q) m = Some r"
    and "headers_wf (heap w u)" and "body_ok (ReqContent (Request (Http (heap w u))))"
    and "names_message (option_of (heap w u) ''X-MSG-FORWARD-UID'' None) m"
    and "\<forall>evs bs. e_send e evs (Handle (Http (heap w r))) bs \<noteq> int (length bs)"
  shows "\<exists>x answer k w'. Post (RequestImpl e qy) u (q, w) = (Inl (RuntimeException x), q, w') \<and>
    events (sockets w') = events (sockets w) @ Sent (Handle (Http (heap w r))) answer k # closing (Handle (Http (heap w r)))"
proof -
  let ?R = "RequestImpl e qy" and ?ct = "content_type (heap w u)"
  obtain w0 w1 c where h: "rq_header ?R u ''X-MSG-FORWARD-UID'' None w = (option_of (heap w u) ''X-MSG-FORWARD-UID'' None, w0)"
      "rq_header ?R u ''Content-Type'' (Some ''application/json'') (rq_telemetry ?R r ExtractAt w0) = (c, w1)" "zstr c = Inr ?ct"
    and w1: "Request (Http (heap w1 u)) = Request (Http (heap w u))" "events (sockets w1) = events (sockets w)"
      "\<forall>x. Handle (Http (heap w1 x)) = Handle (Http (heap w x))" "\<forall>x. x \<noteq> u \<longrightarrow> x \<noteq> r \<longrightarrow> heap w1 x = heap w x"
    by (rule Post_reads [OF assms(4), of e qy r q])
  let ?a = "forward_reply ?R q w1 u (rq_msgid ?R (rq_telemetry ?R r ExtractAt w0) u) ?ct"
  have ok: "body_ok (rq_content ?R w1 u)" using assms(5) by (simp add: w1)
  obtain len where "content_length ?a = Inr len" using body_ok_content(2) [OF ok] by blast
  moreover have "\<forall>evs bs. e_send e evs (Handle (Http (heap w1 r))) bs \<noteq> int (length bs)" using assms(7) w1(3) by simp
  ultimately obtain answer k w' x where "RequestImpl_Reply e r ?a w1 = (Inl (RuntimeException x), w')"
    "events (sockets w') = events (sockets w1) @ Sent (Handle (Http (heap w1 r))) answer k # closing (Handle (Http (heap w1 r)))"
    using RequestImpl_Reply_failed [OF assms(1)] by blast
  then show ?thesis using Post_client_gone [OF _ h(1) assms(6,3) _ h(2,3)] assms(2) w1 by auto
qed

end
