(* ===== verification/Fiber_Router.thy ===== *)
theory Fiber_Router
  imports Fiber_Request
begin

text \<open>
  kernel/main/impl/routerimpl.h and routerimpl.cpp: \<open>RouterImpl\<close>, which keeps the channels' queues under
  path patterns and hands every request to the queue of its target.

  The routes are an \<open>unordered_multimap\<close> keyed by \<open>cpathstring\<close> with its own hash and comparison. Where
  several routes qualify, the standard does not say which one \<open>find\<close> returns: the argument \<open>pick\<close> chooses.
\<close>

section \<open>Paths\<close>

text \<open>
  The key of a route owns a copy of its path, made by \<open>strncpy\<close>: behind a null character the copy is filled with
  null characters. The key of a look-up is a view of the target and owns nothing.
\<close>

definition cpathstring :: "string \<Rightarrow> string" where
  "cpathstring path =
     (let t = takeWhile (\<lambda>c. c \<noteq> NUL) path in t @ replicate (length path - length t) NUL)"

lemma cpathstring_plain: "NUL \<notin> set path \<Longrightarrow> cpathstring path = path"
proof -
  assume "NUL \<notin> set path"
  then have "takeWhile (\<lambda>c. c \<noteq> NUL) path = path" by (induction path) auto
  then show ?thesis by (simp only: cpathstring_def Let_def diff_self_eq_0 replicate_0 append_Nil2)
qed

lemma length_cpathstring [simp]: "length (cpathstring path) = length path"
  by (simp add: cpathstring_def Let_def length_takeWhile_le)

text \<open>A \<open>char\<close> is signed: its conversion to \<open>size_t\<close> extends the sign.\<close>

definition sext :: "byte \<Rightarrow> uint64" where
  "sext c = (if code c < 128 then word_of_nat (code c) else word_of_nat (code c) - 256)"

fun path_hash_loop :: "nat \<Rightarrow> uint64 \<Rightarrow> string \<Rightarrow> uint64" where
  "path_hash_loop 0 h s = h"
| "path_hash_loop (Suc len) h [] = h"
| "path_hash_loop (Suc len) h (c # s) =
     (if c = CHR ''/'' then h else path_hash_loop len (push_bit 8 (or h (sext c))) s)"

definition strip_slash :: "string \<Rightarrow> string" where
  "strip_slash s = (case s of [] \<Rightarrow> [] | c # t \<Rightarrow> if c = CHR ''/'' then t else s)"

definition path_hash :: "string \<Rightarrow> uint64" where
  "path_hash s = path_hash_loop 8 0 (strip_slash s)"

function path_compare :: "string \<Rightarrow> string \<Rightarrow> bool" where
  "path_compare [] rs = True"
| "path_compare (l # ls) [] = True"
| "path_compare (l # ls) (r # rs) =
     (if l \<noteq> r then
        if l = CHR ''?'' then (if r \<noteq> CHR ''/'' then path_compare (l # ls) rs else path_compare ls (r # rs))
        else if r = CHR ''?'' then (if l \<noteq> CHR ''/'' then path_compare ls (r # rs) else path_compare (l # ls) rs)
        else l = CHR ''*'' \<or> r = CHR ''*''
      else path_compare ls rs)"
  by pat_completeness auto
termination by (relation "measure (\<lambda>(a, b). length a + length b)") auto

section \<open>Routes\<close>

type_synonym 'm routes = "(string \<times> 'm) list"

definition route_hits :: "'m routes \<Rightarrow> string \<Rightarrow> 'm routes" where
  "route_hits rts uri = filter (\<lambda>rt. path_hash (fst rt) = path_hash uri \<and> path_compare uri (fst rt)) rts"

definition route_find :: "nat \<Rightarrow> 'm routes \<Rightarrow> string \<Rightarrow> 'm option" where
  "route_find pick rts uri =
     (let hits = route_hits rts uri in if hits = [] then None else Some (snd (hits ! (pick mod length hits))))"

text \<open>
  \<open>AddRoute\<close>: \<open>created\<close> is what \<open>IKernel::CreateMQ\<close> delivers for the class, \<open>init\<close> what the module's
  \<open>Initialize\<close> returns.
\<close>

definition AddRoute :: "string \<Rightarrow> 'm option \<Rightarrow> ('m \<Rightarrow> bool) \<Rightarrow> 'm routes \<Rightarrow> bool \<times> 'm routes" where
  "AddRoute chPath created init rts =
     (if chPath \<noteq> [] then
        case created of
          Some mq \<Rightarrow> if init mq then (True, rts @ [(cpathstring chPath, mq)]) else (False, rts)
        | None \<Rightarrow> (False, rts)
      else (False, rts))"

section \<open>Processing a request\<close>

definition http_process :: "env \<Rightarrow> (nat \<Rightarrow> recv_step) \<Rightarrow> (nat \<Rightarrow> byte) \<Rightarrow> reqref \<Rightarrow> (world, unit) act" where
  "http_process e rcv fresh r w =
     (case Process e rcv fresh (Http (heap w r)) (sockets w) of
        (res, h, n) \<Rightarrow> (res, (upd_request r ((heap w r)\<lparr>Http := h\<rparr>) w)\<lparr>sockets := n\<rparr>))"

definition http_reply :: "env \<Rightarrow> reqref \<Rightarrow> reply_args \<Rightarrow> (world, unit) act" where
  "http_reply e r a w =
     (case Reply e (Http (heap w r)) (sockets w) a of
        (res, h, n) \<Rightarrow> (res, (upd_request r ((heap w r)\<lparr>Http := h\<rparr>) w)\<lparr>sockets := n\<rparr>))"

definition not_found_reply :: reply_args where
  "not_found_reply =
     \<lparr>rCode = 404, rMessage = Some ''Endpoint not found'', rContent = None, rContentLength = 0, rHeaders = [], rClose = True\<rparr>"

definition failure_reply :: "string \<Rightarrow> string \<Rightarrow> reply_args" where
  "failure_reply title msg =
     \<lparr>rCode = 503, rMessage = Some title, rContent = Some (msg @ [NUL], 0), rContentLength = length msg,
      rHeaders = [], rClose = True\<rparr>"

definition route_request ::
    "env \<Rightarrow> nat \<Rightarrow> ('q \<times> world) imq option routes \<Rightarrow> reqref \<Rightarrow> ('q \<times> world, unit) act" where
  "route_request e pick rts r s =
     (let uri = Uri (Request (Http (heap (snd s) r)))
      in case route_find pick rts (zbytes uri) of
           Some mq \<Rightarrow> RequestImpl_Process e mq r s
         | None \<Rightarrow> mbind (mlift (zstr uri)) (\<lambda>_. on_snd (http_reply e r not_found_reply)) s)"

text \<open>
  The handlers: \<open>RuntimeException\<close> is caught by its own clause, and not by the one for
  \<open>std::exception\<close>, from which it derives privately. \<open>what\<close> gives the text of a standard exception.
\<close>

definition RouterImpl_Process ::
    "env \<Rightarrow> (exn \<Rightarrow> string) \<Rightarrow> (nat \<Rightarrow> recv_step) \<Rightarrow> (nat \<Rightarrow> byte) \<Rightarrow> nat \<Rightarrow>
     ('q \<times> world) imq option routes \<Rightarrow> reqref \<Rightarrow> ('q \<times> world, unit) act" where
  "RouterImpl_Process e what rcv fresh pick rts r s =
     (case mbind (on_snd (http_process e rcv fresh r)) (\<lambda>_. route_request e pick rts r) s of
        (Inr u, s) \<Rightarrow> (Inr u, s)
      | (Inl (RuntimeException msg), s) \<Rightarrow> on_snd (http_reply e r (failure_reply ''Server.Runtime.Exception'' msg)) s
      | (Inl x, s) \<Rightarrow>
          if is_std_exception x then on_snd (http_reply e r (failure_reply ''Server.Std.Exception'' (what x))) s
          else (Inl x, s))"

section \<open>Which routes serve a target\<close>

lemma path_compare_refl [simp]: "path_compare s s"
  by (induction s) simp_all

lemma path_compare_Nil [simp]: "path_compare s []"
  by (cases s) simp_all

lemma path_compare_sym: "path_compare ls rs = path_compare rs ls"
proof (induction ls rs rule: path_compare.induct)
  case (3 l ls r rs)
  then show ?case by (cases "l = r") auto
qed simp_all

text \<open>
  Without wildcards the comparison stops at the shorter of the two: a route serves every target it is
  a prefix of, and every target that is a prefix of it.
\<close>

lemma path_compare_plain:
  assumes "\<forall>c \<in> set ls \<union> set rs. c \<noteq> CHR ''?'' \<and> c \<noteq> CHR ''*''"
  shows "path_compare ls rs \<longleftrightarrow> (\<exists>t. ls = rs @ t) \<or> (\<exists>t. rs = ls @ t)"
  using assms
proof (induction ls rs rule: path_compare.induct)
  case (3 l ls r rs)
  then show ?case by (cases "l = r") auto
qed simp_all

lemma path_compare_append: "path_compare (p @ a) (p @ b) = path_compare a b"
  by (induction p) simp_all

text \<open>A question mark stands for the rest of a segment.\<close>

lemma path_compare_skip:
  assumes "CHR ''/'' \<notin> set seg" and "CHR ''?'' \<notin> set seg"
  shows "path_compare (CHR ''?'' # ls) (seg @ CHR ''/'' # rs) = path_compare ls (CHR ''/'' # rs)"
  using assms by (induction seg) auto

lemma path_compare_segment:
  assumes "CHR ''/'' \<notin> set seg" and "CHR ''?'' \<notin> set seg"
  shows "path_compare (p @ CHR ''?'' # CHR ''/'' # ls) (p @ seg @ CHR ''/'' # rs) = path_compare ls rs"
  using path_compare_skip [OF assms, of "CHR ''/'' # ls" rs] by (simp add: path_compare_append)

text \<open>An asterisk accepts the rest of the target.\<close>

lemma path_compare_rest:
  "c \<noteq> CHR ''?'' \<Longrightarrow> c \<noteq> CHR ''*'' \<Longrightarrow> path_compare (p @ CHR ''*'' # ls) (p @ c # rs)"
  by (simp add: path_compare_append)

lemma route_find_Some:
  assumes "route_find pick rts uri = Some mq"
  shows "\<exists>p. (p, mq) \<in> set rts \<and> path_hash p = path_hash uri \<and> path_compare p uri"
proof -
  let ?h = "route_hits rts uri"
  from assms have "?h \<noteq> []" "mq = snd (?h ! (pick mod length ?h))"
    by (auto simp: route_find_def Let_def split: if_splits)
  then have "?h ! (pick mod length ?h) \<in> set ?h" by (intro nth_mem) simp
  with \<open>mq = _\<close> show ?thesis
    by (intro exI [of _ "fst (?h ! (pick mod length ?h))"]) (auto simp: route_hits_def path_compare_sym)
qed

lemma route_find_None:
  "route_find pick rts uri = None \<longleftrightarrow> (\<forall>(p, mq) \<in> set rts. \<not> (path_hash p = path_hash uri \<and> path_compare p uri))"
  by (auto simp: route_find_def route_hits_def Let_def filter_empty_conv path_compare_sym split: if_splits)

section \<open>The hash of the first segment\<close>

text \<open>
  The hash reads the first segment only. Segments of at most seven ASCII characters have different
  hashes, so two paths that begin with different short segments never meet, whatever wildcards they
  hold: a wildcard in the first segment of a route does not work.
\<close>

definition first_segment :: "string \<Rightarrow> string" where
  "first_segment s = takeWhile (\<lambda>c. c \<noteq> CHR ''/'') (strip_slash s)"

definition base256 :: "nat \<Rightarrow> string \<Rightarrow> nat" where
  "base256 v s = foldl (\<lambda>a c. 256 * a + code c) v s"

definition ascii_segment :: "string \<Rightarrow> bool" where
  "ascii_segment s \<longleftrightarrow> length s \<le> 7 \<and> (\<forall>c \<in> set s. c \<noteq> NUL \<and> code c < 128)"

lemma path_hash_loop_segment:
  "path_hash_loop n h s = path_hash_loop n h (takeWhile (\<lambda>c. c \<noteq> CHR ''/'') s)"
  by (induction n h s rule: path_hash_loop.induct) simp_all

lemma shift_or_add:
  assumes "v < 2 ^ 48" and "c < 256"
  shows "push_bit 8 (or (word_of_nat (256 * v)) (word_of_nat c)) = (word_of_nat (256 * (256 * v + c)) :: uint64)"
proof -
  have "or (256 * v) c = 256 * v + c"
  proof (rule disjunctive_add [symmetric])
    fix n
    show "\<not> bit (256 * v) n \<or> \<not> bit c n"
    proof (cases "n < 8")
      case True
      have "256 * v = push_bit 8 v" by (simp add: push_bit_eq_mult)
      with True show ?thesis by (simp add: bit_push_bit_iff)
    next
      case False
      then have "(2 :: nat) ^ 8 \<le> 2 ^ n" by (intro power_increasing) simp_all
      with assms(2) show ?thesis by (simp add: bit_iff_odd)
    qed
  qed
  moreover have "or (word_of_nat (256 * v)) (word_of_nat c :: uint64) = word_of_nat (or (256 * v) c)"
    by (simp only: of_nat_or_eq)
  ultimately show ?thesis
    by (simp add: push_bit_eq_mult algebra_simps)
qed

lemma path_hash_loop_base256:
  assumes "length s \<le> n" and "\<forall>c \<in> set s. code c < 128 \<and> c \<noteq> CHR ''/''" and "v < 256 ^ k" and "k + length s \<le> 7"
  shows "path_hash_loop n (word_of_nat (256 * v)) s = word_of_nat (256 * base256 v s) \<and> base256 v s < 256 ^ (k + length s)"
  using assms
proof (induction s arbitrary: n v k)
  case Nil
  then show ?case by (cases n) (simp_all add: base256_def)
next
  case (Cons c s)
  then obtain m where n: "n = Suc m" by (cases n) auto
  have "(256 :: nat) ^ k \<le> 256 ^ 6" using Cons.prems(4) by (intro power_increasing) simp_all
  then have v: "v < 2 ^ 48" using Cons.prems(3) by simp
  have c: "code c < 128" "c \<noteq> CHR ''/''" using Cons.prems(2) by auto
  have "256 * v + code c < 256 * (v + 1)" using c by simp
  also have "\<dots> \<le> 256 * 256 ^ k" using Cons.prems(3) by (intro mult_le_mono) simp_all
  finally have "256 * v + code c < 256 ^ Suc k" by simp
  with Cons.IH [of m "256 * v + code c" "Suc k"] Cons.prems n c shift_or_add [OF v, of "code c"]
  show ?case by (simp add: base256_def sext_def)
qed

lemma base256_snoc: "base256 v (s @ [c]) = 256 * base256 v s + code c"
  by (simp add: base256_def)

lemma base256_Nil [simp]: "base256 v [] = v"
  by (simp add: base256_def)

lemma base256_inj:
  assumes "base256 0 s = base256 0 t" and "\<forall>c \<in> set s \<union> set t. c \<noteq> NUL"
  shows "s = t"
  using assms
proof (induction s arbitrary: t rule: rev_induct)
  case Nil
  then show ?case by (cases t rule: rev_cases) (auto simp: base256_snoc code_eq_0)
next
  case (snoc c s)
  show ?case
  proof (cases t rule: rev_cases)
    case Nil
    with snoc.prems show ?thesis by (auto simp: base256_snoc code_eq_0)
  next
    case (snoc t' d)
    have e: "256 * base256 0 s + code c = 256 * base256 0 t' + code d"
      using snoc.prems(1) snoc by (simp add: base256_snoc)
    have "code c = code d" "base256 0 s = base256 0 t'"
      using arg_cong [OF e, of "\<lambda>x. x mod 256"] arg_cong [OF e, of "\<lambda>x. x div 256"] by simp_all
    with snoc.IH [of t'] snoc.prems(2) snoc show ?thesis by auto
  qed
qed

lemma path_hash_base256:
  assumes "ascii_segment (first_segment s)"
  shows "path_hash s = word_of_nat (256 * base256 0 (first_segment s)) \<and> base256 0 (first_segment s) < 256 ^ 7"
proof -
  let ?f = "first_segment s"
  have sl: "\<forall>c \<in> set ?f. code c < 128 \<and> c \<noteq> CHR ''/''"
    using assms by (auto simp: ascii_segment_def first_segment_def dest: set_takeWhileD)
  have l: "length ?f \<le> 7" using assms by (simp add: ascii_segment_def)
  have "path_hash s = path_hash_loop 8 0 ?f"
    using path_hash_loop_segment [of 8 0 "strip_slash s"] by (simp add: path_hash_def first_segment_def)
  moreover from path_hash_loop_base256 [of ?f 8 0 0] sl l
  have "path_hash_loop 8 0 ?f = word_of_nat (256 * base256 0 ?f)" "base256 0 ?f < 256 ^ length ?f" by simp_all
  moreover have "(256 :: nat) ^ length ?f \<le> 256 ^ 7" using l by (intro power_increasing) simp_all
  ultimately show ?thesis by simp
qed

lemma path_hash_short:
  assumes "path_hash p = path_hash u" and "ascii_segment (first_segment p)" and "ascii_segment (first_segment u)"
  shows "first_segment p = first_segment u"
proof -
  note p = path_hash_base256 [OF assms(2)] and u = path_hash_base256 [OF assms(3)]
  have "(word_of_nat (256 * base256 0 (first_segment p)) :: uint64) = word_of_nat (256 * base256 0 (first_segment u))"
    using assms(1) p u by simp
  then have "take_bit LENGTH(64) (256 * base256 0 (first_segment p)) = take_bit LENGTH(64) (256 * base256 0 (first_segment u))"
    by (simp only: word_of_nat_eq_iff)
  moreover have "256 * base256 0 (first_segment x) < 2 ^ LENGTH(64)" if "base256 0 (first_segment x) < 256 ^ 7" for x
    using that by simp
  ultimately have "base256 0 (first_segment p) = base256 0 (first_segment u)"
    using p u by (simp add: take_bit_nat_eq_self)
  then show ?thesis using assms(2,3) by (intro base256_inj) (auto simp: ascii_segment_def)
qed

text \<open>Every target that begins with the route's path, and differs from it behind the first segment, finds a route.\<close>

lemma path_hash_prefix:
  assumes "strip_slash p = seg @ CHR ''/'' # rest" and "CHR ''/'' \<notin> set seg" and "p \<noteq> []"
  shows "path_hash (p @ t) = path_hash p"
proof -
  have tw: "takeWhile (\<lambda>c. c \<noteq> CHR ''/'') (seg @ CHR ''/'' # x) = seg" for x
    using assms(2) by (subst takeWhile_append2) auto
  have "strip_slash (p @ t) = strip_slash p @ t" using assms(3) by (cases p) (auto simp: strip_slash_def)
  then have "strip_slash (p @ t) = seg @ CHR ''/'' # rest @ t" using assms(1) by simp
  with tw assms(1) show ?thesis
    unfolding path_hash_def by (metis path_hash_loop_segment)
qed

section \<open>Rejected requests\<close>

text \<open>
  A request that \<open>Process\<close> rejects has been answered and its connection closed, so its handle is zero.
  The handler of the exception answers once more: this second answer is sent to descriptor zero.
\<close>

lemma http_reply_first_send:
  assumes "reply_head e (Http (heap w r)) (e_now e (ticks (sockets w))) a = Inr answer"
  shows "\<exists>evs. events (sockets (snd (http_reply e r a w))) =
    events (sockets w) @ Sent (Handle (Http (heap w r))) answer (e_send e (events (sockets w)) (Handle (Http (heap w r))) answer) # evs"
  using assms reply_head_nonempty [OF assms]
  by (auto simp: http_reply_def Reply_def timestamp_def WriteData_def http_close_connection_eq Let_def split: sum.split)

lemma failure_reply_head: "\<exists>answer. reply_head e h now (failure_reply t m) = Inr answer"
  by (simp add: reply_head_def failure_reply_def content_length_def strlen_def Let_def)

lemma RouterImpl_Process_rejected:
  assumes "http_process e rcv fresh r (snd s) = (Inl x, w')"
    and "Raw (Http (heap (snd s) r)) = ReadBufferImpl u" and "request_wf (Request (Http (heap (snd s) r)))"
    and "MaxHeaderLength (Http (heap (snd s) r)) \<le> MaxRequestLength (Http (heap (snd s) r))"
  shows "\<exists>answer res evs. events (sockets (snd (snd (RouterImpl_Process e what rcv fresh pick rts r s)))) =
    events (sockets w') @ Sent 0 answer res # evs"
proof -
  obtain h n where p: "Process e rcv fresh (Http (heap (snd s) r)) (sockets (snd s)) = (Inl x, h, n)"
    and w': "w' = (upd_request r ((heap (snd s) r)\<lparr>Http := h\<rparr>) (snd s))\<lparr>sockets := n\<rparr>"
    using assms(1) by (auto simp: http_process_def split: prod.splits)
  obtain m where x: "x = RuntimeException m" and h: "Handle h = 0"
    using Process_outcome [OF p assms(2-4)] by auto
  let ?a = "failure_reply ''Server.Runtime.Exception'' m"
  have hw: "Http (heap w' r) = h" by (simp add: w')
  obtain answer where "reply_head e (Http (heap w' r)) (e_now e (ticks (sockets w'))) ?a = Inr answer"
    using failure_reply_head by blast
  from http_reply_first_send [OF this] h hw show ?thesis
    by (auto simp: RouterImpl_Process_def mbind_def on_snd_def assms(1) x split_beta)
qed

end
