(* ===== verification/Fiber_Delivery.thy ===== *)
theory Fiber_Delivery
  imports Fiber_Exchange Fiber_Router
begin

text \<open>
  From socket to socket: a request that arrives on a connection is received, parsed, routed to the queue
  of its target and handled there. The theory composes the receive buffer, the parser, the router, the
  request objects and \<open>SyncQueueHandler\<close>, and follows one message from the client's bytes to the
  worker and the worker's answer back to the client.
\<close>

section \<open>A request on the wire\<close>

record wire =
  x_method :: nat
  x_uri :: string
  x_version :: string
  x_headers :: "(string \<times> string) list"
  x_last :: "string \<times> string"
  x_body :: string

definition wire_head :: "wire \<Rightarrow> string" where
  "wire_head x = head_text (x_method x) (x_uri x) (x_version x) (x_headers x @ [x_last x])"

definition wire_ok :: "wire \<Rightarrow> bool" where
  "wire_ok x \<longleftrightarrow>
     x_method x < length RequestMethods \<and> target_ok (x_uri x) \<and> no_eol (x_version x) \<and>
     (\<forall>h \<in> set (x_headers x @ [x_last x]). header_ok h)"

text \<open>A connection just accepted, whose limits leave room for the request.\<close>

definition awaits :: "wire \<Rightarrow> request_impl \<Rightarrow> bool" where
  "awaits x ri \<longleftrightarrow>
     (\<exists>u. Raw (Http ri) = ReadBufferImpl u) \<and> Request (Http ri) = empty_request \<and> HeaderMap ri = [] \<and>
     length (wire_head x) \<le> MaxHeaderLength (Http ri) \<and> MaxHeaderLength (Http ri) \<le> MaxRequestLength (Http ri) \<and>
     length (wire_head x @ x_body x) < MaxRequestLength (Http ri)"

text \<open>The request object after the request was parsed. The last header is not among its headers.\<close>

definition parsed :: "wire \<Rightarrow> request_impl \<Rightarrow> bool" where
  "parsed x ri \<longleftrightarrow>
     Method (Request (Http ri)) = method_of (Suc (x_method x)) \<and> zbytes (Uri (Request (Http ri))) = x_uri x \<and>
     zbytes (ReqContent (Request (Http ri))) = x_body x \<and> request_wf (Request (Http ri)) \<and>
     map view (Headers (Request (Http ri))) = x_headers x \<and> HeaderMap ri = []"

lemma request_wf_empty: "request_wf empty_request"
  by (simp add: request_wf_def empty_request_def)

lemma http_process_parsed:
  assumes "wire_ok x" and "awaits x (heap w r)" and "arriving cs 0 rcv" and "concat cs = wire_head x @ x_body x"
  shows "\<exists>w'. http_process e rcv fresh r w = (Inr (), w') \<and> parsed x (heap w' r) \<and> (\<forall>y. y \<noteq> r \<longrightarrow> heap w' y = heap w y) \<and>
    events (sockets w') = events (sockets w) \<and> Handle (Http (heap w' r)) = Handle (Http (heap w r)) \<and>
    MsgId (Http (heap w' r)) = MsgId (Http (heap w r))"
proof -
  let ?h = "Http (heap w r)"
  obtain u where u: "Raw ?h = ReadBufferImpl u" using assms(2) by (auto simp: awaits_def)
  obtain b g where b: "Read rcv fresh (Raw ?h) (MaxRequestLength ?h) (MaxHeaderLength ?h) = (0, b)"
      "dataBuffer b = Some ((wire_head x @ x_body x) @ g)" "length ((wire_head x @ x_body x) @ g) = MaxRequestLength ?h"
      "dataLength b = length (wire_head x @ x_body x)" "dataPartLength b = MaxHeaderLength ?h"
    using Read_arriving [OF assms(3), of "MaxRequestLength ?h" fresh u "MaxHeaderLength ?h"] assms(2,4)
    by (auto simp: u awaits_def)
  have holds: "holds b (wire_head x @ x_body x)" "head_fits b (length (wire_head x))"
    using b assms(2) by (auto simp: holds_def head_fits_def awaits_def)
  obtain req where req: "http_parse_request b (Request ?h) = Inr (0, req)" "Method req = method_of (Suc (x_method x))"
      "zbytes (Uri req) = x_uri x" "zbytes (ReqContent req) = x_body x" "map view (Headers req) = x_headers x"
    using http_parse_headers [OF _ _ _ _ _ holds [unfolded wire_head_def], of "Request ?h"] assms(1,2)
    by (auto simp: wire_ok_def awaits_def empty_request_def)
  have "request_wf req"
    using http_parse_request_wf [of "Request ?h" b, OF _ b(2)] request_wf_empty req(1) b(3-5) assms(2)
    by (auto simp: awaits_def)
  with req b(1) assms(2) show ?thesis
    by (auto simp: http_process_def Process_def timestamp_def Let_def parsed_def awaits_def)
qed

lemma parsed_headers_wf: "parsed x ri \<Longrightarrow> headers_wf ri"
  by (auto simp: parsed_def headers_wf_def header_cached_def request_wf_def)

lemma zblock_nonempty: "zbytes z \<noteq> [] \<Longrightarrow> zblock z \<noteq> None"
  by (auto simp: zbytes_def split: option.splits)

lemma parsed_body_ok:
  "parsed x ri \<Longrightarrow> x_body x \<noteq> [] \<Longrightarrow> length (x_body x) < 2 ^ 64 \<Longrightarrow> body_ok (ReqContent (Request (Http ri)))"
  using zblock_nonempty [of "ReqContent (Request (Http ri))"] by (auto simp: parsed_def body_ok_def request_wf_def)

text \<open>Looking up an option of a parsed request: the first header of that name among those on the wire.\<close>

definition wire_option :: "wire \<Rightarrow> string \<Rightarrow> string option" where
  "wire_option x k = map_option snd (List.find (\<lambda>h. map icase (fst h) = map icase k) (x_headers x))"

lemma find_view:
  "List.find (\<lambda>h. P (fst h)) (map view hs) = map_option view (List.find (\<lambda>h. P (zbytes (fst h))) hs)"
  by (induction hs) (auto simp: view_def)

lemma option_of_parsed:
  assumes "parsed x ri" and "wire_option x k = Some v"
  shows "zbytes (option_of ri k d) = v"
proof -
  have "List.find (\<lambda>h. map icase (fst h) = map icase k) (x_headers x) =
      map_option view (List.find (\<lambda>h. map icase (zbytes (fst h)) = map icase k) (Headers (Request (Http ri))))"
    using assms(1) find_view [of "\<lambda>n. map icase n = map icase k" "Headers (Request (Http ri))"] by (simp add: parsed_def)
  then show ?thesis using assms(2)
    by (auto simp: option_of_def header_lookup_def wire_option_def view_def split: option.splits)
qed

text \<open>The message a worker's \<open>POST\<close> names, in the words of the code: no identifier, one that is no number, or a number.\<close>

datatype forward_uid = NoUid | BadUid | Uid uint64

definition wire_uid :: "wire \<Rightarrow> forward_uid" where
  "wire_uid x =
     (case wire_option x ''X-MSG-FORWARD-UID'' of
        None \<Rightarrow> NoUid
      | Some v \<Rightarrow> if v = [] then NoUid else (case stoul v of Inl _ \<Rightarrow> BadUid | Inr n \<Rightarrow> Uid (word_of_nat n)))"

lemma wire_uid_printed:
  assumes "wire_option x ''X-MSG-FORWARD-UID'' = Some v" and "dropWhile isspace v = to_string (unat m)"
  shows "wire_uid x = Uid m"
  using assms stoul_printed [OF assms(2)] stoul_Nil by (auto simp: wire_uid_def)

lemma option_of_absent:
  assumes "parsed x ri" and "wire_option x k = None"
  shows "option_of ri k None = znull"
proof -
  have "List.find (\<lambda>h. map icase (zbytes (fst h)) = map icase k) (Headers (Request (Http ri))) = None"
    using assms find_view [of "\<lambda>n. map icase n = map icase k" "Headers (Request (Http ri))"] by (simp add: parsed_def wire_option_def)
  then show ?thesis by (simp add: option_of_def header_lookup_def)
qed

text \<open>The three cases as \<open>Post\<close> tells them apart.\<close>

lemma option_of_uid:
  fixes x ri
  defines "z \<equiv> option_of ri ''X-MSG-FORWARD-UID'' None"
  assumes "parsed x ri"
  shows "wire_uid x = NoUid \<Longrightarrow> zempty z"
    "wire_uid x = BadUid \<Longrightarrow> \<not> zempty z \<and> (\<exists>t x. zstr z = Inr t \<and> stoul t = Inl x)"
    "wire_uid x = Uid m \<Longrightarrow> names_message z m"
proof -
  have wf: "zwf z" unfolding z_def using assms(2) by (intro zwf_option_of parsed_headers_wf)
  have some: "zbytes z = v" if "wire_option x ''X-MSG-FORWARD-UID'' = Some v" for v
    unfolding z_def using option_of_parsed [OF assms(2) that] .
  show "zempty z" if "wire_uid x = NoUid"
    using that some wf option_of_absent [OF assms(2)] zempty_iff [OF wf]
    by (auto simp: wire_uid_def z_def zempty_def znull_def split: option.splits if_splits sum.splits)
  show "\<not> zempty z \<and> (\<exists>t x. zstr z = Inr t \<and> stoul t = Inl x)" if "wire_uid x = BadUid"
    using that some zempty_iff [OF wf] wf by (auto simp: wire_uid_def split: option.splits if_splits sum.splits)
  show "names_message z m" if "wire_uid x = Uid m"
    using that some wf by (auto simp: wire_uid_def names_message_def split: option.splits if_splits sum.splits)
qed

section \<open>Routing\<close>

text \<open>
  A request that arrives whole and whose target has a queue reaches that queue. \<open>reception\<close> says what the
  processing of one connection needs: the request, how it arrives, and the bytes of the new array.
\<close>

definition reception :: "wire \<Rightarrow> (nat \<Rightarrow> recv_step) \<Rightarrow> bool" where
  "reception x rcv \<longleftrightarrow> wire_ok x \<and> (\<exists>cs. arriving cs 0 rcv \<and> concat cs = wire_head x @ x_body x)"

definition received :: "wire \<Rightarrow> reqref \<Rightarrow> world \<Rightarrow> world \<Rightarrow> bool" where
  "received x r w w' \<longleftrightarrow>
     parsed x (heap w' r) \<and> (\<forall>y. y \<noteq> r \<longrightarrow> heap w' y = heap w y) \<and> events (sockets w') = events (sockets w) \<and>
     Handle (Http (heap w' r)) = Handle (Http (heap w r)) \<and> MsgId (Http (heap w' r)) = MsgId (Http (heap w r))"

lemma receivedD:
  assumes "received x r w w'"
  shows "parsed x (heap w' r)" "y \<noteq> r \<Longrightarrow> heap w' y = heap w y" "events (sockets w') = events (sockets w)"
    "Handle (Http (heap w' y)) = Handle (Http (heap w y))" "MsgId (Http (heap w' y)) = MsgId (Http (heap w y))"
  using assms by (cases "y = r"; simp add: received_def)+

lemma RouterImpl_Process_routed:
  assumes "reception x rcv" and "awaits x (heap w r)" and "route_find pick rts (x_uri x) = Some (Some mq)"
  shows "\<exists>w1. received x r w w1 \<and> (\<forall>s'. RequestImpl_Process e (Some mq) r (q, w1) = (Inr (), s') \<longrightarrow>
    RouterImpl_Process e what rcv fresh pick rts r (q, w) = (Inr (), s'))"
proof -
  obtain cs where "wire_ok x" "arriving cs 0 rcv" "concat cs = wire_head x @ x_body x"
    using assms(1) by (auto simp: reception_def)
  from http_process_parsed [OF this(1) assms(2) this(2,3), of e fresh] obtain w1 where
    p: "http_process e rcv fresh r w = (Inr (), w1)" and w1: "received x r w w1"
    unfolding received_def by blast
  have "route_request e pick rts r (q, w1) = RequestImpl_Process e (Some mq) r (q, w1)"
    using assms(3) receivedD(1) [OF w1] by (simp add: route_request_def parsed_def)
  then have "RouterImpl_Process e what rcv fresh pick rts r (q, w) = (Inr (), s')"
    if "RequestImpl_Process e (Some mq) r (q, w1) = (Inr (), s')" for s'
    using that p by (simp add: RouterImpl_Process_def mbind_def on_snd_def)
  with w1 show ?thesis by blast
qed

lemma dispatch_method:
  assumes "parsed x (heap w r)"
  shows "x_method x = 0 \<Longrightarrow> RequestImpl_Process e (Some (SyncQueueHandler R)) r (q, w) = Get R r (q, w)"
    "x_method x = 1 \<Longrightarrow> RequestImpl_Process e (Some (SyncQueueHandler R)) r (q, w) = Post R r (q, w)"
    "x_method x = 2 \<Longrightarrow> RequestImpl_Process e (Some (SyncQueueHandler R)) r (q, w) = Put R r (q, w)"
  using assms
  by (simp_all add: parsed_def RequestImpl_Process_def SyncQueueHandler_def method_of_def method_list_def numeral_2_eq_2 numeral_3_eq_3)

section \<open>The answer on the wire\<close>

lemma header_lines_contains:
  "header_lines stale hs = Inr s \<Longrightarrow> (k, Live v) \<in> set hs \<Longrightarrow> \<exists>a b. s = a @ k @ '': '' @ v @ CRLF @ b"
proof (induction stale hs arbitrary: s rule: header_lines.induct)
  case (2 stale k' v' hs)
  then obtain t s1 where t: "(case v' of Live t \<Rightarrow> Some t | Dangling t \<Rightarrow> stale k' t) = Some t" "header_lines stale hs = Inr s1"
      "s = k' @ '': '' @ t @ CRLF @ s1"
    by (auto split: option.splits sum.splits)
  show ?case
  proof (cases "(k, Live v) \<in> set hs")
    case True
    then obtain a b where "s1 = a @ k @ '': '' @ v @ CRLF @ b" using "2.IH" [OF t(1,2)] by blast
    then have "s = (k' @ '': '' @ t @ CRLF @ a) @ k @ '': '' @ v @ CRLF @ b" using t(3) by simp
    then show ?thesis by blast
  next
    case False
    then have "s = [] @ k @ '': '' @ v @ CRLF @ s1" using t 2(3) by auto
    then show ?thesis by blast
  qed
qed simp

text \<open>What a peer reads: a status line, the header it looks for, and then the content.\<close>

definition answer_with :: "nat \<Rightarrow> string \<Rightarrow> string \<Rightarrow> string \<Rightarrow> string \<Rightarrow> bool" where
  "answer_with cd reason k v answer \<longleftrightarrow>
     (\<exists>a b. answer = ''HTTP/1.1 '' @ toString cd @ '' '' @ reason @ CRLF @ a @ k @ '': '' @ v @ CRLF @ b)"

lemma reply_head_answer:
  assumes "reply_head e h now a = Inr answer" and "(k, Live v) \<in> set (rHeaders a)" and "rMessage a = Some m"
  shows "answer_with (rCode a) m k v answer"
proof -
  obtain hs len where h: "header_lines (e_stale e) (sort_key (\<lambda>kv. e_rank e (fst kv)) (rHeaders a)) = Inr hs"
      "content_length a = Inr len"
    using assms(1) by (auto simp: reply_head_def split: sum.splits)
  from header_lines_contains [OF h(1), of k v] assms(2) obtain x y where "hs = x @ k @ '': '' @ v @ CRLF @ y" by auto
  with assms(1,3) h have "answer = ''HTTP/1.1 '' @ toString (rCode a) @ '' '' @ m @ CRLF @
      (''Server: NavekFiber'' @ CRLF @ ''X-Powered-By: FiberBus/19.1.0.0-dev'' @ CRLF @ x) @ k @ '': '' @ v @ CRLF @
      (y @ ''Content-Length: '' @ toString len @ CRLF @ (if rClose a then ''Connection: close'' @ CRLF else []) @
        ''X-MSG-UID: '' @ toString (unat (MsgId h)) @ CRLF @ telemetry_text (Telemetry h) now @ CRLF)"
    by (simp add: reply_head_def HttpMessage_def)
  then show ?thesis unfolding answer_with_def by blast
qed

lemma forwarded_answer:
  assumes "replied e r (forwarded q z uid ct) body w w'" and "body \<noteq> []"
  shows "\<exists>answer. answer_with 200 ''OK'' ''X-MSG-FORWARD-UID'' (to_string (unat uid)) answer \<and>
    events (sockets w') = events (sockets w) @
      [Sent (Handle (Http (heap w r))) answer (int (length answer)), Sent (Handle (Http (heap w r))) body (int (length body))] @
      closing (Handle (Http (heap w r)))"
proof -
  have a: "rCode (forwarded q z uid ct) = 200" "rMessage (forwarded q z uid ct) = Some ''OK''"
    "(''X-MSG-FORWARD-UID'', Live (to_string (unat uid))) \<in> set (rHeaders (forwarded q z uid ct))"
    by (simp_all add: forwarded_def mq_reply_def GetStats_def)
  show ?thesis using assms reply_head_answer [OF _ a(3,2)] a(1) by (auto simp: replied_def Let_def)
qed

lemma acknowledged_answer:
  assumes "replied e r (mq_reply q 200 ''OK'' c 0 [] []) [] w w'"
  shows "\<exists>answer. answer_with 200 ''OK'' ''X-MQ-CLASS'' ''Sync.MQ.Queue'' answer \<and>
    events (sockets w') = events (sockets w) @ [Sent (Handle (Http (heap w r))) answer (int (length answer))] @
      closing (Handle (Http (heap w r)))"
proof -
  let ?a = "mq_reply q 200 ''OK'' c 0 [] []"
  have a: "rMessage ?a = Some ''OK''" "(''X-MQ-CLASS'', Live ''Sync.MQ.Queue'') \<in> set (rHeaders ?a)"
    by (simp_all add: mq_reply_def GetStats_def)
  show ?thesis using assms reply_head_answer [OF _ a(2,1)] by (auto simp: replied_def Let_def)
qed

section \<open>The three connections of one message\<close>

abbreviation fd_of :: "world \<Rightarrow> reqref \<Rightarrow> int" where
  "fd_of w r \<equiv> Handle (Http (heap w r))"

abbreviation id_of :: "world \<Rightarrow> reqref \<Rightarrow> uint64" where
  "id_of w r \<equiv> MsgId (Http (heap w r))"

text \<open>The client's \<open>PUT\<close>, from its bytes: the request waits in the queue and nothing is sent.\<close>

lemma client_put:
  assumes "qy r" and "reception x rcv" and "awaits x (heap w r)" and "x_method x = 2"
    and "route_find pick rts (x_uri x) = Some (Some (SyncQueueHandler (RequestImpl e qy)))"
    and "LimitSize q = 0 \<or> length (mq_queue q) < LimitSize q" and "map_of (mq_messages q) (id_of w r) = None"
  shows "\<exists>w'. RouterImpl_Process e what rcv fresh pick rts r (q, w) =
      (Inr (), q\<lparr>mq_queue := mq_queue q @ [id_of w r], mq_messages := mq_messages q @ [(id_of w r, r)]\<rparr>, w') \<and>
    received x r w w'"
proof -
  obtain w1 where w1: "received x r w w1" and run: "\<And>s'. RequestImpl_Process e (Some (SyncQueueHandler (RequestImpl e qy))) r (q, w1) =
      (Inr (), s') \<Longrightarrow> RouterImpl_Process e what rcv fresh pick rts r (q, w) = (Inr (), s')"
    using RouterImpl_Process_routed [OF assms(2,3,5), of e q what fresh] by blast
  have "Put (RequestImpl e qy) r (q, w1) =
      (Inr (), q\<lparr>mq_queue := mq_queue q @ [id_of w r], mq_messages := mq_messages q @ [(id_of w r, r)]\<rparr>, w1)"
    using Put_admitted [of "RequestImpl e qy" r q w1] assms(1,6,7) receivedD(5) [OF w1, of r] by simp
  then show ?thesis using run dispatch_method(3) [OF receivedD(1) [OF w1] assms(4)] w1 by metis
qed

text \<open>A worker's \<open>GET\<close>, from its bytes: it is sent the oldest waiting request.\<close>

lemma worker_get:
  assumes "sends_all e" and "readable e" and "\<forall>y. qy y" and "reception x rcv" and "awaits x (heap w u)" and "x_method x = 0"
    and "route_find pick rts (x_uri x) = Some (Some (SyncQueueHandler (RequestImpl e qy)))"
    and "mq_queue q = m # ms" and "map_of (mq_messages q) m = Some r" and "r \<noteq> u"
    and "parsed c (heap w r)" and "x_body c \<noteq> []" and "length (x_body c) < 2 ^ 64"
  shows "\<exists>w' answer. RouterImpl_Process e what rcv fresh pick rts u (q, w) =
      (Inr (), q\<lparr>mq_queue := ms, mq_locked := uset_emplace m (mq_locked q)\<rparr>, w') \<and>
    answer_with 200 ''OK'' ''X-MSG-FORWARD-UID'' (to_string (unat m)) answer \<and>
    events (sockets w') = events (sockets w) @
      [Sent (fd_of w u) answer (int (length answer)), Sent (fd_of w u) (x_body c) (int (length (x_body c)))] @
      closing (fd_of w u) \<and>
    Handle (Http (heap w' r)) = fd_of w r \<and> (\<forall>y. y \<noteq> u \<longrightarrow> y \<noteq> r \<longrightarrow> heap w' y = heap w y)"
proof -
  obtain w1 where w1: "received x u w w1" and run: "\<And>s'. RequestImpl_Process e (Some (SyncQueueHandler (RequestImpl e qy))) u (q, w1) =
      (Inr (), s') \<Longrightarrow> RouterImpl_Process e what rcv fresh pick rts u (q, w) = (Inr (), s')"
    using RouterImpl_Process_routed [OF assms(4,5,7), of e q what fresh] by blast
  have r: "heap w1 r = heap w r" using receivedD(2) [OF w1] assms(10) by blast
  have c: "headers_wf (heap w1 r)" "body_ok (ReqContent (Request (Http (heap w1 r))))"
    "zbytes (ReqContent (Request (Http (heap w1 r)))) = x_body c"
    using assms(11-13) parsed_headers_wf parsed_body_ok by (auto simp: r parsed_def)
  obtain w2 w' where g: "Get (RequestImpl e qy) u (q, w1) = (Inr (), q\<lparr>mq_queue := ms, mq_locked := uset_emplace m (mq_locked q)\<rparr>, w')"
      "events (sockets w2) = events (sockets w1)" "\<forall>y. Handle (Http (heap w2 y)) = Handle (Http (heap w1 y))"
      "\<forall>y. y \<noteq> r \<longrightarrow> heap w2 y = heap w1 y"
    and rep: "replied e u (forwarded (q\<lparr>mq_queue := ms, mq_locked := uset_emplace m (mq_locked q)\<rparr>)
      (ReqContent (Request (Http (heap w1 r)))) m (content_type (heap w1 r))) (x_body c) w2 w'"
    using Get_exchange [OF assms(1-3,8,9) c(1,2), of u] unfolding c(3) by blast
  obtain answer where a: "answer_with 200 ''OK'' ''X-MSG-FORWARD-UID'' (to_string (unat m)) answer"
      "events (sockets w') = events (sockets w2) @ [Sent (Handle (Http (heap w2 u))) answer (int (length answer)),
         Sent (Handle (Http (heap w2 u))) (x_body c) (int (length (x_body c)))] @ closing (Handle (Http (heap w2 u)))"
    using forwarded_answer [OF rep assms(12)] by blast
  have "Handle (Http (heap w' r)) = fd_of w r" using replied_frame(1) [OF rep assms(10)] g(3) r by simp
  moreover have "heap w' y = heap w y" if "y \<noteq> u" "y \<noteq> r" for y
    using replied_frame(1) [OF rep that(1)] g(4) that receivedD(2) [OF w1 that(1)] by simp
  moreover have "RouterImpl_Process e what rcv fresh pick rts u (q, w) =
      (Inr (), q\<lparr>mq_queue := ms, mq_locked := uset_emplace m (mq_locked q)\<rparr>, w')"
    using run dispatch_method(1) [OF receivedD(1) [OF w1] assms(6)] g(1) by metis
  ultimately show ?thesis using a g(2,3) receivedD(3,4) [OF w1] by auto
qed

text \<open>
  The worker's \<open>POST\<close>, from its bytes: the client it names is sent the content and closed, the message is
  forgotten and the worker gets an acknowledgement.
\<close>

lemma worker_post:
  assumes "sends_all e" and "readable e" and "\<forall>y. qy y" and "reception x rcv" and "awaits x (heap w u)" and "x_method x = 1"
    and "route_find pick rts (x_uri x) = Some (Some (SyncQueueHandler (RequestImpl e qy)))"
    and "map_of (mq_messages q) m = Some r" and "u \<noteq> r" and "x_body x \<noteq> []" and "length (x_body x) < 2 ^ 64"
    and "wire_uid x = Uid m"
  shows "\<exists>w' answer ack. RouterImpl_Process e what rcv fresh pick rts u (q, w) = (Inr (), snd (post_erase m q), w') \<and>
    answer_with 200 ''OK'' ''X-MSG-FORWARD-UID'' (to_string (unat (id_of w u))) answer \<and>
    answer_with 200 ''OK'' ''X-MQ-CLASS'' ''Sync.MQ.Queue'' ack \<and>
    events (sockets w') = events (sockets w) @
      [Sent (fd_of w r) answer (int (length answer)), Sent (fd_of w r) (x_body x) (int (length (x_body x)))] @
      closing (fd_of w r) @
      [Sent (fd_of w u) ack (int (length ack))] @ closing (fd_of w u) \<and>
    (\<forall>y. y \<noteq> u \<longrightarrow> y \<noteq> r \<longrightarrow> heap w' y = heap w y)"
proof -
  obtain w1 where w1: "received x u w w1" and run: "\<And>s'. RequestImpl_Process e (Some (SyncQueueHandler (RequestImpl e qy))) u (q, w1) =
      (Inr (), s') \<Longrightarrow> RouterImpl_Process e what rcv fresh pick rts u (q, w) = (Inr (), s')"
    using RouterImpl_Process_routed [OF assms(4,5,7), of e q what fresh] by blast
  note p = receivedD(1) [OF w1]
  have c: "headers_wf (heap w1 u)" "body_ok (ReqContent (Request (Http (heap w1 u))))"
    "zbytes (ReqContent (Request (Http (heap w1 u)))) = x_body x"
    using assms(10,11) parsed_headers_wf [OF p] parsed_body_ok [OF p] p by (auto simp: parsed_def)
  have n: "names_message (option_of (heap w1 u) ''X-MSG-FORWARD-UID'' None) m"
    by (rule option_of_uid(3) [OF p assms(12)])
  obtain w2 w3 w' where g: "Post (RequestImpl e qy) u (q, w1) = (Inr (), snd (post_erase m q), w')"
      "events (sockets w2) = events (sockets w1)" "\<forall>y. Handle (Http (heap w2 y)) = Handle (Http (heap w1 y))"
      "\<forall>y. y \<noteq> u \<longrightarrow> y \<noteq> r \<longrightarrow> heap w2 y = heap w1 y"
    and r1: "replied e r (forwarded q (ReqContent (Request (Http (heap w1 u)))) (MsgId (Http (heap w1 u))) (content_type (heap w1 u)))
      (x_body x) w2 w3"
    and r2: "replied e u (mq_reply (snd (post_erase m q)) 200 ''OK'' (Some ([NUL], 0)) 0 [] []) [] w3 w'"
    using Post_exchange [OF assms(1-3,9,8) c(1,2) n] unfolding c(3) by blast
  have "Handle (Http (heap w3 u)) = fd_of w u"
    using replied_frame(1) [OF r1 assms(9)] g(3) receivedD(4) [OF w1] by simp
  moreover have "heap w' y = heap w y" if "y \<noteq> u" "y \<noteq> r" for y
    using replied_frame(1) [OF r2 that(1)] replied_frame(1) [OF r1 that(2)] g(4) that receivedD(2) [OF w1 that(1)] by simp
  moreover have "RouterImpl_Process e what rcv fresh pick rts u (q, w) = (Inr (), snd (post_erase m q), w')"
    using run dispatch_method(2) [OF p assms(6)] g(1) by metis
  ultimately show ?thesis
    using forwarded_answer [OF r1 assms(10)] acknowledged_answer [OF r2] g(2,3) receivedD(3-5) [OF w1] by auto
qed

end
