(* ===== verification/Fiber_Traffic.thy ===== *)
theory Fiber_Traffic
  imports Fiber_Delivery
begin

text \<open>
  The service as its clients see it. \<open>desk\<close> is an abstract queue of contents: a \<open>PUT\<close> waits in it, a \<open>GET\<close> takes the
  oldest content, a \<open>POST\<close> answers the client whose content was taken; every request is answered in words of
  status, one header and content (\<open>said\<close>). The theory shows that the whole path from the bytes of a request over
  the buffer, the parser, the router and the request object to \<open>SyncQueueHandler\<close> and back to the sockets
  implements it, for any sequence of requests of any method, processed one after the other.
\<close>

section \<open>The abstract service\<close>

text \<open>An answer: descriptor, status, reason, a header, and content.\<close>

datatype said = Said int nat string "string \<times> string" string

definition mq_class :: "string \<times> string" where
  "mq_class = (''X-MQ-CLASS'', ''Sync.MQ.Queue'')"

abbreviation status :: "int \<Rightarrow> nat \<Rightarrow> string \<Rightarrow> said" where
  "status fd cd reason \<equiv> Said fd cd reason mq_class []"

text \<open>A request: who asks (its own identifier where that is used, and its descriptor) and for what.\<close>

datatype ask =
    AskPut uint64 int string
  | AskGet int
  | AskPost uint64 int forward_uid string
  | AskHead int
  | AskOptions int
  | AskOther int string string

text \<open>The state: contents that wait, with identifier and client, and the clients whose content was taken.\<close>

record desk =
  d_waiting :: "(uint64 \<times> int \<times> string) list"
  d_taken :: "uint64 \<rightharpoonup> int"

definition forward_note :: "uint64 \<Rightarrow> string \<times> string" where
  "forward_note m = (''X-MSG-FORWARD-UID'', to_string (unat m))"

fun desk_step :: "nat \<Rightarrow> ask \<Rightarrow> desk \<Rightarrow> said list \<times> desk" where
  "desk_step lim (AskPut m fd body) d =
     (if lim = 0 \<or> length (d_waiting d) < lim then ([], d\<lparr>d_waiting := d_waiting d @ [(m, fd, body)]\<rparr>)
      else ([Said fd 507 ''Insufficient Storage'' (''X-MQ-QUEUE-LIMIT'', to_string lim) []], d))"
| "desk_step lim (AskGet fd) d =
     (case d_waiting d of
        [] \<Rightarrow> ([status fd 204 ''Queue is empty''], d)
      | (m, client, body) # rest \<Rightarrow>
          ([Said fd 200 ''OK'' (forward_note m) body], d\<lparr>d_waiting := rest, d_taken := (d_taken d)(m \<mapsto> client)\<rparr>))"
| "desk_step lim (AskPost own fd uid body) d =
     (case uid of
        NoUid \<Rightarrow> ([status fd 400 ''Bad Request. Header `X-MSG-FORWARD-UID` not found''], d)
      | BadUid \<Rightarrow> ([status fd 400 ''Bad Request. Invalid `X-MSG-FORWARD-UID` header''], d)
      | Uid m \<Rightarrow>
          (case d_taken d m of
             None \<Rightarrow> ([status fd 300 ''Multiple Replays. Reply Ignored.''], d)
           | Some client \<Rightarrow>
               ([Said client 200 ''OK'' (forward_note own) body, status fd 200 ''OK''], d\<lparr>d_taken := (d_taken d)(m := None)\<rparr>)))"
| "desk_step lim (AskHead fd) d =
     (case d_waiting d of
        [] \<Rightarrow> ([status fd 204 ''Queue is empty''], d)
      | (m, _, _) # _ \<Rightarrow>
          (if m \<noteq> 0 then ([Said fd 200 ''OK'' (''X-MSG-HEAD-UID'', to_string (unat m)) []], d)
           else ([status fd 204 ''Queue is empty''], d)))"
| "desk_step lim (AskOptions fd) d = ([Said fd 200 ''OK'' (''Content-Type'', ''text/plain'') options_help], d)"
| "desk_step lim (AskOther fd meth allowed) d =
     ([Said fd 405 (''Method '' @ meth @ '' Not Allowed'') (''Allow'', allowed) []], d)"

fun desk_run :: "nat \<Rightarrow> ask list \<Rightarrow> desk \<Rightarrow> said list \<times> desk" where
  "desk_run lim [] d = ([], d)"
| "desk_run lim (a # as) d =
     (let (out, d') = desk_step lim a d; (outs, d'') = desk_run lim as d' in (out @ outs, d''))"

text \<open>Workers answer only what they were given: no \<open>POST\<close> names a message that still waits.\<close>

fun polite :: "ask \<Rightarrow> desk \<Rightarrow> bool" where
  "polite (AskPost own fd (Uid m) body) d \<longleftrightarrow> m \<notin> fst ` set (d_waiting d)"
| "polite _ d \<longleftrightarrow> True"

fun all_polite :: "nat \<Rightarrow> ask list \<Rightarrow> desk \<Rightarrow> bool" where
  "all_polite lim [] d \<longleftrightarrow> True"
| "all_polite lim (a # as) d \<longleftrightarrow> polite a d \<and> all_polite lim as (snd (desk_step lim a d))"

section \<open>What is sent\<close>

definition spoken :: "said \<Rightarrow> net_event list \<Rightarrow> bool" where
  "spoken s evs \<longleftrightarrow>
     (case s of Said fd cd reason h body \<Rightarrow>
        \<exists>answer. answer_with cd reason (fst h) (snd h) answer \<and>
          evs = Sent fd answer (int (length answer)) # (if body \<noteq> [] then [Sent fd body (int (length body))] else []) @ closing fd)"

fun transcript :: "said list \<Rightarrow> net_event list \<Rightarrow> bool" where
  "transcript [] evs \<longleftrightarrow> evs = []"
| "transcript (s # ss) evs \<longleftrightarrow> (\<exists>a b. evs = a @ b \<and> spoken s a \<and> transcript ss b)"

lemma transcript_append: "transcript ss a \<Longrightarrow> transcript ts b \<Longrightarrow> transcript (ss @ ts) (a @ b)"
  by (induction ss arbitrary: a) (auto, metis append.assoc)

text \<open>The effect on the world: what is said, and which requests it may change.\<close>

definition said_to :: "said list \<Rightarrow> reqref set \<Rightarrow> world \<Rightarrow> world \<Rightarrow> bool" where
  "said_to ss touched w w' \<longleftrightarrow>
     (\<exists>evs. events (sockets w') = events (sockets w) @ evs \<and> transcript ss evs) \<and>
     (\<forall>y. y \<notin> touched \<longrightarrow> heap w' y = heap w y)"

lemma said_to_trans: "said_to ss A w w1 \<Longrightarrow> said_to ts B w1 w2 \<Longrightarrow> said_to (ss @ ts) (A \<union> B) w w2"
  unfolding said_to_def using transcript_append by fastforce

lemma said_to_mono: "said_to ss A w w' \<Longrightarrow> A \<subseteq> B \<Longrightarrow> said_to ss B w w'"
  unfolding said_to_def by blast

lemma replied_said:
  assumes "replied e r (mq_reply q cd reason c len hs ct) body w w'"
    and "(k, Live v) \<in> set (rHeaders (mq_reply q cd reason c len hs ct))"
  shows "said_to [Said (fd_of w r) cd reason (k, v) body] {r} w w'"
proof -
  have m: "rMessage (mq_reply q cd reason c len hs ct) = Some reason" by (simp add: mq_reply_def GetStats_def)
  obtain answer where a: "reply_head e (Http (heap w r)) (e_now e (ticks (sockets w))) (mq_reply q cd reason c len hs ct) = Inr answer"
      "events (sockets w') = events (sockets w) @ [Sent (fd_of w r) answer (int (length answer))] @
        (if body \<noteq> [] then [Sent (fd_of w r) body (int (length body))] else []) @ closing (fd_of w r)"
    using assms(1) by (auto simp: replied_def Let_def)
  have "answer_with cd reason k v answer" using reply_head_answer [OF a(1) assms(2) m] by simp
  then have "transcript [Said (fd_of w r) cd reason (k, v) body]
      (Sent (fd_of w r) answer (int (length answer)) # (if body \<noteq> [] then [Sent (fd_of w r) body (int (length body))] else []) @ closing (fd_of w r))"
    by (auto simp: spoken_def)
  then show ?thesis using a(2) replied_frame(1) [OF assms(1)] unfolding said_to_def by auto
qed

section \<open>Answers with a text\<close>

lemma text_content:
  assumes "NUL \<notin> set body" and "length body < 2 ^ 64"
  shows "content_bytes (mq_reply q cd msg (Some (body @ [NUL], 0)) (length body) hs ct) = Inr body"
    "\<exists>len. content_length (mq_reply q cd msg (Some (body @ [NUL], 0)) (length body) hs ct) = Inr len"
  using assms by (cases "body = []"; simp add: content_bytes_def content_length_def strlen_def c_str_def)+

lemma ReplyWithCode_string_said:
  assumes "sends_all e" and "readable e" and "\<forall>y. qy y" and "NUL \<notin> set body" and "length body < 2 ^ 64"
    and "(k, Live v) \<in> set (rHeaders (mq_reply q cd msg (Some (body @ [NUL], 0)) (length body) hs ct))"
  shows "\<exists>w'. ignoring (ReplyWithCode_string (RequestImpl e qy) r cd msg body hs ct) (q, w) = (Inr (), q, w') \<and>
    said_to [Said (fd_of w r) cd msg (k, v) body] {r} w w'"
proof -
  let ?a = "mq_reply q cd msg (Some (body @ [NUL], 0)) (length body) hs ct"
  obtain len where "content_length ?a = Inr len" using text_content(2) [OF assms(4,5)] by blast
  from RequestImpl_Reply_sent [OF assms(1,2) this text_content(1) [OF assms(4,5)]] obtain w' where
    "RequestImpl_Reply e r ?a w = (Inr True, w')" "replied e r ?a body w w'" by force
  then show ?thesis using replied_said [OF _ assms(6)] assms(3)
    by (auto simp: ignoring_eq ReplyWithCode_string_def on_snd_def as_unit_def)
qed

section \<open>The relation between queue and service\<close>

text \<open>A request object that waits: parsed, with its content and the descriptor of its client.\<close>

definition holds_content :: "world \<Rightarrow> reqref \<Rightarrow> int \<Rightarrow> string \<Rightarrow> bool" where
  "holds_content w r fd body \<longleftrightarrow>
     (\<exists>x. parsed x (heap w r) \<and> x_body x = body) \<and> fd_of w r = fd \<and> body \<noteq> [] \<and> length body < 2 ^ 64"

definition waits_in :: "sync_queue \<Rightarrow> world \<Rightarrow> uint64 \<times> int \<times> string \<Rightarrow> bool" where
  "waits_in q w a \<longleftrightarrow>
     (case a of (m, fd, body) \<Rightarrow> \<exists>r. map_of (mq_messages q) m = Some r \<and> holds_content w r fd body)"

definition taken_from :: "sync_queue \<Rightarrow> world \<Rightarrow> uint64 \<rightharpoonup> int" where
  "taken_from q w = (\<lambda>m. if m \<in> set (mq_locked q) then map_option (fd_of w) (map_of (mq_messages q) m) else None)"

definition serves :: "desk \<Rightarrow> sync_queue \<Rightarrow> world \<Rightarrow> bool" where
  "serves d q w \<longleftrightarrow>
     sq_exact q \<and> distinct (map snd (mq_messages q)) \<and> map fst (d_waiting d) = mq_queue q \<and>
     list_all (waits_in q w) (d_waiting d) \<and> d_taken d = taken_from q w"

abbreviation refs_of :: "sync_queue \<Rightarrow> reqref set" where
  "refs_of q \<equiv> snd ` set (mq_messages q)"

abbreviation ids_of :: "sync_queue \<Rightarrow> uint64 set" where
  "ids_of q \<equiv> fst ` set (mq_messages q)"

lemma serves_queue: "serves d q w \<Longrightarrow> mq_queue q = map fst (d_waiting d)"
  by (simp add: serves_def)

lemma map_of_refs: "map_of (mq_messages q) m = Some r \<Longrightarrow> r \<in> refs_of q"
  by (force dest: map_of_SomeD)

lemma holds_content_cong: "heap w' r = heap w r \<Longrightarrow> holds_content w' r fd body = holds_content w r fd body"
  by (simp add: holds_content_def)

lemma map_of_inj:
  assumes "distinct (map snd ms)" and "map_of ms m = Some r" and "map_of ms m' = Some r"
  shows "m = m'"
  using assms by (metis map_of_SomeD distinct_map inj_onD prod.inject snd_conv)

lemma waits_in_cong:
  assumes "map_of (mq_messages q') (fst a) = map_of (mq_messages q) (fst a)"
    and "\<And>r. map_of (mq_messages q) (fst a) = Some r \<Longrightarrow> heap w' r = heap w r"
  shows "waits_in q' w' a = waits_in q w a"
proof -
  obtain m fd body where a: "a = (m, fd, body)" by (cases a)
  have "holds_content w' r fd body = holds_content w r fd body" if "map_of (mq_messages q) m = Some r" for r
    using assms(2) that a by (intro holds_content_cong) simp
  then show ?thesis using assms(1) by (auto simp: waits_in_def a)
qed

lemma taken_from_cong:
  assumes "m \<in> set (mq_locked q') \<longleftrightarrow> m \<in> set (mq_locked q)"
    and "m \<in> set (mq_locked q) \<Longrightarrow> map_of (mq_messages q') m = map_of (mq_messages q) m"
    and "\<And>r. map_of (mq_messages q) m = Some r \<Longrightarrow> heap w' r = heap w r"
  shows "taken_from q' w' m = taken_from q w m"
  using assms by (cases "map_of (mq_messages q) m") (auto simp: taken_from_def)

lemma serves_frame:
  assumes "serves d q w" and "\<And>r. r \<in> refs_of q \<Longrightarrow> heap w' r = heap w r"
  shows "serves d q w'"
proof -
  have "waits_in q w' = waits_in q w" by (intro ext waits_in_cong refl assms(2)) (rule map_of_refs)
  moreover have "taken_from q w' = taken_from q w"
    by (intro ext taken_from_cong refl assms(2)) (rule map_of_refs)
  ultimately show ?thesis using assms(1) by (simp add: serves_def)
qed

lemma serves_put:
  assumes "serves d q w" and "map_of (mq_messages q) m = None" and "r \<notin> refs_of q"
    and "LimitSize q = 0 \<or> length (mq_queue q) < LimitSize q"
    and "\<And>y. y \<noteq> r \<Longrightarrow> heap w' y = heap w y" and "holds_content w' r fd body"
  shows "serves (d\<lparr>d_waiting := d_waiting d @ [(m, fd, body)]\<rparr>)
    (q\<lparr>mq_queue := mq_queue q @ [m], mq_messages := mq_messages q @ [(m, r)]\<rparr>) w'" (is "serves ?d ?q w'")
proof -
  have s: "serves d q w'"
  proof (rule serves_frame [OF assms(1)])
    fix y assume "y \<in> refs_of q"
    then show "heap w' y = heap w y" using assms(3) by (intro assms(5)) blast
  qed
  have "sq_exact ?q" using put_section_exact [of q m r] assms(1,2,4) by (simp add: serves_def put_section_eq)
  moreover have "map fst (d_waiting ?d) = mq_queue ?q" "distinct (map snd (mq_messages ?q))"
    using s assms(3) by (auto simp: serves_def)
  moreover have "list_all (waits_in ?q w') (d_waiting ?d)"
  proof -
    have "waits_in ?q w' a" if "a \<in> set (d_waiting d)" for a
    proof -
      have "waits_in q w' a" using s that by (simp add: serves_def list_all_iff)
      then show ?thesis by (cases a) (auto simp: waits_in_def map_add_def)
    qed
    moreover have "waits_in ?q w' (m, fd, body)" using assms(2,6) by (simp add: waits_in_def map_add_def)
    ultimately show ?thesis by (simp add: list_all_iff)
  qed
  moreover have "taken_from ?q w' = taken_from q w'"
  proof -
    have "\<exists>r. map_of (mq_messages q) x = Some r" if "x \<in> set (mq_locked q)" for x
      using sq_exact_lookup [of q x] that s by (auto simp: serves_def)
    then show ?thesis by (intro ext taken_from_cong) (fastforce simp: map_add_def)+
  qed
  ultimately show ?thesis using s by (simp add: serves_def)
qed

lemma others_kept:
  assumes "distinct (map snd (mq_messages q))" and "map_of (mq_messages q) m = Some r"
    and "\<And>y. y \<in> refs_of q \<Longrightarrow> y \<noteq> r \<Longrightarrow> heap w' y = heap w y"
    and "map_of (mq_messages q) x = Some y" and "x \<noteq> m"
  shows "heap w' y = heap w y"
proof (rule assms(3))
  show "y \<in> refs_of q" by (rule map_of_refs [OF assms(4)])
  show "y \<noteq> r" using map_of_inj [OF assms(1,2)] assms(4,5) by auto
qed

lemma serves_get:
  assumes "serves d q w" and "d_waiting d = (m, fd, body) # rest" and "map_of (mq_messages q) m = Some r"
    and "\<And>y. y \<in> refs_of q \<Longrightarrow> y \<noteq> r \<Longrightarrow> heap w' y = heap w y" and "fd_of w' r = fd"
  shows "serves (d\<lparr>d_waiting := rest, d_taken := (d_taken d)(m \<mapsto> fd)\<rparr>)
    (q\<lparr>mq_queue := map fst rest, mq_locked := uset_emplace m (mq_locked q)\<rparr>) w'" (is "serves ?d ?q w'")
proof -
  have q: "mq_queue q = m # map fst rest" using assms(1,2) by (simp add: serves_def)
  have ex: "sq_exact q" and inj: "distinct (map snd (mq_messages q))" using assms(1) by (simp_all add: serves_def)
  have "snd (get_section (R :: world irequest) q) = ?q" for R
    using q assms(3) by (simp add: get_section_def umap_find_plain)
  then have sq: "sq_exact ?q" using get_section_exact [OF ex, of "undefined :: world irequest"] by simp
  note other = others_kept [OF inj assms(3,4)]
  have "list_all (waits_in ?q w') rest"
  proof -
    have "m \<notin> fst ` set rest" using ex q by (auto simp: sq_exact_def)
    moreover have "waits_in q w a" if "a \<in> set rest" for a using assms(1,2) that by (simp add: serves_def list_all_iff)
    moreover have "waits_in ?q w' a = waits_in q w a" if "fst a \<noteq> m" for a using other that by (intro waits_in_cong) simp_all
    ultimately show ?thesis by (force simp: list_all_iff)
  qed
  moreover have "taken_from ?q w' = (taken_from q w)(m \<mapsto> fd)"
  proof
    fix x
    show "taken_from ?q w' x = ((taken_from q w)(m \<mapsto> fd)) x"
    proof (cases "x = m")
      case True
      then show ?thesis using assms(3,5) by (simp add: taken_from_def)
    next
      case False
      then show ?thesis using other taken_from_cong [of x ?q q w' w] by simp
    qed
  qed
  ultimately show ?thesis using assms(1) sq by (simp add: serves_def)
qed

lemma serves_post:
  assumes "serves d q w" and "d_taken d m = Some fd" and "map_of (mq_messages q) m = Some r"
    and "\<And>y. y \<in> refs_of q \<Longrightarrow> y \<noteq> r \<Longrightarrow> heap w' y = heap w y"
  shows "serves (d\<lparr>d_taken := (d_taken d)(m := None)\<rparr>) (snd (post_erase m q)) w'" (is "serves ?d ?q w'")
proof -
  have ex: "sq_exact q" and inj: "distinct (map snd (mq_messages q))" using assms(1) by (simp_all add: serves_def)
  have m: "m \<in> set (mq_locked q)" using assms(1,2) by (auto simp: serves_def taken_from_def split: if_splits)
  then have nq: "m \<notin> set (mq_queue q)" using ex by (auto simp: sq_exact_def)
  note other = others_kept [OF inj assms(3,4)]
  have "sq_exact ?q" by (rule post_erase_exact [OF ex nq])
  moreover have "distinct (map snd (mq_messages ?q))" using inj by (simp add: post_erase_def umap_erase_plain distinct_map_filter)
  moreover have "list_all (waits_in ?q w') (d_waiting d)"
  proof -
    have "m \<notin> fst ` set (d_waiting d)" using nq assms(1) by (metis list.set_map serves_def)
    moreover have "waits_in q w a" if "a \<in> set (d_waiting d)" for a using assms(1) that by (simp add: serves_def list_all_iff)
    moreover have "waits_in ?q w' a = waits_in q w a" if "fst a \<noteq> m" for a
      using other that by (intro waits_in_cong) (simp_all add: post_erase_def map_of_umap_erase)
    ultimately show ?thesis by (force simp: list_all_iff)
  qed
  moreover have "taken_from ?q w' = (taken_from q w)(m := None)"
  proof
    fix x
    show "taken_from ?q w' x = ((taken_from q w)(m := None)) x"
    proof (cases "x = m")
      case True
      then show ?thesis by (simp add: taken_from_def post_erase_def)
    next
      case False
      then show ?thesis using other taken_from_cong [of x ?q q w' w] by (simp add: post_erase_def map_of_umap_erase)
    qed
  qed
  ultimately show ?thesis using assms(1) by (simp add: serves_def post_erase_def)
qed

section \<open>One request\<close>

text \<open>A connection to be processed: its request object, the request on it, how it arrives, and the bytes of the new array.\<close>

record arrival =
  a_ref :: reqref
  a_wire :: wire
  a_rcv :: "nat \<Rightarrow> recv_step"
  a_fresh :: "nat \<Rightarrow> byte"

definition ask_of :: "world \<Rightarrow> arrival \<Rightarrow> ask" where
  "ask_of w a =
     (let x = a_wire a; fd = fd_of w (a_ref a); own = id_of w (a_ref a); m = x_method x
      in if m = 0 then AskGet fd
         else if m = 1 then AskPost own fd (wire_uid x) (x_body x)
         else if m = 2 then AskPut own fd (x_body x)
         else if m = 3 then AskHead fd
         else if m = 4 then AskOptions fd
         else if m = 5 then AskOther fd ''DELETE'' ''PUT,GET,POST,HEAD,OPTIONS''
         else if m = 6 then AskOther fd ''TRACE'' ''PUT''
         else if m = 7 then AskOther fd ''CONNECT'' ''PUT,GET,POST,HEAD,OPTIONS''
         else AskOther fd ''PATCH'' ''PUT,GET,POST,HEAD,OPTIONS'')"

definition arrives :: "arrival \<Rightarrow> world \<Rightarrow> bool" where
  "arrives a w \<longleftrightarrow>
     reception (a_wire a) (a_rcv a) \<and> awaits (a_wire a) (heap w (a_ref a)) \<and>
     (x_method (a_wire a) \<in> {1, 2} \<longrightarrow> x_body (a_wire a) \<noteq> [] \<and> length (x_body (a_wire a)) < 2 ^ 64)"

text \<open>How far one processed request moves queue and world.\<close>

definition moved :: "reqref \<Rightarrow> said list \<Rightarrow> sync_queue \<Rightarrow> world \<Rightarrow> sync_queue \<Rightarrow> world \<Rightarrow> bool" where
  "moved r ss q w q' w' \<longleftrightarrow>
     said_to ss (insert r (refs_of q)) w w' \<and> LimitSize q' = LimitSize q \<and>
     refs_of q' \<subseteq> insert r (refs_of q) \<and> ids_of q' \<subseteq> insert (id_of w r) (ids_of q)"

text \<open>An answer that leaves the queue alone.\<close>

lemma unmoved:
  assumes "serves d q w" and "r \<notin> refs_of q" and "said_to ss {r} w w'"
  shows "serves d q w' \<and> moved r ss q w q w'"
proof
  show "serves d q w'" using assms(2,3) by (intro serves_frame [OF assms(1)]) (auto simp: said_to_def)
  show "moved r ss q w q w'" unfolding moved_def using said_to_mono [OF assms(3)] by auto
qed

lemma received_said: "received x r w w1 \<Longrightarrow> said_to [] {r} w w1"
  by (auto simp: received_def said_to_def)

lemma header_read_said:
  assumes "headers_wf (heap w r)" and "rq_header (RequestImpl e qy) r k d w = (z, w')"
  shows "said_to [] {r} w w'" "fd_of w' r = fd_of w r"
  using assms rq_header_wf [OF assms(1), of e qy k d] by (auto simp: said_to_def)

text \<open>The operations that never change the queue.\<close>

lemma dispatch_status:
  assumes "parsed x (heap w r)"
  shows "x_method x = 3 \<Longrightarrow> RequestImpl_Process e (Some (SyncQueueHandler R)) r (q, w) = HeadMsg R r (q, w)"
    "x_method x = 4 \<Longrightarrow> RequestImpl_Process e (Some (SyncQueueHandler R)) r (q, w) = Options R r (q, w)"
    "x_method x = 5 \<Longrightarrow> RequestImpl_Process e (Some (SyncQueueHandler R)) r (q, w) = Delete R r (q, w)"
    "x_method x = 6 \<Longrightarrow> RequestImpl_Process e (Some (SyncQueueHandler R)) r (q, w) = Trace R r (q, w)"
    "x_method x = 7 \<Longrightarrow> RequestImpl_Process e (Some (SyncQueueHandler R)) r (q, w) = Connect R r (q, w)"
    "x_method x = 8 \<Longrightarrow> RequestImpl_Process e (Some (SyncQueueHandler R)) r (q, w) = Patch R r (q, w)"
  using assms by (simp_all add: parsed_def RequestImpl_Process_def SyncQueueHandler_def method_of_def method_list_def)

lemma mq_class_header [simp]: "(''X-MQ-CLASS'', Live ''Sync.MQ.Queue'') \<in> set (rHeaders (mq_reply q cd msg c len hs ct))"
  by (simp add: mq_reply_def GetStats_def)

lemma given_header [simp]: "(k, Live v) \<in> set hs \<Longrightarrow> (k, Live v) \<in> set (rHeaders (mq_reply q cd msg c len hs ct))"
  by (simp add: mq_reply_def GetStats_def)

lemma status_said:
  assumes "sends_all e" and "readable e" and "\<forall>y. qy y"
  shows "\<exists>w'. ignoring (ReplyWithCode_string (RequestImpl e qy) r cd msg [] hs ct) (q, w) = (Inr (), q, w') \<and>
    said_to [status (fd_of w r) cd msg] {r} w w'"
  unfolding mq_class_def by (rule ReplyWithCode_string_said [OF assms]) simp_all

lemma header_said:
  assumes "sends_all e" and "readable e" and "\<forall>y. qy y" and "(k, Live v) \<in> set hs"
  shows "\<exists>w'. ignoring (ReplyWithCode_string (RequestImpl e qy) r cd msg [] hs ct) (q, w) = (Inr (), q, w') \<and>
    said_to [Said (fd_of w r) cd msg (k, v) []] {r} w w'"
  using assms(4) by (intro ReplyWithCode_string_said [OF assms(1-3)]) simp_all

lemma options_help_text: "NUL \<notin> set options_help" "length options_help < 2 ^ 64"
  by (simp_all add: options_help_def NUL_def LF_def)

lemma Options_said:
  assumes "sends_all e" and "readable e" and "\<forall>y. qy y"
  shows "\<exists>w'. Options (RequestImpl e qy) r (q, w) = (Inr (), q, w') \<and>
    said_to [Said (fd_of w r) 200 ''OK'' (''Content-Type'', ''text/plain'') options_help] {r} w w'"
  unfolding Options_def
  by (rule ReplyWithCode_string_said [OF assms options_help_text]) (simp add: mq_reply_def GetStats_def)

lemma not_allowed_said:
  assumes "sends_all e" and "readable e" and "\<forall>y. qy y"
  shows "\<exists>w'. not_allowed (RequestImpl e qy) r meth allowed (q, w) = (Inr (), q, w') \<and>
    said_to [Said (fd_of w r) 405 (''Method '' @ meth @ '' Not Allowed'') (''Allow'', allowed) []] {r} w w'"
  unfolding not_allowed_def by (rule header_said [OF assms]) simp

lemma HeadMsg_said:
  assumes "sends_all e" and "readable e" and "\<forall>y. qy y" and "map fst (d_waiting d) = mq_queue q"
  shows "\<exists>w'. HeadMsg (RequestImpl e qy) r (q, w) = (Inr (), q, w') \<and>
    said_to (fst (desk_step lim (AskHead (fd_of w r)) d)) {r} w w'"
proof -
  have h: "HeadMsg (RequestImpl e qy) r (q, w) =
      (if m \<noteq> 0 then ignoring (ReplyWithCode_string (RequestImpl e qy) r 200 ''OK'' [] [(''X-MSG-HEAD-UID'', Live (to_string (unat m)))] [])
       else ignoring (ReplyWithCode_string (RequestImpl e qy) r 204 ''Queue is empty'' [] [] [])) (q, w)"
    if "m = (case mq_queue q of [] \<Rightarrow> 0 | m # _ \<Rightarrow> m)" for m
    using that by (simp add: HeadMsg_def mbind_def on_fst_def head_section_def)
  note s = status_said [OF assms(1-3), of r 204 "''Queue is empty''" "[]" "[]" q w]
  show ?thesis
  proof (cases "d_waiting d")
    case Nil
    then show ?thesis using h [OF refl] s assms(4) by simp
  next
    case (Cons a rest)
    obtain m fd body where a: "a = (m, fd, body)" by (cases a)
    have m: "m = (case mq_queue q of [] \<Rightarrow> 0 | m # _ \<Rightarrow> m)" using assms(4) Cons a by (simp flip: assms(4))
    show ?thesis
      using h [OF m] s header_said [OF assms(1-3), of "''X-MSG-HEAD-UID''" "to_string (unat m)"
          "[(''X-MSG-HEAD-UID'', Live (to_string (unat m)))]" r 200 "''OK''" "[]" q w]
      by (cases "m = 0") (simp_all add: Cons a)
  qed
qed

text \<open>Operations that end in a status without changing the queue.\<close>

lemma reply_status:
  "\<forall>y. qy y \<Longrightarrow> ignoring (ReplyWithCode_string (RequestImpl e qy) r cd msg [] hs ct) (q, w) =
     as_unit (on_snd (RequestImpl_Reply e r (mq_reply q cd msg (Some ([NUL], 0)) 0 hs ct)) (q, w))"
  by (simp add: ignoring_eq ReplyWithCode_string_def)

lemma Get_empty_said:
  assumes "sends_all e" and "readable e" and "\<forall>y. qy y" and "mq_queue q = []"
  shows "\<exists>w'. Get (RequestImpl e qy) r (q, w) = (Inr (), q, w') \<and> said_to [status (fd_of w r) 204 ''Queue is empty''] {r} w w'"
  using Get_empty [of "RequestImpl e qy" r q w] status_said [OF assms(1-3), of r 204 "''Queue is empty''" "[]" "[]" q w] assms(3,4)
  by (simp add: reply_status)

lemma Put_full_said:
  assumes "sends_all e" and "readable e" and "\<forall>y. qy y" and "LimitSize q \<noteq> 0" and "LimitSize q \<le> length (mq_queue q)"
  shows "\<exists>w'. Put (RequestImpl e qy) r (q, w) = (Inr (), q, w') \<and>
    said_to [Said (fd_of w r) 507 ''Insufficient Storage'' (''X-MQ-QUEUE-LIMIT'', to_string (LimitSize q)) []] {r} w w'"
  using Put_full [of "RequestImpl e qy" r q w] assms(3-5)
    header_said [OF assms(1-3), of "''X-MQ-QUEUE-LIMIT''" "to_string (LimitSize q)"
      "[(''X-MQ-QUEUE-LIMIT'', Live (to_string (LimitSize q)))]" r 507 "''Insufficient Storage''" "[]" q w]
  by (simp add: reply_status)

lemma Post_refused_said:
  assumes "sends_all e" and "readable e" and "\<forall>y. qy y" and "parsed x (heap w r)"
    and "wire_uid x = Uid m \<Longrightarrow> map_of (mq_messages q) m = None"
    and "reason = (case wire_uid x of NoUid \<Rightarrow> ''Bad Request. Header `X-MSG-FORWARD-UID` not found''
      | BadUid \<Rightarrow> ''Bad Request. Invalid `X-MSG-FORWARD-UID` header'' | Uid _ \<Rightarrow> ''Multiple Replays. Reply Ignored.'')"
    and "cd = (case wire_uid x of Uid _ \<Rightarrow> 300 | _ \<Rightarrow> 400)" and "wire_uid x \<in> {NoUid, BadUid, Uid m}"
  shows "\<exists>w'. Post (RequestImpl e qy) r (q, w) = (Inr (), q, w') \<and> said_to [status (fd_of w r) cd reason] {r} w w'"
proof -
  let ?R = "RequestImpl e qy"
  have wf: "headers_wf (heap w r)" using assms(4) by (rule parsed_headers_wf)
  obtain z w1 where z: "rq_header ?R r ''X-MSG-FORWARD-UID'' None w = (z, w1)" by fastforce
  have zo: "z = option_of (heap w r) ''X-MSG-FORWARD-UID'' None" using z rq_header_wf [OF wf, of e qy] by simp
  note u = option_of_uid [OF assms(4), folded zo]
  obtain w' where w': "ignoring (ReplyWithCode_string ?R r cd reason [] [] []) (q, w1) = (Inr (), q, w')"
      "said_to [status (fd_of w1 r) cd reason] {r} w1 w'"
    using status_said [OF assms(1-3)] by blast
  have "said_to [status (fd_of w r) cd reason] {r} w w'"
    using said_to_trans [OF header_read_said(1) [OF wf z] w'(2)] header_read_said(2) [OF wf z] by simp
  moreover have "Post ?R r (q, w) = (Inr (), q, w')"
  proof (cases "wire_uid x")
    case NoUid
    then show ?thesis using Post_without_id [OF _ z u(1)] w'(1) assms(3,6,7) by (simp add: reply_status)
  next
    case BadUid
    then obtain t y where "\<not> zempty z" "zstr z = Inr t" "stoul t = Inl y" using u(2) by blast
    then show ?thesis using Post_bad_id [OF _ z] w'(1) assms(3,6,7) BadUid by (simp add: reply_status)
  next
    case (Uid m')
    then have m: "wire_uid x = Uid m" using assms(8) by auto
    then have r: "cd = 300" "reason = ''Multiple Replays. Reply Ignored.''" using assms(6,7) by simp_all
    obtain w2 where "RequestImpl_Reply e r (mq_reply q 300 ''Multiple Replays. Reply Ignored.'' (Some ([NUL], 0)) 0 [] []) w1 = (Inr True, w2)"
      using status_replied [OF assms(1,2)] by blast
    then show ?thesis
      using Post_answered_before [OF _ z u(3) [OF m] assms(5) [OF m], of "Inr True" w2] w'(1) assms(3)
      by (simp add: r ignoring_eq ReplyWithCode_string_def on_snd_def as_unit_def)
  qed
  ultimately show ?thesis by blast
qed

text \<open>From the handler to the connection.\<close>

lemma status_step:
  assumes "arrives a w" and "route_find pick rts (x_uri (a_wire a)) = Some (Some mq)"
    and "serves d q w" and "a_ref a \<notin> refs_of q"
    and "\<And>w1. received (a_wire a) (a_ref a) w w1 \<Longrightarrow>
      \<exists>w'. RequestImpl_Process e (Some mq) (a_ref a) (q, w1) = (Inr (), q, w') \<and> said_to ss {a_ref a} w1 w'"
  shows "\<exists>w'. RouterImpl_Process e what (a_rcv a) (a_fresh a) pick rts (a_ref a) (q, w) = (Inr (), q, w') \<and>
    serves d q w' \<and> moved (a_ref a) ss q w q w'"
proof -
  obtain w1 where w1: "received (a_wire a) (a_ref a) w w1" and run: "\<And>s'. RequestImpl_Process e (Some mq) (a_ref a) (q, w1) =
      (Inr (), s') \<Longrightarrow> RouterImpl_Process e what (a_rcv a) (a_fresh a) pick rts (a_ref a) (q, w) = (Inr (), s')"
    using RouterImpl_Process_routed [of "a_wire a" "a_rcv a" w "a_ref a" pick rts mq e q what "a_fresh a"] assms(1,2)
    unfolding arrives_def by blast
  obtain w' where w': "RequestImpl_Process e (Some mq) (a_ref a) (q, w1) = (Inr (), q, w')" "said_to ss {a_ref a} w1 w'"
    using assms(5) [OF w1] by blast
  have "said_to ss {a_ref a} w w'" using said_to_trans [OF received_said [OF w1] w'(2)] by simp
  then show ?thesis using unmoved [OF assms(3,4)] run [OF w'(1)] by blast
qed

text \<open>What one processed connection has to do to follow a step of the service.\<close>

definition follows ::
    "env \<Rightarrow> (exn \<Rightarrow> string) \<Rightarrow> nat \<Rightarrow> (sync_queue \<times> world) imq option routes \<Rightarrow> arrival \<Rightarrow> sync_queue \<Rightarrow> world \<Rightarrow> said list \<times> desk \<Rightarrow> bool" where
  "follows e what pick rts a q w out \<longleftrightarrow>
     (\<exists>q' w'. RouterImpl_Process e what (a_rcv a) (a_fresh a) pick rts (a_ref a) (q, w) = (Inr (), q', w') \<and>
        serves (snd out) q' w' \<and> moved (a_ref a) (fst out) q w q' w')"

definition to_queue :: "env \<Rightarrow> (reqref \<Rightarrow> bool) \<Rightarrow> nat \<Rightarrow> (sync_queue \<times> world) imq option routes \<Rightarrow> arrival \<Rightarrow> bool" where
  "to_queue e qy pick rts a \<longleftrightarrow>
     route_find pick rts (x_uri (a_wire a)) = Some (Some (SyncQueueHandler (RequestImpl e qy)))"

lemma follows_status:
  assumes "arrives a w" and "to_queue e qy pick rts a" and "serves d q w" and "a_ref a \<notin> refs_of q" and "snd out = d"
    and "\<And>w1. received (a_wire a) (a_ref a) w w1 \<Longrightarrow>
      \<exists>w'. RequestImpl_Process e (Some (SyncQueueHandler (RequestImpl e qy))) (a_ref a) (q, w1) = (Inr (), q, w') \<and>
        said_to (fst out) {a_ref a} w1 w'"
  shows "follows e what pick rts a q w out"
  using status_step [OF assms(1) assms(2) [unfolded to_queue_def] assms(3,4,6), of what] assms(5)
  unfolding follows_def by blast

lemma follows_put:
  assumes "sends_all e" and "readable e" and "\<forall>y. qy y" and "arrives a w" and "to_queue e qy pick rts a"
    and "serves d q w" and "a_ref a \<notin> refs_of q" and "id_of w (a_ref a) \<notin> ids_of q" and "x_method (a_wire a) = 2"
  shows "follows e what pick rts a q w (desk_step (LimitSize q) (AskPut (id_of w (a_ref a)) (fd_of w (a_ref a)) (x_body (a_wire a))) d)"
proof -
  let ?r = "a_ref a" and ?x = "a_wire a" and ?m = "id_of w (a_ref a)" and ?fd = "fd_of w (a_ref a)"
  have len: "length (d_waiting d) = length (mq_queue q)" using serves_queue [OF assms(6)] by simp
  have m: "map_of (mq_messages q) ?m = None" using assms(8) by (simp add: map_of_eq_None_iff)
  show ?thesis
  proof (cases "LimitSize q = 0 \<or> length (mq_queue q) < LimitSize q")
    case True
    have q: "qy ?r" using assms(3) by simp
    obtain w' where w': "RouterImpl_Process e what (a_rcv a) (a_fresh a) pick rts ?r (q, w) =
        (Inr (), q\<lparr>mq_queue := mq_queue q @ [?m], mq_messages := mq_messages q @ [(?m, ?r)]\<rparr>, w')" "received ?x ?r w w'"
      using client_put [of qy ?r ?x "a_rcv a" w pick rts e q what "a_fresh a"] q assms(4,5,9) True m
      unfolding arrives_def to_queue_def by blast
    have "holds_content w' ?r ?fd (x_body ?x)"
      using receivedD(1,4) [OF w'(2)] assms(4,9) by (auto simp: holds_content_def arrives_def)
    then have "serves (d\<lparr>d_waiting := d_waiting d @ [(?m, ?fd, x_body ?x)]\<rparr>)
        (q\<lparr>mq_queue := mq_queue q @ [?m], mq_messages := mq_messages q @ [(?m, ?r)]\<rparr>) w'"
      using serves_put [OF assms(6) m assms(7) True receivedD(2) [OF w'(2)]] by blast
    moreover have "said_to [] (insert ?r (refs_of q)) w w'" using said_to_mono [OF received_said [OF w'(2)]] by blast
    ultimately show ?thesis using w'(1) True len by (auto simp: follows_def moved_def)
  next
    case False
    show ?thesis
    proof (rule follows_status [OF assms(4-7)])
      show "snd (desk_step (LimitSize q) (AskPut ?m ?fd (x_body ?x)) d) = d" using False len by simp
      fix w1 assume w1: "received ?x ?r w w1"
      show "\<exists>w'. RequestImpl_Process e (Some (SyncQueueHandler (RequestImpl e qy))) ?r (q, w1) = (Inr (), q, w') \<and>
          said_to (fst (desk_step (LimitSize q) (AskPut ?m ?fd (x_body ?x)) d)) {?r} w1 w'"
        unfolding dispatch_method(3) [OF receivedD(1) [OF w1] assms(9)]
        using Put_full_said [OF assms(1-3), of q ?r w1] False len receivedD(4) [OF w1, of ?r] by auto
    qed
  qed
qed

text \<open>Answers of two parties: the events the exchange lemmas give, as what is said.\<close>

lemma spokenI:
  "answer_with cd reason k v answer \<Longrightarrow>
   spoken (Said fd cd reason (k, v) body)
     (Sent fd answer (int (length answer)) # (if body \<noteq> [] then [Sent fd body (int (length body))] else []) @ closing fd)"
  by (auto simp: spoken_def)

lemma forward_spoken:
  "answer_with 200 ''OK'' ''X-MSG-FORWARD-UID'' (to_string (unat m)) answer \<Longrightarrow> body \<noteq> [] \<Longrightarrow>
   spoken (Said fd 200 ''OK'' (forward_note m) body)
     (Sent fd answer (int (length answer)) # Sent fd body (int (length body)) # closing fd)"
  using spokenI [of 200 "''OK''" "''X-MSG-FORWARD-UID''" "to_string (unat m)" answer fd body] by (simp add: forward_note_def)

text \<open>A worker finds the queue empty.\<close>

lemma follows_get_empty:
  assumes "sends_all e" and "readable e" and "\<forall>y. qy y" and "arrives a w" and "to_queue e qy pick rts a"
    and "serves d q w" and "a_ref a \<notin> refs_of q" and "x_method (a_wire a) = 0" and "d_waiting d = []"
  shows "follows e what pick rts a q w (desk_step (LimitSize q) (AskGet (fd_of w (a_ref a))) d)"
proof (rule follows_status [OF assms(4-7)])
  show "snd (desk_step (LimitSize q) (AskGet (fd_of w (a_ref a))) d) = d" using assms(9) by simp
  fix w1 assume w1: "received (a_wire a) (a_ref a) w w1"
  have q: "mq_queue q = []" using serves_queue [OF assms(6)] assms(9) by simp
  show "\<exists>w'. RequestImpl_Process e (Some (SyncQueueHandler (RequestImpl e qy))) (a_ref a) (q, w1) = (Inr (), q, w') \<and>
      said_to (fst (desk_step (LimitSize q) (AskGet (fd_of w (a_ref a))) d)) {a_ref a} w1 w'"
    unfolding dispatch_method(1) [OF receivedD(1) [OF w1] assms(8)]
    using Get_empty_said [OF assms(1-3) q, of "a_ref a" w1] assms(9) receivedD(4) [OF w1, of "a_ref a"] by simp
qed

lemma follows_get:
  assumes "sends_all e" and "readable e" and "\<forall>y. qy y" and "arrives a w" and "to_queue e qy pick rts a"
    and "serves d q w" and "a_ref a \<notin> refs_of q" and "x_method (a_wire a) = 0"
  shows "follows e what pick rts a q w (desk_step (LimitSize q) (AskGet (fd_of w (a_ref a))) d)"
proof (cases "d_waiting d")
  case Nil
  then show ?thesis using follows_get_empty [OF assms] by blast
next
  case (Cons b rest)
  let ?u = "a_ref a"
  obtain m fd body where b: "b = (m, fd, body)" by (cases b)
  have q: "mq_queue q = m # map fst rest" using serves_queue [OF assms(6)] Cons b by simp
  obtain r c where r: "map_of (mq_messages q) m = Some r" "parsed c (heap w r)" "x_body c = body" "fd_of w r = fd"
      "body \<noteq> []" "length body < 2 ^ 64"
    using assms(6) by (auto simp: serves_def Cons b waits_in_def holds_content_def)
  have ru: "r \<noteq> ?u" using map_of_refs [OF r(1)] assms(7) by metis
  let ?q = "q\<lparr>mq_queue := map fst rest, mq_locked := uset_emplace m (mq_locked q)\<rparr>"
  have arr: "reception (a_wire a) (a_rcv a)" "awaits (a_wire a) (heap w ?u)" using assms(4) by (simp_all add: arrives_def)
  note len = r(5,6) [folded r(3)]
  obtain w' answer where w': "RouterImpl_Process e what (a_rcv a) (a_fresh a) pick rts ?u (q, w) = (Inr (), ?q, w')"
      "answer_with 200 ''OK'' ''X-MSG-FORWARD-UID'' (to_string (unat m)) answer"
      "events (sockets w') = events (sockets w) @ [Sent (fd_of w ?u) answer (int (length answer)),
         Sent (fd_of w ?u) (x_body c) (int (length (x_body c)))] @ closing (fd_of w ?u)"
      "fd_of w' r = fd_of w r" and fr: "\<forall>y. y \<noteq> ?u \<longrightarrow> y \<noteq> r \<longrightarrow> heap w' y = heap w y"
    using worker_get [OF assms(1-3) arr assms(8) assms(5) [unfolded to_queue_def] q r(1) ru r(2) len, of what "a_fresh a"]
    by (elim exE conjE) rule
  have "serves (d\<lparr>d_waiting := rest, d_taken := (d_taken d)(m \<mapsto> fd)\<rparr>) ?q w'"
  proof (rule serves_get [OF assms(6) Cons [unfolded b] r(1)])
    fix y assume "y \<in> refs_of q" "y \<noteq> r"
    then show "heap w' y = heap w y" using fr assms(7) by metis
  qed (use w'(4) r(4) in simp)
  moreover have "said_to [Said (fd_of w ?u) 200 ''OK'' (forward_note m) body] (insert ?u (refs_of q)) w w'"
    using w'(3) r(3) forward_spoken [OF w'(2) r(5), of "fd_of w ?u"] fr map_of_refs [OF r(1)] unfolding said_to_def by auto
  ultimately show ?thesis using w'(1) by (auto simp: follows_def moved_def Cons b)
qed

lemma two_spoken:
  assumes "spoken s a" and "spoken s' b"
  shows "transcript [s, s'] (a @ b)"
  using transcript_append [of "[s]" a "[s']" b] assms by simp

lemma follows_post:
  assumes "sends_all e" and "readable e" and "\<forall>y. qy y" and "arrives a w" and "to_queue e qy pick rts a"
    and "serves d q w" and "a_ref a \<notin> refs_of q" and "x_method (a_wire a) = 1" and "wire_uid (a_wire a) = Uid m"
    and "d_taken d m = Some fd"
  shows "follows e what pick rts a q w
    (desk_step (LimitSize q) (AskPost (id_of w (a_ref a)) (fd_of w (a_ref a)) (Uid m) (x_body (a_wire a))) d)"
proof -
  let ?u = "a_ref a" and ?body = "x_body (a_wire a)"
  obtain r where r: "map_of (mq_messages q) m = Some r" "fd_of w r = fd"
    using assms(6,10) by (auto simp: serves_def taken_from_def split: if_splits)
  have ur: "?u \<noteq> r" using map_of_refs [OF r(1)] assms(7) by metis
  have body: "?body \<noteq> []" "length ?body < 2 ^ 64" using assms(4,8) by (simp_all add: arrives_def)
  have arr: "reception (a_wire a) (a_rcv a)" "awaits (a_wire a) (heap w ?u)" using assms(4) by (simp_all add: arrives_def)
  let ?s = "Said fd 200 ''OK'' (forward_note (id_of w ?u)) ?body"
  obtain w' answer ack where w': "RouterImpl_Process e what (a_rcv a) (a_fresh a) pick rts ?u (q, w) = (Inr (), snd (post_erase m q), w')"
      "answer_with 200 ''OK'' ''X-MSG-FORWARD-UID'' (to_string (unat (id_of w ?u))) answer"
      "answer_with 200 ''OK'' ''X-MQ-CLASS'' ''Sync.MQ.Queue'' ack"
      "events (sockets w') = events (sockets w) @ [Sent (fd_of w r) answer (int (length answer)),
         Sent (fd_of w r) ?body (int (length ?body))] @ closing (fd_of w r) @ [Sent (fd_of w ?u) ack (int (length ack))] @ closing (fd_of w ?u)"
      and fr: "\<forall>y. y \<noteq> ?u \<longrightarrow> y \<noteq> r \<longrightarrow> heap w' y = heap w y"
    using worker_post [OF assms(1-3) arr assms(8) assms(5) [unfolded to_queue_def] r(1) ur body assms(9), of what "a_fresh a"]
    by (elim exE conjE) rule
  note forward_spoken [OF w'(2) body(1), of fd]
  moreover have "spoken (status (fd_of w ?u) 200 ''OK'') (Sent (fd_of w ?u) ack (int (length ack)) # closing (fd_of w ?u))"
    using spokenI [OF w'(3), of "fd_of w ?u" "[]"] by (simp add: mq_class_def)
  ultimately have "transcript [?s, status (fd_of w ?u) 200 ''OK'']
      ((Sent fd answer (int (length answer)) # Sent fd ?body (int (length ?body)) # closing fd) @
       (Sent (fd_of w ?u) ack (int (length ack)) # closing (fd_of w ?u)))"
    by (rule two_spoken)
  then have "said_to [?s, status (fd_of w ?u) 200 ''OK''] (insert ?u (refs_of q)) w w'"
    using w'(4) r fr map_of_refs [OF r(1)] unfolding said_to_def by (auto simp del: transcript.simps)
  moreover have "serves (d\<lparr>d_taken := (d_taken d)(m := None)\<rparr>) (snd (post_erase m q)) w'"
  proof (rule serves_post [OF assms(6,10) r(1)])
    fix y assume "y \<in> refs_of q" "y \<noteq> r"
    then show "heap w' y = heap w y" using fr assms(7) by metis
  qed
  ultimately show ?thesis using w'(1) assms(10)
    by (auto simp: follows_def moved_def post_erase_def umap_erase_plain)
qed

lemma follows_refused:
  assumes "sends_all e" and "readable e" and "\<forall>y. qy y" and "arrives a w" and "to_queue e qy pick rts a"
    and "serves d q w" and "a_ref a \<notin> refs_of q" and "x_method (a_wire a) = 1"
    and "\<And>m. wire_uid (a_wire a) = Uid m \<Longrightarrow> m \<notin> fst ` set (d_waiting d) \<and> d_taken d m = None"
  shows "follows e what pick rts a q w
    (desk_step (LimitSize q) (AskPost (id_of w (a_ref a)) (fd_of w (a_ref a)) (wire_uid (a_wire a)) (x_body (a_wire a))) d)"
    (is "follows e what pick rts a q w ?out")
proof (rule follows_status [OF assms(4-7)])
  show "snd ?out = d" using assms(9) by (simp split: forward_uid.split)
  fix w1 assume w1: "received (a_wire a) (a_ref a) w w1"
  have none: "map_of (mq_messages q) m = None" if "wire_uid (a_wire a) = Uid m" for m
  proof -
    have "m \<notin> set (mq_queue q)" using assms(9) [OF that] serves_queue [OF assms(6)] by simp
    moreover have "ids_of q \<subseteq> set (mq_queue q) \<union> set (mq_locked q)" using assms(6) by (simp add: serves_def sq_exact_def sq_inv_def)
    moreover have "m \<notin> set (mq_locked q) \<or> map_of (mq_messages q) m = None"
      using assms(9) [OF that] assms(6) by (auto simp: serves_def taken_from_def split: if_splits)
    ultimately show ?thesis by (auto simp: map_of_eq_None_iff)
  qed
  obtain m where m: "wire_uid (a_wire a) \<in> {NoUid, BadUid, Uid m}" by (cases "wire_uid (a_wire a)") auto
  have "fst ?out = [status (fd_of w1 (a_ref a)) (case wire_uid (a_wire a) of Uid _ \<Rightarrow> 300 | _ \<Rightarrow> 400)
      (case wire_uid (a_wire a) of NoUid \<Rightarrow> ''Bad Request. Header `X-MSG-FORWARD-UID` not found''
       | BadUid \<Rightarrow> ''Bad Request. Invalid `X-MSG-FORWARD-UID` header'' | Uid _ \<Rightarrow> ''Multiple Replays. Reply Ignored.'')]"
    using assms(9) receivedD(4) [OF w1, of "a_ref a"] by (simp split: forward_uid.split)
  then show "\<exists>w'. RequestImpl_Process e (Some (SyncQueueHandler (RequestImpl e qy))) (a_ref a) (q, w1) = (Inr (), q, w') \<and>
      said_to (fst ?out) {a_ref a} w1 w'"
    unfolding dispatch_method(2) [OF receivedD(1) [OF w1] assms(8)]
    using Post_refused_said [OF assms(1-3) receivedD(1) [OF w1] none refl refl m] by simp
qed

lemma status_desk: "x_method (a_wire a) \<in> {3, 4, 5, 6, 7, 8} \<Longrightarrow> snd (desk_step lim (ask_of w a) d) = d"
  by (auto simp: ask_of_def Let_def split: list.split)

lemma status_method:
  assumes "sends_all e" and "readable e" and "\<forall>y. qy y" and "received (a_wire a) (a_ref a) w w1"
    and "x_method (a_wire a) \<in> {3, 4, 5, 6, 7, 8}" and "serves d q w"
  shows "\<exists>w'. RequestImpl_Process e (Some (SyncQueueHandler (RequestImpl e qy))) (a_ref a) (q, w1) = (Inr (), q, w') \<and>
      said_to (fst (desk_step lim (ask_of w a) d)) {a_ref a} w1 w'"
proof -
  note p = receivedD(1) [OF assms(4)] and fd = receivedD(4) [OF assms(4), of "a_ref a", symmetric]
  let ?run = "RequestImpl_Process e (Some (SyncQueueHandler (RequestImpl e qy))) (a_ref a) (q, w1)"
  note run = dispatch_status [OF p, of e "RequestImpl e qy" q]
  consider "x_method (a_wire a) = 3" | "x_method (a_wire a) = 4"
    | meth allowed where "ask_of w a = AskOther (fd_of w (a_ref a)) meth allowed" "?run = not_allowed (RequestImpl e qy) (a_ref a) meth allowed (q, w1)"
    using assms(5) run(3-6) by (auto simp: ask_of_def Delete_def Trace_def Connect_def Patch_def)
  then show ?thesis
  proof cases
    case 1
    then show ?thesis using run(1) HeadMsg_said [OF assms(1-3) serves_queue [OF assms(6), symmetric], of "a_ref a" w1 lim]
      by (simp add: ask_of_def fd Let_def)
  next
    case 2
    then show ?thesis using run(2) Options_said [OF assms(1-3), of "a_ref a" q w1] by (simp add: ask_of_def fd Let_def)
  next
    case 3
    then show ?thesis using not_allowed_said [OF assms(1-3), of "a_ref a" meth allowed q w1] by (simp add: fd)
  qed
qed

text \<open>One processed connection is one step of the service.\<close>

lemma follows_step:
  assumes "sends_all e" and "readable e" and "\<forall>y. qy y" and "arrives a w" and "to_queue e qy pick rts a"
    and "serves d q w" and "a_ref a \<notin> refs_of q" and "id_of w (a_ref a) \<notin> ids_of q" and "polite (ask_of w a) d"
  shows "follows e what pick rts a q w (desk_step (LimitSize q) (ask_of w a) d)"
proof -
  let ?m = "x_method (a_wire a)"
  have "?m < 9" using assms(4) by (simp add: arrives_def reception_def wire_ok_def RequestMethods_def)
  then consider "?m = 0" | "?m = 1" | "?m = 2" | "?m \<in> {3, 4, 5, 6, 7, 8}" by force
  then show ?thesis
  proof cases
    case 1
    then show ?thesis using follows_get [OF assms(1-7)] by (simp add: ask_of_def Let_def)
  next
    case 2
    then have ask: "ask_of w a = AskPost (id_of w (a_ref a)) (fd_of w (a_ref a)) (wire_uid (a_wire a)) (x_body (a_wire a))"
      by (simp add: ask_of_def Let_def)
    show ?thesis
    proof (cases "\<exists>m fd. wire_uid (a_wire a) = Uid m \<and> d_taken d m = Some fd")
      case True
      then show ?thesis using follows_post [OF assms(1-7) 2] ask by metis
    next
      case False
      then have "m \<notin> fst ` set (d_waiting d) \<and> d_taken d m = None" if "wire_uid (a_wire a) = Uid m" for m
        using assms(9) that by (auto simp: ask)
      then show ?thesis unfolding ask by (rule follows_refused [OF assms(1-7) 2])
    qed
  next
    case 3
    then show ?thesis using follows_put [OF assms(1-8)] by (simp add: ask_of_def Let_def)
  next
    case 4
    show ?thesis by (rule follows_status [OF assms(4-7) status_desk [OF 4] status_method [OF assms(1-3) _ 4 assms(6)]])
  qed
qed

section \<open>Sequences of requests\<close>

text \<open>The connections are processed one after the other, as one thread of the pool does.\<close>

fun process_all ::
    "env \<Rightarrow> (exn \<Rightarrow> string) \<Rightarrow> nat \<Rightarrow> (sync_queue \<times> world) imq option routes \<Rightarrow> arrival list \<Rightarrow> (sync_queue \<times> world, unit) act" where
  "process_all e what pick rts [] s = (Inr (), s)"
| "process_all e what pick rts (a # as) s =
     mbind (RouterImpl_Process e what (a_rcv a) (a_fresh a) pick rts (a_ref a)) (\<lambda>_. process_all e what pick rts as) s"

text \<open>Connections that can follow each other: new request objects with new identifiers.\<close>

definition fresh_arrivals :: "arrival list \<Rightarrow> sync_queue \<Rightarrow> world \<Rightarrow> bool" where
  "fresh_arrivals as q w \<longleftrightarrow>
     (\<forall>a \<in> set as. arrives a w) \<and> distinct (map a_ref as) \<and> distinct (map (\<lambda>a. id_of w (a_ref a)) as) \<and>
     a_ref ` set as \<inter> refs_of q = {} \<and> (\<lambda>a. id_of w (a_ref a)) ` set as \<inter> ids_of q = {}"

lemma disjoint_insert_sub: "x \<notin> A \<Longrightarrow> A \<inter> B = {} \<Longrightarrow> C \<subseteq> insert x B \<Longrightarrow> A \<inter> C = {}"
  by blast

lemma fresh_arrivals_step:
  assumes "fresh_arrivals (a # as) q w" and "moved (a_ref a) ss q w q' w'"
  shows "fresh_arrivals as q' w'" "map (ask_of w') as = map (ask_of w) as"
proof -
  let ?ids = "(\<lambda>b. id_of w (a_ref b)) ` set as"
  have f: "a_ref a \<notin> a_ref ` set as" "a_ref ` set as \<inter> refs_of q = {}" "id_of w (a_ref a) \<notin> ?ids" "?ids \<inter> ids_of q = {}"
    "distinct (map a_ref as)" "distinct (map (\<lambda>b. id_of w (a_ref b)) as)" "\<forall>b \<in> set as. arrives b w"
    using assms(1) by (simp_all add: fresh_arrivals_def)
  have keep: "\<forall>y. y \<notin> insert (a_ref a) (refs_of q) \<longrightarrow> heap w' y = heap w y" using assms(2) by (simp add: moved_def said_to_def)
  have h: "heap w' (a_ref b) = heap w (a_ref b)" if "b \<in> set as" for b
  proof -
    have "a_ref b \<noteq> a_ref a" using f(1) that by (metis imageI)
    moreover have "a_ref b \<notin> refs_of q" using f(2) that by (metis disjoint_iff imageI)
    ultimately show ?thesis using keep by simp
  qed
  then show "map (ask_of w') as = map (ask_of w) as" by (simp add: ask_of_def)
  have m: "refs_of q' \<subseteq> insert (a_ref a) (refs_of q)" "ids_of q' \<subseteq> insert (id_of w (a_ref a)) (ids_of q)"
    using assms(2) by (simp_all add: moved_def)
  have e1: "map (\<lambda>b. id_of w' (a_ref b)) as = map (\<lambda>b. id_of w (a_ref b)) as" using h by simp
  have e2: "(\<lambda>b. id_of w' (a_ref b)) ` set as = (\<lambda>b. id_of w (a_ref b)) ` set as" using h by (simp cong: image_cong)
  have "\<forall>b \<in> set as. arrives b w'" using f(7) h by (simp add: arrives_def)
  moreover have "a_ref ` set as \<inter> refs_of q' = {}" "?ids \<inter> ids_of q' = {}"
    by (rule disjoint_insert_sub [OF f(1,2) m(1)], rule disjoint_insert_sub [OF f(3,4) m(2)])
  ultimately show "fresh_arrivals as q' w'" using f(5,6) unfolding fresh_arrivals_def e1 e2 by (intro conjI)
qed

lemma process_all_follows:
  assumes "sends_all e" and "readable e" and "\<forall>y. qy y" and "\<forall>a \<in> set as. to_queue e qy pick rts a"
    and "fresh_arrivals as q w" and "serves d q w" and "all_polite (LimitSize q) (map (ask_of w) as) d"
  shows "\<exists>q' w' evs. process_all e what pick rts as (q, w) = (Inr (), q', w') \<and>
    serves (snd (desk_run (LimitSize q) (map (ask_of w) as) d)) q' w' \<and>
    events (sockets w') = events (sockets w) @ evs \<and> transcript (fst (desk_run (LimitSize q) (map (ask_of w) as) d)) evs"
  using assms(4-7)
proof (induction as arbitrary: q w d)
  case Nil
  then show ?case by simp
next
  case (Cons a as)
  let ?out = "desk_step (LimitSize q) (ask_of w a) d"
  have new: "arrives a w" "a_ref a \<notin> refs_of q" "id_of w (a_ref a) \<notin> ids_of q"
    using Cons.prems(2) by (auto simp: fresh_arrivals_def)
  have "follows e what pick rts a q w ?out"
    by (rule follows_step [OF assms(1-3) new(1) _ Cons.prems(3) new(2,3)]) (use Cons.prems(1,4) in simp_all)
  then obtain q1 w1 where q1: "RouterImpl_Process e what (a_rcv a) (a_fresh a) pick rts (a_ref a) (q, w) = (Inr (), q1, w1)"
      "serves (snd ?out) q1 w1" "moved (a_ref a) (fst ?out) q w q1 w1"
    unfolding follows_def by blast
  have lim: "LimitSize q1 = LimitSize q" using q1(3) by (simp add: moved_def)
  obtain ev where ev: "events (sockets w1) = events (sockets w) @ ev" "transcript (fst ?out) ev"
    using q1(3) by (auto simp: moved_def said_to_def)
  note st = fresh_arrivals_step [OF Cons.prems(2) q1(3)]
  let ?run = "desk_run (LimitSize q) (map (ask_of w) as) (snd ?out)"
  obtain q' w' evs where IH: "process_all e what pick rts as (q1, w1) = (Inr (), q', w')" "serves (snd ?run) q' w'"
      "events (sockets w') = events (sockets w1) @ evs" "transcript (fst ?run) evs"
    using Cons.IH [OF _ st(1) q1(2)] Cons.prems(1,4) unfolding st(2) lim by auto
  have "transcript (fst ?out @ fst ?run) (ev @ evs)" by (rule transcript_append [OF ev(2) IH(4)])
  then show ?case using q1(1) IH(1-3) ev(1) by (auto simp: mbind_def split_beta)
qed

end
