(* ===== verification/Fiber_SyncSAPI.thy ===== *)
theory Fiber_SyncSAPI
  imports Fiber_SyncQueue
begin

text \<open>
  mq/mq-sync/src/sync-sapi.cpp and sync-sapi.h: \<open>SyncSAPIHandler\<close>, a queue whose requests are answered by
  threads of its own, at most \<open>LimitTasks\<close> of them.

  The handler's operations are definitions over its state, with the names of the class prefixed by
  \<open>Sapi\<close>. A thread started by \<open>Put\<close> runs \<open>ExecuteThread\<close>; \<open>Fiber_SapiThreads\<close> interleaves these threads with
  further \<open>Put\<close>s. Moving from a \<open>Dom::Interface\<close> is the component library's affair: \<open>mv\<close> says
  whether it leaves the source empty. \<open>WorkingThread\<close> is never started; one round of it is modelled.
\<close>

section \<open>State and replies\<close>

record sync_sapi =
  sx_working :: bool
  sx_workers :: int
  sx_queue :: "uint64 list"
  sx_messages :: "(uint64, reqref option) umap"
  sx_class :: string
  sx_script :: string
  sx_name :: string
  sx_LimitTasks :: nat
  sx_LimitSize :: nat
  sx_LimitPeriodSec :: nat

definition re_sapi_uri :: re where
  "re_sapi_uri =
     Seqs [Cap 1 (Plus (Chr (\<lambda>c. is_word c \<or> c = CHR ''-''))), Lit ''://'', Cap 2 (Plus (Chr is_dot))]"

definition parseSapiUri :: "string \<Rightarrow> (string \<times> string) option" where
  "parseSapiUri uri = map_option (\<lambda>(b, e, c). (cap_text uri c 1, cap_text uri c 2)) (regex_search re_sapi_uri uri)"

definition sapi_reply ::
    "sync_sapi \<Rightarrow> nat \<Rightarrow> string option \<Rightarrow> string \<Rightarrow> (string \<times> hval) list \<Rightarrow> string \<Rightarrow> reply_args" where
  "sapi_reply q cd msg Body headers ContentType =
     \<lparr>rCode = cd, rMessage = msg, rContent = Some (Body @ [NUL], 0), rContentLength = length Body,
      rHeaders = headers @
        [(''X-MQ-CLASS'', Live ''Sync.MQ.SAPI''), (''X-MQ-QUEUE'', Live (to_string (length (sx_queue q))))] @
        (if ContentType \<noteq> [] then [(''Content-Type'', Live ContentType)] else []),
      rClose = True\<rparr>"

definition SapiReplyWithCode ::
    "'w irequest \<Rightarrow> reqref \<Rightarrow> nat \<Rightarrow> string option \<Rightarrow> string \<Rightarrow> (string \<times> hval) list \<Rightarrow> (sync_sapi \<times> 'w, unit) act" where
  "SapiReplyWithCode R unknown cd msg Body headers s =
     (if rq_query R unknown then
        ignoring (on_snd (rq_reply R unknown (sapi_reply (fst s) cd msg Body headers ''application/json''))) s
      else (Inr (), s))"

definition sapi_not_allowed :: "'w irequest \<Rightarrow> reqref \<Rightarrow> string \<Rightarrow> (sync_sapi \<times> 'w, unit) act" where
  "sapi_not_allowed R unknown meth =
     SapiReplyWithCode R unknown 405 (Some (''Method '' @ meth @ '' Not Allowed'')) []
       [(''Access-Control-Allow-Methods'', Live ''PUT''), (''Allow'', Live ''PUT'')]"

section \<open>Operations\<close>

definition SapiInitialize ::
    "string \<Rightarrow> bool \<Rightarrow> (string \<Rightarrow> string \<Rightarrow> string) option \<Rightarrow> (sync_sapi, bool) act" where
  "SapiInitialize Name pIKernel pIConfig q =
     (let q = q\<lparr>sx_name := Name\<rparr> in
      if pIKernel then
        case pIConfig of
          None \<Rightarrow> (Inr True, q\<lparr>sx_working := True\<rparr>)
        | Some GetConfigValue \<Rightarrow>
            (case time_period (GetConfigValue ''queue-limit-request'' ''0s'') of
               Inl x \<Rightarrow> (Inl x, q)
             | Inr period \<Rightarrow>
                 let q = q\<lparr>sx_LimitPeriodSec := period, sx_LimitSize := limit_option GetConfigValue ''queue-limit-size'',
                           sx_LimitTasks := limit_option GetConfigValue ''queue-limit-tasks''\<rparr>
                 in case parseSapiUri (GetConfigValue ''channel-sapi'' []) of
                      None \<Rightarrow> (Inr False, q)
                    | Some (cls, script) \<Rightarrow> (Inr True, q\<lparr>sx_class := cls, sx_script := script, sx_working := True\<rparr>))
      else (Inr False, q))"

text \<open>\<open>mq_process\<close> is never given a thread, and joining it is an error.\<close>

definition SapiFinalize :: "(sync_sapi, unit) act" where
  "SapiFinalize q = (if sx_working q then (Inl StdSystemError, q\<lparr>sx_working := False\<rparr>) else (Inr (), q))"

text \<open>
  The constructor leaves the limits as the allocated memory \<open>mem\<close> has them. The destructor calls \<open>Finalize\<close>;
  an exception that leaves a destructor ends the program.
\<close>

definition SyncSAPIHandler :: "nat \<times> nat \<times> nat \<Rightarrow> sync_sapi" where
  "SyncSAPIHandler mem =
     \<lparr>sx_working = False, sx_workers = 0, sx_queue = [], sx_messages = [], sx_class = [], sx_script = [], sx_name = [],
      sx_LimitTasks = fst mem, sx_LimitSize = fst (snd mem), sx_LimitPeriodSec = snd (snd mem)\<rparr>"

definition SapiDestroy :: "(sync_sapi, unit) act" where
  "SapiDestroy q = (case SapiFinalize q of (Inl _, q') \<Rightarrow> (Inl Terminate, q') | r \<Rightarrow> r)"

definition SapiGetInfo :: "string \<times> string" where
  "SapiGetInfo = (''Sync.MQ.SAPI'', ''0.0.1'')"

lemma initialised_sapi_ends_program:
  assumes "SapiInitialize Name k c q = (Inr True, q')"
  shows "SapiDestroy q' = (Inl Terminate, q'\<lparr>sx_working := False\<rparr>)"
proof -
  have "sx_working q'"
    using assms by (auto simp: SapiInitialize_def Let_def split: if_splits option.splits sum.splits)
  then show ?thesis by (simp add: SapiDestroy_def SapiFinalize_def)
qed

lemma finalised_sapi_is_destroyed: "SapiDestroy (snd (SapiFinalize q)) = (Inr (), (snd (SapiFinalize q)))"
  by (simp add: SapiDestroy_def SapiFinalize_def)

text \<open>The block of \<open>Put\<close> under the lock: whether the request was stored, and whether a thread is started for it.\<close>

definition int32 :: "nat \<Rightarrow> int" where
  "int32 n = (let m = int n mod 2 ^ 32 in if m < 2 ^ 31 then m else m - 2 ^ 32)"

definition sapi_put_section :: "bool \<Rightarrow> uint64 \<Rightarrow> reqref \<Rightarrow> (sync_sapi, bool \<times> bool) act" where
  "sapi_put_section mv mid r q =
     (if sx_LimitSize q = 0 \<or> length (sx_queue q) < sx_LimitSize q then
        let (m, inserted) = umap_emplace (\<lambda>k. k) (=) (sx_messages q) mid (Some r);
            q = q\<lparr>sx_messages := m\<rparr>
        in if inserted then
             if mv then (Inl UndefinedBehaviour, q)
             else let q = q\<lparr>sx_queue := sx_queue q @ [mid]\<rparr>
                  in if sx_LimitTasks q = 0 \<or> sx_workers q < int32 (sx_LimitTasks q)
                     then (Inr (True, True), q\<lparr>sx_workers := sx_workers q + 1\<rparr>)
                     else (Inr (True, False), q)
           else (Inr (False, False), q)
      else (Inr (False, False), q))"

definition sapi_down_reply :: reply_args where
  "sapi_down_reply =
     \<lparr>rCode = 521, rMessage = Some ''SyncQueue is down pending'', rContent = Some ([NUL], 0), rContentLength = 0,
      rHeaders = [], rClose = True\<rparr>"

definition SapiPut :: "bool \<Rightarrow> 'w irequest \<Rightarrow> reqref \<Rightarrow> (sync_sapi \<times> 'w, unit) act" where
  "SapiPut mv R unknown = with_request R unknown (\<lambda>s.
     if sx_working (fst s) then
       mbind (on_fst (sapi_put_section mv (rq_msgid R (snd s) unknown) unknown)) (\<lambda>(stored, started).
         if stored then mret ()
         else SapiReplyWithCode R unknown 507 (Some ''Insufficient Storage'') []
                [(''X-MQ-LIMIT'', Live (to_string (sx_LimitSize (fst s))))]) s
     else ignoring (on_snd (rq_reply R unknown sapi_down_reply)) s)"

text \<open>One round of \<open>ExecuteThread\<close>: fetch under the lock, then answer; \<open>None\<close> when the queue is empty.\<close>

definition execute_section :: "bool \<Rightarrow> (sync_sapi, reqref option option) act" where
  "execute_section mv q =
     (case sx_queue q of
        [] \<Rightarrow> (Inr None, q)
      | m # ms \<Rightarrow>
          let q = q\<lparr>sx_queue := ms\<rparr>
          in case umap_find (\<lambda>k. k) (=) (sx_messages q) m of
               None \<Rightarrow> (Inl StdOutOfRange, q)
             | Some r \<Rightarrow>
                 (Inr (Some r),
                  if mv then q\<lparr>sx_messages := map (\<lambda>e. if fst e = m then (m, None) else e) (sx_messages q)\<rparr> else q))"

definition execute_reply :: "'w irequest \<Rightarrow> reqref option \<Rightarrow> (sync_sapi \<times> 'w, unit) act" where
  "execute_reply R req s =
     (case req of
        None \<Rightarrow> (Inr (), s)
      | Some r \<Rightarrow>
          (case SapiReplyWithCode R r 200 None ''{}'' [(''XSample-HEADER'', Live ''909'')] s of
             (Inr u, s) \<Rightarrow> (Inr u, s)
           | (Inl UndefinedBehaviour, s) \<Rightarrow> (Inl UndefinedBehaviour, s)
           | (Inl _, s) \<Rightarrow> SapiReplyWithCode R r 503 (Some ''SAPI Endpoint error'') [] [] s))"

definition SapiHandler :: "bool \<Rightarrow> 'w irequest \<Rightarrow> (sync_sapi \<times> 'w) imq" where
  "SapiHandler mv R =
     \<lparr>mq_Get = (\<lambda>r. sapi_not_allowed R r ''GET''), mq_Post = (\<lambda>r. sapi_not_allowed R r ''GET''), mq_Put = SapiPut mv R,
      mq_Head = (\<lambda>r. sapi_not_allowed R r ''HEAD''), mq_Options = (\<lambda>r. sapi_not_allowed R r ''OPTIONS''),
      mq_Delete = (\<lambda>r. sapi_not_allowed R r ''DELETE''), mq_Trace = (\<lambda>r. sapi_not_allowed R r ''TRACE''),
      mq_Connect = (\<lambda>r. sapi_not_allowed R r ''CONNECT''), mq_Patch = (\<lambda>r. sapi_not_allowed R r ''PATCH'')\<rparr>"

text \<open>
  The loop of one thread on its own (no other thread runs meanwhile). Each round takes one identifier
  off the queue, so it ends; a thrown exception ends the program, since nothing in the thread catches it.
\<close>

lemma execute_section_shrinks:
  "execute_section mv q = (Inr (Some r), q') \<Longrightarrow> length (sx_queue q') < length (sx_queue q)"
  by (auto simp: execute_section_def Let_def split: list.splits option.splits if_splits)

lemma sapi_reply_frame:
  "fst (snd (SapiReplyWithCode R r cd msg b hs s)) = fst s"
  by (simp add: SapiReplyWithCode_def ignoring_eq as_unit_def on_snd_def split_beta split: sum.split)

lemma execute_reply_frame: "fst (snd (execute_reply R req s)) = fst s"
proof (cases req)
  case (Some r)
  let ?x = "SapiReplyWithCode R r 200 None ''{}'' [(''XSample-HEADER'', Live ''909'')] s"
  obtain res s' where x: "?x = (res, s')" by (cases ?x)
  then have "fst s' = fst s" using sapi_reply_frame [of R r 200 None "''{}''" "[(''XSample-HEADER'', Live ''909'')]" s] by simp
  then show ?thesis by (auto simp: execute_reply_def Some x sapi_reply_frame split: sum.split exn.split)
qed (simp add: execute_reply_def)

lemma execute_round_shrinks:
  "execute_section mv q0 = (Inr (Some req), q) \<Longrightarrow> execute_reply R req (q, w) = (y, s') \<Longrightarrow>
     length (sx_queue (fst s')) < length (sx_queue q0)"
  using execute_reply_frame [of R req "(q, w)"] execute_section_shrinks by fastforce

definition leave_thread :: "sync_sapi \<times> 'w \<Rightarrow> sync_sapi \<times> 'w" where
  "leave_thread s = ((fst s)\<lparr>sx_workers := sx_workers (fst s) - 1\<rparr>, snd s)"

function ExecuteThread :: "bool \<Rightarrow> 'w irequest \<Rightarrow> (sync_sapi \<times> 'w, unit) act" where
  "ExecuteThread mv R s =
     (case execute_section mv (fst s) of
        (Inl x, q) \<Rightarrow> (Inl x, (q, snd s))
      | (Inr None, q) \<Rightarrow> (Inr (), leave_thread (q, snd s))
      | (Inr (Some req), q) \<Rightarrow>
          (case execute_reply R req (q, snd s) of
             (Inl x, s') \<Rightarrow> (Inl x, s')
           | (Inr _, s') \<Rightarrow>
               if sx_working (fst s') \<and> sx_queue (fst s') \<noteq> [] then ExecuteThread mv R s' else (Inr (), leave_thread s')))"
  by pat_completeness auto
termination
  by (relation "measure (\<lambda>(mv, R, s). length (sx_queue (fst s)))") (auto dest: execute_round_shrinks [OF sym sym])

declare ExecuteThread.simps [simp del]

text \<open>
  One round of \<open>WorkingThread\<close> from the end of its wait, under the lock: \<open>messages\<close> and \<open>yet\<close> are what the
  references it was given show then. It gives the identifier it starts a thread for, if any, and whether its
  loop goes on. Nothing in the program starts it.
\<close>

definition working_round :: "uint64 list \<Rightarrow> bool \<Rightarrow> (sync_sapi, uint64 option \<times> bool) act" where
  "working_round messages yet q =
     (if \<not> yet then (Inr (None, False), q)
      else if messages = [] then (Inr (None, sx_working q), q)
      else let q = q\<lparr>sx_workers := sx_workers q + 1\<rparr> in
        case sx_queue q of
          [] \<Rightarrow> (Inl UndefinedBehaviour, q)
        | m # ms \<Rightarrow> (Inr (Some m, sx_working q), q\<lparr>sx_queue := ms\<rparr>))"

text \<open>
  The thread started by it overwrites the identifier it is given with the one at the front of the queue: of two
  waiting messages the first is fetched by nobody.
\<close>

lemma working_round_skips:
  assumes "sx_queue q = m # m' # ms" and "umap_find (\<lambda>k. k) (=) (sx_messages q) m' = Some r"
  shows "fst (working_round (sx_queue q) True q) = Inr (Some m, sx_working q)"
    and "fst (execute_section False (snd (working_round (sx_queue q) True q))) = Inr (Some r)"
    and "sx_queue (snd (execute_section False (snd (working_round (sx_queue q) True q)))) = ms"
  using assms by (simp_all add: working_round_def execute_section_def)

section \<open>Invariant\<close>

definition sapi_inv :: "sync_sapi \<Rightarrow> bool" where
  "sapi_inv q \<longleftrightarrow>
     distinct (map fst (sx_messages q)) \<and> set (sx_queue q) \<subseteq> fst ` set (sx_messages q) \<and>
     (sx_LimitSize q \<noteq> 0 \<longrightarrow> length (sx_queue q) \<le> sx_LimitSize q)"

lemma sapi_put_section_eq:
  "sapi_put_section mv mid r q =
     (if (sx_LimitSize q = 0 \<or> length (sx_queue q) < sx_LimitSize q) \<and> map_of (sx_messages q) mid = None then
        let q' = q\<lparr>sx_messages := sx_messages q @ [(mid, Some r)]\<rparr> in
        if mv then (Inl UndefinedBehaviour, q')
        else let q' = q'\<lparr>sx_queue := sx_queue q @ [mid]\<rparr>
             in if sx_LimitTasks q = 0 \<or> sx_workers q < int32 (sx_LimitTasks q)
                then (Inr (True, True), q'\<lparr>sx_workers := sx_workers q + 1\<rparr>) else (Inr (True, False), q')
      else (Inr (False, False), q))"
  by (auto simp: sapi_put_section_def umap_emplace_def umap_find_plain Let_def split: option.split)

lemma sapi_put_section_inv: "sapi_inv q \<Longrightarrow> sapi_inv (snd (sapi_put_section mv mid r q))"
  by (auto simp: sapi_put_section_eq sapi_inv_def map_of_eq_None_iff Let_def)

lemma execute_section_inv:
  assumes "sapi_inv q"
  shows "sapi_inv (snd (execute_section mv q)) \<and> (\<exists>r. fst (execute_section mv q) = Inr r)"
proof (cases "sx_queue q")
  case Nil
  then show ?thesis using assms by (simp add: execute_section_def)
next
  case (Cons m ms)
  with assms have "m \<in> fst ` set (sx_messages q)" by (auto simp: sapi_inv_def)
  then obtain r where r: "map_of (sx_messages q) m = Some r" by (metis map_of_eq_None_iff not_None_eq)
  have keys: "map fst (map (\<lambda>e. if fst e = m then (m, None) else e) xs) = map fst xs" for xs :: "(uint64, reqref option) umap"
    by (induction xs) simp_all
  then have "fst ` set (map (\<lambda>e. if fst e = m then (m, None) else e) xs) = fst ` set xs" for xs :: "(uint64, reqref option) umap"
    by (metis list.set_map)
  with keys Cons r assms show ?thesis
    by (auto simp: execute_section_def umap_find_plain sapi_inv_def Let_def simp del: set_map map_map)
qed

lemma keeps_sapi_reply [keeps_intros]: "keeps P (SapiReplyWithCode R r cd msg b hs)"
  by (rule keepsI) (simp add: sapi_reply_frame)

lemma SapiPut_keeps: "keeps sapi_inv (SapiPut mv R u)"
proof -
  have "keeps sapi_inv (if b then
       mbind (on_fst (sapi_put_section mv m u)) (\<lambda>(stored, started). if stored then mret () else SapiReplyWithCode R u c msg t hs)
     else ignoring (on_snd x))" for b m c msg t hs and x :: "('a, bool) act"
    unfolding split_beta by (intro keeps_intros keeps_on_fst sapi_put_section_inv)
  then have "keeps sapi_inv (\<lambda>s. (if sx_working (fst s) then
       mbind (on_fst (sapi_put_section mv (rq_msgid R (snd s) u) u)) (\<lambda>(stored, started). if stored then mret ()
         else SapiReplyWithCode R u 507 (Some ''Insufficient Storage'') [] [(''X-MQ-LIMIT'', Live (to_string (sx_LimitSize (fst s))))])
     else ignoring (on_snd (rq_reply R u sapi_down_reply))) s)"
    by (rule keeps_state)
  then show ?thesis unfolding SapiPut_def by (intro keeps_intros) (simp add: if_distrib [where f = "\<lambda>f. f _"] cong: if_cong)
qed

interpretation sync_sapi: imq_module "SapiHandler mv R" sapi_inv for mv R
  by unfold_locales (simp_all add: SapiHandler_def sapi_not_allowed_def SapiPut_keeps keeps_sapi_reply)

section \<open>One thread drains the queue\<close>

lemma ExecuteThread_drains:
  assumes "sapi_inv (fst s)" and "sx_working (fst s)" and "\<And>req s. \<exists>s'. execute_reply R req s = (Inr (), s')"
  shows "\<exists>s'. ExecuteThread mv R s = (Inr (), s') \<and> sx_queue (fst s') = [] \<and> sx_workers (fst s') = sx_workers (fst s) - 1"
  using assms(1,2)
proof (induction "length (sx_queue (fst s))" arbitrary: s rule: less_induct)
  case less
  obtain r q where e: "execute_section mv (fst s) = (Inr r, q)" and q: "sapi_inv q"
    using execute_section_inv [OF less.prems(1), of mv] by (metis fst_conv snd_conv prod.collapse)
  have w: "sx_working q = sx_working (fst s)" "sx_workers q = sx_workers (fst s)"
    using e by (auto simp: execute_section_def Let_def split: list.splits option.splits if_splits)
  show ?case
  proof (cases r)
    case None
    then have "sx_queue q = []" using e by (auto simp: execute_section_def Let_def split: list.splits option.splits)
    then show ?thesis using e None w by (subst ExecuteThread.simps) (simp add: leave_thread_def)
  next
    case (Some req)
    obtain s' where s': "execute_reply R req (q, snd s) = (Inr (), s')" using assms(3) by blast
    then have f: "fst s' = q" using execute_reply_frame [of R req "(q, snd s)"] by simp
    have lt: "length (sx_queue (fst s')) < length (sx_queue (fst s))"
      using execute_round_shrinks [OF e [unfolded Some] s'] .
    show ?thesis
    proof (cases "sx_queue q = []")
      case True
      then show ?thesis using e Some s' f w by (subst ExecuteThread.simps) (simp add: leave_thread_def)
    next
      case False
      then show ?thesis using less.hyps [OF lt] e Some s' f w q less.prems(2) by (subst ExecuteThread.simps) simp
    qed
  qed
qed

end
