(* ===== verification/Fiber_SapiThreads.thy ===== *)
theory Fiber_SapiThreads
  imports Fiber_SyncSAPI Fiber_Reach
begin

text \<open>
  The threads of \<open>SyncSAPIHandler\<close> (mq/mq-sync/src/sync-sapi.cpp): the step relation \<open>xstep\<close> interleaves the
  threads that run \<open>ExecuteThread\<close> with further \<open>Put\<close>s. It is that of a move which leaves its source
  usable; with the other kind every stored \<open>Put\<close> is undefined behaviour.
\<close>

section \<open>Threads\<close>

text \<open>
  Where a thread of the handler is: not running, before its critical section, answering a request,
  or past its loop and about to decrement \<open>mq_workers\<close>.
\<close>

datatype xpc = XNone | XTop | XReply uint64 | XEnd

record xstate =
  sx :: sync_sapi
  xpcs :: "nat \<Rightarrow> xpc"
  fetched :: "uint64 list"
  stored :: "uint64 list"

inductive xstep :: "xstate \<Rightarrow> xstate \<Rightarrow> bool" where
  x_put_start: "sx_working (sx s) \<Longrightarrow> sapi_put_section False m r (sx s) = (Inr (True, True), q) \<Longrightarrow> xpcs s t = XNone \<Longrightarrow>
    xstep s (s\<lparr>sx := q, xpcs := (xpcs s)(t := XTop), stored := stored s @ [m]\<rparr>)"
| x_put: "sx_working (sx s) \<Longrightarrow> sapi_put_section False m r (sx s) = (Inr (True, False), q) \<Longrightarrow>
    xstep s (s\<lparr>sx := q, stored := stored s @ [m]\<rparr>)"
| x_empty: "xpcs s t = XTop \<Longrightarrow> sx_queue (sx s) = [] \<Longrightarrow> xstep s (s\<lparr>xpcs := (xpcs s)(t := XEnd)\<rparr>)"
| x_fetch: "xpcs s t = XTop \<Longrightarrow> sx_queue (sx s) = m # ms \<Longrightarrow> execute_section False (sx s) = (Inr (Some req), q) \<Longrightarrow>
    xstep s (s\<lparr>sx := q, xpcs := (xpcs s)(t := XReply m), fetched := fetched s @ [m]\<rparr>)"
| x_again: "xpcs s t = XReply m \<Longrightarrow> sx_working (sx s) \<Longrightarrow> sx_queue (sx s) \<noteq> [] \<Longrightarrow> xstep s (s\<lparr>xpcs := (xpcs s)(t := XTop)\<rparr>)"
| x_last: "xpcs s t = XReply m \<Longrightarrow> \<not> (sx_working (sx s) \<and> sx_queue (sx s) \<noteq> []) \<Longrightarrow> xstep s (s\<lparr>xpcs := (xpcs s)(t := XEnd)\<rparr>)"
| x_leave: "xpcs s t = XEnd \<Longrightarrow>
    xstep s (s\<lparr>sx := (sx s)\<lparr>sx_workers := sx_workers (sx s) - 1\<rparr>, xpcs := (xpcs s)(t := XNone)\<rparr>)"

definition live :: "xstate \<Rightarrow> nat set" where
  "live s = {t. xpcs s t \<noteq> XNone}"

definition xinv :: "xstate \<Rightarrow> bool" where
  "xinv s \<longleftrightarrow>
     finite (live s) \<and> sx_workers (sx s) = int (card (live s)) \<and>
     (sx_LimitTasks (sx s) \<noteq> 0 \<longrightarrow> sx_workers (sx s) \<le> int (sx_LimitTasks (sx s))) \<and>
     fetched s @ sx_queue (sx s) = stored s"

definition sapi_start :: "sync_sapi \<Rightarrow> xstate" where
  "sapi_start q = \<lparr>sx = q, xpcs = (\<lambda>_. XNone), fetched = [], stored = []\<rparr>"

lemma int32_small: "n < 2 ^ 31 \<Longrightarrow> int32 n = int n"
  by (simp add: int32_def Let_def)

lemma put_started:
  assumes "sapi_put_section False m r q = (Inr (True, b), q')"
  shows "sx_queue q' = sx_queue q @ [m]" "sx_LimitTasks q' = sx_LimitTasks q"
    "sx_workers q' = sx_workers q + (if b then 1 else 0)"
    "b \<Longrightarrow> sx_LimitTasks q = 0 \<or> sx_workers q < int32 (sx_LimitTasks q)"
  using assms by (auto simp: sapi_put_section_eq Let_def split: if_splits)

text \<open>A step of a thread that stays alive and leaves the queue alone.\<close>

lemma xinv_frame:
  assumes "xinv s" and "live s' = live s" and "sx s' = sx s" and "fetched s' = fetched s" and "stored s' = stored s"
  shows "xinv s' \<and> sx_LimitTasks (sx s') = sx_LimitTasks (sx s)"
  using assms by (auto simp: xinv_def)

lemma xstep_inv:
  assumes "xstep s s'" and "xinv s" and "sx_LimitTasks (sx s) < 2 ^ 31"
  shows "xinv s' \<and> sx_LimitTasks (sx s') = sx_LimitTasks (sx s)"
  using assms(1)
proof cases
  case (x_put_start m r q t)
  note p = put_started [OF x_put_start(3)]
  have "live s' = insert t (live s)" "t \<notin> live s" using x_put_start(1,4) by (auto simp: live_def)
  then show ?thesis using assms(2,3) p x_put_start(1) int32_small [OF assms(3)] by (auto simp: xinv_def)
next
  case (x_put m r q)
  note p = put_started [OF x_put(3)]
  have "live s' = live s" using x_put(1) by (simp add: live_def)
  then show ?thesis using assms(2) p x_put(1) by (auto simp: xinv_def)
next
  case (x_empty t)
  then show ?thesis using assms(2) by (intro xinv_frame) (auto simp: live_def)
next
  case (x_fetch t m ms req q)
  then have "sx_queue q = ms" "sx_workers q = sx_workers (sx s)" "sx_LimitTasks q = sx_LimitTasks (sx s)"
    by (auto simp: execute_section_def Let_def split: option.splits)
  moreover have "live s' = live s" using x_fetch(1,2) by (auto simp: live_def split: if_splits)
  ultimately show ?thesis using x_fetch(1,3) assms(2) by (auto simp: xinv_def)
next
  case (x_again t m)
  then show ?thesis using assms(2) by (intro xinv_frame) (auto simp: live_def)
next
  case (x_last t m)
  then show ?thesis using assms(2) by (intro xinv_frame) (auto simp: live_def)
next
  case (x_leave t)
  have "live s' = live s - {t}" "t \<in> live s" using x_leave by (auto simp: live_def)
  then have "finite (live s')" "int (card (live s')) = int (card (live s)) - 1"
    using assms(2) card_Suc_Diff1 [of "live s" t] by (simp_all add: xinv_def)
  moreover have "sx_workers (sx s') = sx_workers (sx s) - 1" "sx_LimitTasks (sx s') = sx_LimitTasks (sx s)"
    "fetched s' = fetched s" "stored s' = stored s" "sx_queue (sx s') = sx_queue (sx s)"
    using x_leave(1) by simp_all
  ultimately show ?thesis using assms(2) unfolding xinv_def by auto
qed

definition sapi_idle :: "xstate \<Rightarrow> bool" where
  "sapi_idle s \<longleftrightarrow> (\<exists>q. s = sapi_start q \<and> sx_workers q = 0 \<and> sx_queue q = [] \<and> sx_LimitTasks q < 2 ^ 31)"

interpretation sapi_threads: inductive_invariant xstep sapi_idle "\<lambda>s. xinv s \<and> sx_LimitTasks (sx s) < 2 ^ 31"
  by unfold_locales (auto simp: sapi_idle_def xinv_def sapi_start_def live_def dest: xstep_inv)

section \<open>A message left behind\<close>

text \<open>
  The last thread leaves its loop before it gives up its place in \<open>mq_workers\<close>. A request stored in
  between starts no thread when the limit is reached, and nobody is left to answer it.
\<close>

definition stranded :: "xstate \<Rightarrow> bool" where
  "stranded s \<longleftrightarrow> sx_queue (sx s) \<noteq> [] \<and> (\<forall>t. xpcs s t = XNone)"

lemma stranded_reachable:
  assumes "sx_working q" and "sx_LimitTasks q = 1" and "sx_LimitSize q = 0" and "sx_workers q = 0" and "sx_queue q = []"
    and "sx_messages q = []" and "m \<noteq> m'"
  shows "\<exists>s. reach xstep (sapi_start q) s \<and> stranded s \<and> sx_queue (sx s) = [m']"
proof -
  let ?s0 = "sapi_start q"
  define q1 where "q1 = q\<lparr>sx_messages := [(m, Some r)], sx_queue := [m], sx_workers := 1\<rparr>"
  have "sapi_put_section False m r (sx ?s0) = (Inr (True, True), q1)"
    using assms by (simp add: sapi_put_section_eq sapi_start_def q1_def int32_def)
  then have 1: "xstep ?s0 (?s0\<lparr>sx := q1, xpcs := (xpcs ?s0)(0 := XTop), stored := stored ?s0 @ [m]\<rparr>)" (is "xstep _ ?s1")
    using assms(1) by (intro x_put_start) (simp_all add: sapi_start_def)
  define q2 where "q2 = q1\<lparr>sx_queue := []\<rparr>"
  have "execute_section False (sx ?s1) = (Inr (Some (Some r)), q2)"
    by (simp add: execute_section_def q1_def q2_def umap_find_plain)
  then have 2: "xstep ?s1 (?s1\<lparr>sx := q2, xpcs := (xpcs ?s1)(0 := XReply m), fetched := fetched ?s1 @ [m]\<rparr>)" (is "xstep _ ?s2")
    by (intro x_fetch) (simp_all add: q1_def)
  have 3: "xstep ?s2 (?s2\<lparr>xpcs := (xpcs ?s2)(0 := XEnd)\<rparr>)" (is "xstep _ ?s3")
    by (rule x_last [of _ _ m]) (simp_all add: q2_def)
  define q3 where "q3 = q2\<lparr>sx_messages := [(m, Some r), (m', Some r')], sx_queue := [m']\<rparr>"
  have "sapi_put_section False m' r' (sx ?s3) = (Inr (True, False), q3)"
    using assms by (simp add: sapi_put_section_eq q3_def q2_def q1_def int32_def)
  then have 4: "xstep ?s3 (?s3\<lparr>sx := q3, stored := stored ?s3 @ [m']\<rparr>)" (is "xstep _ ?s4")
    using assms(1) by (intro x_put) (simp_all add: q2_def q1_def)
  have 5: "xstep ?s4 (?s4\<lparr>sx := (sx ?s4)\<lparr>sx_workers := sx_workers (sx ?s4) - 1\<rparr>, xpcs := (xpcs ?s4)(0 := XNone)\<rparr>)" (is "xstep _ ?s5")
    by (rule x_leave) simp
  have "reach xstep ?s0 ?s5" using 1 2 3 4 5 by (meson reach_init reach_step)
  moreover have "stranded ?s5" "sx_queue (sx ?s5) = [m']" by (simp_all add: stranded_def q3_def sapi_start_def)
  ultimately show ?thesis by blast
qed

section \<open>The queue is drained\<close>

text \<open>
  While no further request is stored, the threads end, in whatever order they run, and if one of them was still in its
  loop they have then fetched every message.
\<close>

definition drain_step :: "xstate \<Rightarrow> xstate \<Rightarrow> bool" where
  "drain_step s s' \<longleftrightarrow> xstep s s' \<and> stored s' = stored s"

definition looping :: "xstate \<Rightarrow> bool" where
  "looping s \<longleftrightarrow> (\<exists>t. xpcs s t = XTop \<or> (\<exists>m. xpcs s t = XReply m))"

definition drain_inv :: "uint64 list \<Rightarrow> xstate \<Rightarrow> bool" where
  "drain_inv ms s \<longleftrightarrow>
     xinv s \<and> sx_LimitTasks (sx s) < 2 ^ 31 \<and> sapi_inv (sx s) \<and> sx_working (sx s) \<and> stored s = ms \<and>
     (sx_queue (sx s) = [] \<or> looping s)"

fun xweight :: "xpc \<Rightarrow> nat" where
  "xweight XNone = 0"
| "xweight XEnd = 1"
| "xweight XTop = 2"
| "xweight (XReply m) = 3"

definition drain_left :: "xstate \<Rightarrow> nat" where
  "drain_left s = 2 * length (sx_queue (sx s)) + (\<Sum>t \<in> live s. xweight (xpcs s t))"

lemma drain_left_upd:
  assumes "finite (live s)" and "t \<in> live s" and "xpcs s' = (xpcs s)(t := x)"
    and "2 * length (sx_queue (sx s')) + xweight x < 2 * length (sx_queue (sx s)) + xweight (xpcs s t)"
  shows "drain_left s' < drain_left s"
proof -
  have "(\<Sum>k \<in> live s'. xweight (xpcs s' k)) = (\<Sum>k \<in> live s. xweight (xpcs s' k))"
    using assms(1-3) by (intro sum.mono_neutral_left) (auto simp: live_def split: if_splits)
  then show ?thesis
    using sum_upd [OF assms(1,2), of xweight "xpcs s" x] assms(3,4) by (simp add: drain_left_def)
qed

lemma fetch_section:
  assumes "execute_section mv q = (Inr (Some req), q')" and "sapi_inv q"
  shows "sx_working q' = sx_working q" "sx_queue q' = tl (sx_queue q)" "sapi_inv q'"
  using assms execute_section_inv [OF assms(2), of mv]
  by (auto simp: execute_section_def Let_def split: list.splits option.splits if_splits)

lemma drain_step_cases:
  assumes "drain_step s s'" and inv: "drain_inv ms s"
  shows "drain_left s' < drain_left s \<and> sapi_inv (sx s') \<and> sx_working (sx s') \<and> (sx_queue (sx s') = [] \<or> looping s')"
proof -
  have x: "finite (live s)" "sapi_inv (sx s)" "sx_working (sx s)" "sx_queue (sx s) = [] \<or> looping s"
    using inv by (simp_all add: drain_inv_def xinv_def)
  have same: "stored s' = stored s" using assms(1) by (simp add: drain_step_def)
  have "xstep s s'" using assms(1) by (simp add: drain_step_def)
  then show ?thesis
  proof cases
    case (x_empty t)
    then show ?thesis using x drain_left_upd [OF x(1), of t s' XEnd] by (simp add: live_def)
  next
    case (x_fetch t m ms' req q)
    have "looping s'" using x_fetch(1) by (auto simp: looping_def)
    then show ?thesis using x_fetch x drain_left_upd [OF x(1), of t s' "XReply m"] fetch_section [OF x_fetch(4) x(2)]
      by (simp add: live_def)
  next
    case (x_again t m)
    have "looping s'" using x_again(1) by (auto simp: looping_def)
    then show ?thesis using x_again x drain_left_upd [OF x(1), of t s' XTop] by (simp add: live_def)
  next
    case (x_last t m)
    then show ?thesis using x drain_left_upd [OF x(1), of t s' XEnd] by (simp add: live_def)
  next
    case (x_leave t)
    have "xpcs s' k = xpcs s k" if "xpcs s k \<noteq> XEnd" for k using that x_leave by auto
    then have "looping s \<Longrightarrow> looping s'" unfolding looping_def by (metis xpc.distinct)
    moreover have "sapi_inv (sx s')" using x(2) x_leave(1) by (simp add: sapi_inv_def)
    ultimately show ?thesis using x_leave x drain_left_upd [OF x(1), of t s' XNone] by (auto simp: live_def)
  qed (use same in auto)
qed

lemma drain_step_possible:
  assumes inv: "drain_inv ms s" and stuck: "\<forall>s'. \<not> drain_step s s'"
  shows "(\<forall>t. xpcs s t = XNone) \<and> sx_queue (sx s) = [] \<and> fetched s = ms \<and> sx_workers (sx s) = 0"
proof -
  have no: "\<not> xstep s s'" if "stored s' = stored s" for s' using stuck that by (auto simp: drain_step_def)
  have top: "xpcs s t \<noteq> XTop" for t
  proof
    assume t: "xpcs s t = XTop"
    show False
    proof (cases "sx_queue (sx s)")
      case Nil
      then show False using x_empty [OF t] no by simp
    next
      case (Cons m ms)
      have "sapi_inv (sx s)" using inv by (simp add: drain_inv_def)
      then obtain req q where "execute_section False (sx s) = (Inr (Some req), q)"
        using execute_section_inv [of "sx s" False] Cons by (auto simp: execute_section_def Let_def split: option.splits)
      then show False using x_fetch [OF t Cons] no by simp
    qed
  qed
  have rep: "xpcs s t \<noteq> XReply m" for t m
    using x_again [of s t m] x_last [of s t m] no by fastforce
  have "xpcs s t \<noteq> XEnd" for t using x_leave [of s t] no by fastforce
  then have none: "xpcs s t = XNone" for t using top rep by (cases "xpcs s t") auto
  then have "live s = {}" "\<not> looping s" by (auto simp: live_def looping_def)
  then show ?thesis using inv none by (auto simp: drain_inv_def xinv_def)
qed

interpretation sapi_drain: ranked_progress drain_step "drain_inv ms" "drain_inv ms" drain_left
  "\<lambda>s. (\<forall>t. xpcs s t = XNone) \<and> sx_queue (sx s) = [] \<and> fetched s = ms \<and> sx_workers (sx s) = 0" for ms
proof
  fix s s'
  assume inv: "drain_inv ms s" and step: "drain_step s s'"
  then have "xinv s' \<and> sx_LimitTasks (sx s') = sx_LimitTasks (sx s)"
    using xstep_inv by (auto simp: drain_inv_def drain_step_def)
  with drain_step_cases [OF step inv] inv step show "drain_inv ms s'" "drain_left s' < drain_left s"
    by (auto simp: drain_inv_def drain_step_def)
qed (use drain_step_possible in blast)+

text \<open>The handler's own invariant in every reachable state.\<close>

interpretation sapi_stored: inductive_invariant xstep "\<lambda>s. \<exists>q. s = sapi_start q \<and> sapi_inv q" "\<lambda>s. sapi_inv (sx s)"
proof
  fix s s'
  assume inv: "sapi_inv (sx s)" and "xstep s s'"
  from this(2) show "sapi_inv (sx s')"
  proof cases
    case (x_put_start m r q t)
    then show ?thesis using sapi_put_section_inv [OF inv, of False m r] by simp
  next
    case (x_put m r q)
    then show ?thesis using sapi_put_section_inv [OF inv, of False m r] by simp
  next
    case (x_fetch t m ms req q)
    then show ?thesis using fetch_section(3) [OF x_fetch(4) inv] by simp
  qed (use inv in \<open>auto simp: sapi_inv_def\<close>)
qed (auto simp: sapi_start_def)

end
