(* ===== verification/Fiber_ThreadPool.thy ===== *)
theory Fiber_ThreadPool
  imports Fiber_Option Fiber_Except
begin

text \<open>
  kernel/mt/threadpool.cpp and threadpool.h: \<open>ThreadPool\<close>, a pool of persistent workers that is extended
  while there are more tasks than idle workers.

  The state is that of the class; a thread is named by its number (\<open>PoolIndexWorkers\<close> at its creation)
  in place of its thread id. \<open>Fiber_PoolThreads\<close> runs the worker loops.
\<close>

section \<open>State and operations\<close>

datatype worker_type = sPersistent | sExtended | sAsync

record 't pool =
  PoolYet :: bool
  PoolInitWorkers :: nat
  PoolMaxWorkers :: nat
  PoolIndexWorkers :: nat
  PoolBusyWorkers :: int
  PoolWorkers :: "(nat \<times> worker_type) list"
  PoolTasks :: "'t list"
  PoolWorkersBinding :: "nat list"

definition worker_core :: "'t pool \<Rightarrow> nat \<Rightarrow> nat" where
  "worker_core p num = PoolWorkersBinding p ! (num mod length (PoolWorkersBinding p))"

fun Hire :: "nat \<Rightarrow> worker_type \<Rightarrow> 't pool \<Rightarrow> 't pool" where
  "Hire 0 ty p = p"
| "Hire (Suc n) ty p =
     Hire n ty (p\<lparr>PoolWorkers := PoolWorkers p @ [(PoolIndexWorkers p, ty)], PoolIndexWorkers := Suc (PoolIndexWorkers p)\<rparr>)"

definition thread_name :: "worker_type \<Rightarrow> nat \<Rightarrow> string" where
  "thread_name ty num =
     (case ty of sPersistent \<Rightarrow> ''Peristent'' | sExtended \<Rightarrow> ''Extended'' | sAsync \<Rightarrow> ''Async'') @ ''#'' @ to_string num"

text \<open>The cores the workers are bound to: \<open>hw\<close> is the number of hardware threads.\<close>

definition uniqCores :: "nat \<Rightarrow> uint64 set \<Rightarrow> uint64 set \<Rightarrow> exn + nat set" where
  "uniqCores hw list_worker list_exclude =
     (if list_worker = {} then Inr (set (filter (\<lambda>n. list_exclude = {} \<or> word_of_nat n \<notin> list_exclude) [0..<hw]))
      else if hw = 0 then Inl UndefinedBehaviour
      else Inr ((\<lambda>co. unat co mod hw) `
             Set.filter (\<lambda>co. list_exclude = {} \<or> word_of_nat (unat co mod hw) \<notin> list_exclude) list_worker))"

definition pool_invalid :: "nat \<Rightarrow> nat \<Rightarrow> string \<Rightarrow> exn" where
  "pool_invalid ini mx CoreBinding =
     throw_runtime ''threadpool.cpp'' 57
       (''Invalid thread pool initialization. (Workers: '' @ to_string ini @ '', Max: '' @ to_string mx @ '', Bindigns: '' @
        CoreBinding @ '')'')"

text \<open>The set of cores is an \<open>unordered_set\<close>: \<open>arrange\<close> is the order of its iteration.\<close>

definition ThreadPool ::
    "nat \<Rightarrow> (nat set \<Rightarrow> nat list) \<Rightarrow> string \<Rightarrow> string \<Rightarrow> string \<Rightarrow> string \<Rightarrow> exn + 't pool" where
  "ThreadPool hw arrange InitialWorkers MaxWorkers CoreBinding ExcludeBinding =
     (case stoul InitialWorkers of Inl x \<Rightarrow> Inl x | Inr ini \<Rightarrow>
      case stoul MaxWorkers of Inl x \<Rightarrow> Inl x | Inr mx \<Rightarrow>
      case expand CoreBinding of Inl x \<Rightarrow> Inl x | Inr list_worker \<Rightarrow>
      case expand ExcludeBinding of Inl x \<Rightarrow> Inl x | Inr list_exclude \<Rightarrow>
      case uniqCores hw list_worker list_exclude of Inl x \<Rightarrow> Inl x | Inr cores \<Rightarrow>
        if arrange cores = [] \<or> ini = 0 \<or> mx < ini then Inl (pool_invalid ini mx CoreBinding)
        else Inr (Hire ini sPersistent
               \<lparr>PoolYet = True, PoolInitWorkers = ini, PoolMaxWorkers = mx, PoolIndexWorkers = 0, PoolBusyWorkers = 0,
                PoolWorkers = [], PoolTasks = [], PoolWorkersBinding = arrange cores\<rparr>))"

definition GetState :: "'t pool \<Rightarrow> nat \<times> nat \<times> nat" where
  "GetState p = (length (PoolWorkers p), length (PoolTasks p), u64 (PoolBusyWorkers p))"

text \<open>\<open>CheckResize\<close> computes in \<open>size_t\<close>, modulo \<open>2 ^ 64\<close>.\<close>

definition NewWorkerCount :: "nat \<Rightarrow> nat \<Rightarrow> int \<Rightarrow> nat \<Rightarrow> nat \<Rightarrow> nat" where
  "NewWorkerCount ini mx busy NumWorker NumTasks =
     (let AvailableWorkers = u64 (int NumWorker - busy);
          n = (if AvailableWorkers < NumTasks
               then u64 (int (u64 (int NumTasks - int AvailableWorkers + (int ini - 1)) div ini * ini)) else 0)
      in if mx < u64 (int (NumWorker + n)) then u64 (int mx - int NumWorker) else n)"

definition CheckResize :: "nat \<Rightarrow> nat \<Rightarrow> 't pool \<Rightarrow> 't pool" where
  "CheckResize NumWorker NumTasks p =
     (let n = NewWorkerCount (PoolInitWorkers p) (PoolMaxWorkers p) (PoolBusyWorkers p) NumWorker NumTasks
      in if 0 < n then Hire n sExtended p else p)"

text \<open>\<open>Enqueue\<close>: the block under the lock, which also takes the snapshot given to \<open>CheckResize\<close>.\<close>

definition enqueue_section :: "'t \<Rightarrow> 't pool \<Rightarrow> (exn + nat \<times> nat) \<times> 't pool" where
  "enqueue_section t p =
     (if \<not> PoolYet p then (Inl (StdRuntimeError ''enqueue on stopped ThreadPool''), p)
      else let p = p\<lparr>PoolTasks := PoolTasks p @ [t]\<rparr> in (Inr (length (PoolWorkers p), length (PoolTasks p)), p))"

definition Enqueue :: "'t \<Rightarrow> 't pool \<Rightarrow> (exn + unit) \<times> 't pool" where
  "Enqueue t p =
     (case enqueue_section t p of
        (Inl x, p) \<Rightarrow> (Inl x, p)
      | (Inr (nw, nt), p) \<Rightarrow> (Inr (), CheckResize nw nt p))"

text \<open>
  A task is a \<open>packaged_task\<close>: what the function returns or throws is kept for its future, and the worker that
  called it goes on. Undefined behaviour and \<open>std::terminate\<close> are not exceptions.
\<close>

definition packaged :: "exn + 'a \<Rightarrow> exn + (exn + 'a)" where
  "packaged r =
     (case r of
        Inr v \<Rightarrow> Inr (Inr v)
      | Inl x \<Rightarrow> if x = UndefinedBehaviour \<or> x = Terminate then Inl x else Inr (Inl x))"

section \<open>The number of workers hired\<close>

lemma u64_id: "0 \<le> i \<Longrightarrow> i < 2 ^ 64 \<Longrightarrow> u64 i = nat i"
  by (simp add: u64_def)

lemma round_up:
  fixes ini :: nat
  assumes "0 < ini"
  shows "k \<le> (k + (ini - 1)) div ini * ini" "(k + (ini - 1)) div ini * ini < k + ini"
proof -
  let ?m = "k + (ini - 1)"
  have m: "?m div ini * ini + ?m mod ini = ?m" "?m mod ini < ini" using assms by simp_all
  then show "k \<le> ?m div ini * ini" "?m div ini * ini < k + ini" using assms by linarith+
qed

lemma NewWorkerCount_eq:
  assumes "0 < ini" and "ini \<le> mx" and "mx < 2 ^ 62" and "nt < 2 ^ 62" and "nw \<le> mx" and "0 \<le> busy" and "busy \<le> int nw"
  shows "NewWorkerCount ini mx busy nw nt =
    (let avail = nw - nat busy in if avail < nt then min (mx - nw) ((nt - avail + (ini - 1)) div ini * ini) else 0)"
proof -
  let ?a = "nw - nat busy"
  have a: "u64 (int nw - busy) = ?a" using assms by (subst u64_id) simp_all
  show ?thesis
  proof (cases "?a < nt")
    case False
    then show ?thesis using assms by (simp add: NewWorkerCount_def a u64_id)
  next
    case True
    define n where "n = (nt - ?a + (ini - 1)) div ini * ini"
    have k: "u64 (int nt - int ?a + (int ini - 1)) = nt - ?a + (ini - 1)"
      using True assms by (subst u64_id) simp_all
    have "n < (nt - ?a) + ini" unfolding n_def by (rule round_up(2) [OF assms(1)])
    then have n: "n < 2 ^ 63" using assms by simp
    have "u64 (int n) = n" "u64 (int (nw + n)) = nw + n" using n assms by (intro u64_of_nat; simp)+
    moreover have "u64 (int mx - int nw) = mx - nw" using assms by (subst u64_id) simp_all
    ultimately show ?thesis using True
      by (simp only: NewWorkerCount_def a k Let_def n_def [symmetric] if_True) (auto simp: min_def)
  qed
qed

text \<open>Enough workers for the tasks, or as many as allowed; never more than allowed.\<close>

lemma NewWorkerCount_bounds:
  assumes "0 < ini" and "ini \<le> mx" and "mx < 2 ^ 62" and "nt < 2 ^ 62" and "nw \<le> mx" and "0 \<le> busy" and "busy \<le> int nw"
  shows "nw + NewWorkerCount ini mx busy nw nt \<le> mx"
    "nw + NewWorkerCount ini mx busy nw nt = mx \<or> nt \<le> nw - nat busy + NewWorkerCount ini mx busy nw nt"
proof -
  define a where "a = nw - nat busy"
  define r where "r = (nt - a + (ini - 1)) div ini * ini"
  have r: "nt - a \<le> r" unfolding r_def by (rule round_up(1) [OF assms(1)])
  have n: "NewWorkerCount ini mx busy nw nt = (if a < nt then min (mx - nw) r else 0)"
    using NewWorkerCount_eq [OF assms] by (simp only: Let_def a_def [symmetric] r_def [symmetric])
  show "nw + NewWorkerCount ini mx busy nw nt \<le> mx" using assms(5) unfolding n by auto
  show "nw + NewWorkerCount ini mx busy nw nt = mx \<or> nt \<le> nw - nat busy + NewWorkerCount ini mx busy nw nt"
    using assms(5) r unfolding n a_def [symmetric] by auto
qed

text \<open>
  The snapshot and the resize are not under one lock. Should the number of workers ever be beyond the
  limit, the subtraction wraps around, and the pool hires without end.
\<close>

lemma NewWorkerCount_wraps:
  assumes "mx < nw" and "nw < 2 ^ 62" and "0 \<le> busy" and "busy \<le> int nw" and "nt \<le> nw - nat busy"
  shows "NewWorkerCount ini mx busy nw nt = 2 ^ 64 - (nw - mx)"
proof -
  have a: "u64 (int nw - busy) = nw - nat busy" using assms by (subst u64_id) simp_all
  have "u64 (int mx - int nw) = 2 ^ 64 - (nw - mx)"
  proof -
    have "int mx - int nw + 2 ^ 64 = int (2 ^ 64 - (nw - mx))" using assms by simp
    moreover have "u64 (int mx - int nw) = u64 (int mx - int nw + 2 ^ 64)" by (simp add: u64_def)
    moreover have "2 ^ 64 - (nw - mx) < (2 ^ 64 :: nat)" using assms by simp
    ultimately show ?thesis by (metis u64_of_nat)
  qed
  moreover have "u64 (int nw) = nw" using assms by (intro u64_of_nat) simp
  ultimately show ?thesis using assms by (simp add: NewWorkerCount_def a)
qed

section \<open>Hiring\<close>

lemma Hire_eq:
  "Hire n ty p = p\<lparr>PoolWorkers := PoolWorkers p @ map (\<lambda>k. (PoolIndexWorkers p + k, ty)) [0..<n],
                  PoolIndexWorkers := PoolIndexWorkers p + n\<rparr>"
proof (induction n arbitrary: p)
  case (Suc n)
  have "map (\<lambda>k. (PoolIndexWorkers p + k, ty)) [0..<Suc n] =
      (PoolIndexWorkers p, ty) # map (\<lambda>k. (Suc (PoolIndexWorkers p) + k, ty)) [0..<n]"
    by (simp add: upt_conv_Cons map_Suc_upt [symmetric] del: upt_Suc)
  with Suc show ?case by simp
qed simp

lemma CheckResize_eq:
  "CheckResize nw nt p = Hire (NewWorkerCount (PoolInitWorkers p) (PoolMaxWorkers p) (PoolBusyWorkers p) nw nt) sExtended p"
  by (simp add: CheckResize_def Let_def)

lemma ThreadPool_created:
  assumes "ThreadPool hw arrange a b c d = Inr p"
  shows "0 < PoolInitWorkers p \<and> PoolInitWorkers p \<le> PoolMaxWorkers p \<and> PoolWorkersBinding p \<noteq> [] \<and>
    PoolWorkers p = map (\<lambda>k. (k, sPersistent)) [0..<PoolInitWorkers p] \<and> PoolIndexWorkers p = PoolInitWorkers p \<and>
    PoolTasks p = [] \<and> PoolYet p \<and> PoolBusyWorkers p = 0"
  using assms by (auto simp: ThreadPool_def Hire_eq split: sum.splits if_splits)

lemma uniqCores_bounds:
  "uniqCores hw ws ex = Inr cores \<Longrightarrow> n \<in> cores \<Longrightarrow> n < hw \<and> (ex \<noteq> {} \<longrightarrow> word_of_nat n \<notin> ex)"
  by (auto simp: uniqCores_def split: if_splits)

section \<open>Jobs\<close>

text \<open>
  \<open>Enqueue\<close> of an object, whose task runs its interface \<open>IThreadJob\<close>. The objects belong to the component
  library: \<open>refs\<close> are their reference counts, \<open>qi\<close> says whether an object answers \<open>QueryInterface\<close> and \<open>add\<close> how
  many references that call adds. When it fails, \<open>job\<close> is still null at the last \<open>Release\<close>.
\<close>

definition Enqueue_job :: "'o \<Rightarrow> ('o \<Rightarrow> int) \<times> 'o pool \<Rightarrow> (exn + unit) \<times> ('o \<Rightarrow> int) \<times> 'o pool" where
  "Enqueue_job pThreadJob s =
     (let refs = (fst s)(pThreadJob := fst s pThreadJob + 1);
          (r, p) = Enqueue pThreadJob (snd s)
      in (r, refs, p))"

definition run_job ::
    "('o \<Rightarrow> bool) \<Rightarrow> int \<Rightarrow> ('o \<Rightarrow> 'w \<Rightarrow> 'w) \<Rightarrow> 'o \<Rightarrow> ('o \<Rightarrow> int) \<times> 'w \<Rightarrow> (exn + unit) \<times> ('o \<Rightarrow> int) \<times> 'w" where
  "run_job qi add Exec pThreadJob s =
     (if qi pThreadJob then
        let refs = (fst s)(pThreadJob := fst s pThreadJob + add);
            w = Exec pThreadJob (snd s);
            refs = refs(pThreadJob := refs pThreadJob - 1)
        in (Inr (), refs(pThreadJob := refs pThreadJob - 1), w)
      else (Inl UndefinedBehaviour, s))"

text \<open>The references balance exactly when \<open>QueryInterface\<close> adds one.\<close>

lemma job_references:
  assumes "Enqueue_job j (refs, p) = (Inr (), refs', p')" and "run_job qi add Exec j (refs', w) = (Inr (), refs'', w')"
  shows "refs'' j = refs j + add - 1" and "i \<noteq> j \<Longrightarrow> refs'' i = refs i"
  using assms by (auto simp: Enqueue_job_def run_job_def Let_def split: prod.splits if_splits)

lemma rejected_job_keeps_reference:
  assumes "\<not> PoolYet p"
  shows "Enqueue_job j (refs, p) = (Inl (StdRuntimeError ''enqueue on stopped ThreadPool''), refs(j := refs j + 1), p)"
  using assms by (simp add: Enqueue_job_def Enqueue_def enqueue_section_def)

section \<open>Stopping\<close>

text \<open>
  \<open>Join\<close> clears \<open>PoolYet\<close>, wakes every worker and waits for them. From then on nothing is accepted, and
  no waiting worker takes a task: what is still queued is dropped.
\<close>

definition Join :: "'t pool \<Rightarrow> 't pool" where
  "Join p = (if PoolYet p then p\<lparr>PoolYet := False\<rparr> else p)"

lemma Enqueue_after_Join: "Enqueue t (Join p) = (Inl (StdRuntimeError ''enqueue on stopped ThreadPool''), Join p)"
  by (simp add: Enqueue_def enqueue_section_def Join_def)

end
