(* ===== verification/Fiber_PoolThreads.thy ===== *)
theory Fiber_PoolThreads
  imports Fiber_ThreadPool Fiber_Reach "HOL-Library.Multiset"
begin

text \<open>
  The threads of the pool (the body of \<open>Hire\<close> in kernel/mt/threadpool.cpp): the step relation \<open>pstep\<close> runs the
  worker loop of every thread beside one thread that enqueues, as the kernel's main loop does. The
  first argument says whether the program was built with \<open>NDEBUG\<close>.
\<close>

section \<open>The workers\<close>

text \<open>
  Where a worker is: waiting for its condition, with a task it has taken, running it (counted as
  busy), or gone. \<open>snap\<close> is the snapshot of the enqueuing thread between its critical section and
  \<open>CheckResize\<close>; \<open>started\<close> and \<open>enqueued\<close> record the tasks in the order they were taken and accepted,
  \<open>outcomes\<close> what their futures hold.
\<close>

datatype 't wpc = WWait | WTaken 't | WRun 't | WGone

record 't tps =
  pl :: "'t pool"
  wpcs :: "nat \<Rightarrow> 't wpc"
  snap :: "(nat \<times> nat) option"
  started :: "'t list"
  enqueued :: "'t list"
  outcomes :: "('t \<times> (exn + unit)) list"

text \<open>
  An extended worker that finds no task for ten seconds leaves. The call that erases it from the map stands
  inside the arguments of \<open>dbg_trace\<close>, a macro that is empty in a release build (\<open>NDEBUG\<close>): there the worker
  stays in the map.
\<close>

definition leave_pool :: "bool \<Rightarrow> nat \<Rightarrow> (nat \<times> worker_type) list \<Rightarrow> (nat \<times> worker_type) list" where
  "leave_pool ndebug i ws = (if ndebug then ws else filter (\<lambda>w. fst w \<noteq> i) ws)"

inductive pstep :: "bool \<Rightarrow> 't tps \<Rightarrow> 't tps \<Rightarrow> bool" for ndebug where
  p_enqueue: "snap s = None \<Longrightarrow> length (PoolTasks (pl s)) + 1 < 2 ^ 62 \<Longrightarrow>
    enqueue_section t (pl s) = (Inr sn, p') \<Longrightarrow>
    pstep ndebug s (s\<lparr>pl := p', snap := Some sn, enqueued := enqueued s @ [t]\<rparr>)"
| p_resize: "snap s = Some (nw, nt) \<Longrightarrow> pstep ndebug s (s\<lparr>pl := CheckResize nw nt (pl s), snap := None\<rparr>)"
| p_take: "(i, ty) \<in> set (PoolWorkers (pl s)) \<Longrightarrow> wpcs s i = WWait \<Longrightarrow> PoolYet (pl s) \<Longrightarrow> PoolTasks (pl s) = t # ts \<Longrightarrow>
    pstep ndebug s (s\<lparr>pl := (pl s)\<lparr>PoolTasks := ts\<rparr>, wpcs := (wpcs s)(i := WTaken t), started := started s @ [t]\<rparr>)"
| p_busy: "wpcs s i = WTaken t \<Longrightarrow>
    pstep ndebug s (s\<lparr>pl := (pl s)\<lparr>PoolBusyWorkers := PoolBusyWorkers (pl s) + 1\<rparr>, wpcs := (wpcs s)(i := WRun t)\<rparr>)"
| p_done: "wpcs s i = WRun t \<Longrightarrow> packaged r = Inr fut \<Longrightarrow>
    pstep ndebug s (s\<lparr>pl := (pl s)\<lparr>PoolBusyWorkers := PoolBusyWorkers (pl s) - 1\<rparr>, wpcs := (wpcs s)(i := WWait),
      outcomes := outcomes s @ [(t, fut)]\<rparr>)"
| p_leave: "(i, sExtended) \<in> set (PoolWorkers (pl s)) \<Longrightarrow> wpcs s i = WWait \<Longrightarrow> PoolYet (pl s) \<Longrightarrow> PoolTasks (pl s) = [] \<Longrightarrow>
    pstep ndebug s (s\<lparr>pl := (pl s)\<lparr>PoolWorkers := leave_pool ndebug i (PoolWorkers (pl s))\<rparr>, wpcs := (wpcs s)(i := WGone)\<rparr>)"
| p_stop: "pstep ndebug s (s\<lparr>pl := (pl s)\<lparr>PoolYet := False\<rparr>\<rparr>)"
| p_exit: "(i, ty) \<in> set (PoolWorkers (pl s)) \<Longrightarrow> wpcs s i = WWait \<Longrightarrow> \<not> PoolYet (pl s) \<Longrightarrow> pstep ndebug s (s\<lparr>wpcs := (wpcs s)(i := WGone)\<rparr>)"

text \<open>The pool just constructed: every worker waits, nothing was enqueued.\<close>

definition pool_start :: "'t pool \<Rightarrow> 't tps" where
  "pool_start p = \<lparr>pl = p, wpcs = (\<lambda>_. WWait), snap = None, started = [], enqueued = [], outcomes = []\<rparr>"

lemma wpcs_pool_start: "wpcs (pool_start p) i = WWait"
  by (simp add: pool_start_def)

text \<open>A task is taken at most once, in the order of arrival, and none is lost.\<close>

lemma pstep_fifo:
  "pstep ndebug s s' \<Longrightarrow> started s @ PoolTasks (pl s) = enqueued s \<Longrightarrow> started s' @ PoolTasks (pl s') = enqueued s'"
  by (induction rule: pstep.induct)
    (auto simp: enqueue_section_def CheckResize_eq Hire_eq Let_def split: if_splits)

interpretation tasks: inductive_invariant "pstep ndebug" "\<lambda>s. \<exists>p. s = pool_start p \<and> PoolTasks p = []"
  "\<lambda>s. started s @ PoolTasks (pl s) = enqueued s"
  by unfold_locales (auto simp: pool_start_def intro: pstep_fifo)

section \<open>The pool stays within its limit\<close>

definition running :: "'t tps \<Rightarrow> nat set" where
  "running s = {i. \<exists>t. wpcs s i = WRun t}"

definition working :: "'t tps \<Rightarrow> nat set" where
  "working s = {i. \<exists>t. wpcs s i = WTaken t \<or> wpcs s i = WRun t}"

text \<open>
  The persistent workers stay, busy workers are counted and are workers, and a snapshot is not
  below the number of workers (workers may have left since, none was hired).
\<close>

definition pool_inv :: "'t tps \<Rightarrow> bool" where
  "pool_inv s \<longleftrightarrow>
     0 < PoolInitWorkers (pl s) \<and> PoolInitWorkers (pl s) \<le> PoolMaxWorkers (pl s) \<and> PoolMaxWorkers (pl s) < 2 ^ 62 \<and>
     length (PoolWorkers (pl s)) \<le> PoolMaxWorkers (pl s) \<and> distinct (map fst (PoolWorkers (pl s))) \<and>
     (\<forall>w \<in> set (PoolWorkers (pl s)). fst w < PoolIndexWorkers (pl s)) \<and>
     {k. k < PoolInitWorkers (pl s)} \<subseteq> {k. (k, sPersistent) \<in> set (PoolWorkers (pl s))} \<and>
     working s \<subseteq> fst ` set (PoolWorkers (pl s)) \<and>
     PoolBusyWorkers (pl s) = int (card (running s)) \<and>
     (\<forall>nw nt. snap s = Some (nw, nt) \<longrightarrow> length (PoolWorkers (pl s)) \<le> nw \<and> nw \<le> PoolMaxWorkers (pl s) \<and> nt < 2 ^ 62)"

lemma running_working: "running s \<subseteq> working s"
  by (auto simp: running_def working_def)

lemma busy_bound:
  assumes "working s \<subseteq> fst ` set (PoolWorkers p)"
  shows "finite (running s)" "card (running s) \<le> length (PoolWorkers p)"
proof -
  have sub: "running s \<subseteq> fst ` set (PoolWorkers p)" using running_working assms by blast
  then show "finite (running s)" by (rule finite_subset) simp
  have "card (running s) \<le> card (fst ` set (PoolWorkers p))" by (rule card_mono [OF _ sub]) simp
  also have "\<dots> \<le> length (PoolWorkers p)" by (metis card_length image_set length_map)
  finally show "card (running s) \<le> length (PoolWorkers p)" .
qed

lemma running_upd:
  "running (s\<lparr>pl := p, wpcs := (wpcs s)(i := x)\<rparr>) = (case x of WRun t \<Rightarrow> insert i (running s) | _ \<Rightarrow> running s - {i})"
  by (auto simp: running_def split: wpc.split if_splits)

lemma working_upd:
  "working (s\<lparr>pl := p, wpcs := (wpcs s)(i := x)\<rparr>) =
     (case x of WRun t \<Rightarrow> insert i (working s) | WTaken t \<Rightarrow> insert i (working s) | _ \<Rightarrow> working s - {i})"
  by (auto simp: working_def split: wpc.split if_splits)

lemma tps_frame [simp]:
  "running (s\<lparr>snap := sn\<rparr>) = running s" "working (s\<lparr>snap := sn\<rparr>) = working s"
  "running (s\<lparr>started := a\<rparr>) = running s" "working (s\<lparr>started := a\<rparr>) = working s"
  "running (s\<lparr>enqueued := a\<rparr>) = running s" "working (s\<lparr>enqueued := a\<rparr>) = working s"
  "running (s\<lparr>outcomes := b\<rparr>) = running s" "working (s\<lparr>outcomes := b\<rparr>) = working s"
  "running (s\<lparr>pl := p\<rparr>) = running s" "working (s\<lparr>pl := p\<rparr>) = working s"
  by (simp_all add: running_def working_def)

lemma hire_inv:
  assumes "pool_inv s" and "snap s = Some (nw, nt)"
  shows "pool_inv (s\<lparr>pl := CheckResize nw nt (pl s), snap := None\<rparr>)"
proof -
  let ?p = "pl s"
  let ?n = "NewWorkerCount (PoolInitWorkers ?p) (PoolMaxWorkers ?p) (PoolBusyWorkers ?p) nw nt"
  have b: "PoolBusyWorkers ?p = int (card (running s))" "working s \<subseteq> fst ` set (PoolWorkers ?p)"
    "length (PoolWorkers ?p) \<le> nw" "nw \<le> PoolMaxWorkers ?p" "nt < 2 ^ 62" "0 < PoolInitWorkers ?p"
    "PoolInitWorkers ?p \<le> PoolMaxWorkers ?p" "PoolMaxWorkers ?p < 2 ^ 62"
    using assms by (auto simp: pool_inv_def)
  have "card (running s) \<le> nw" using busy_bound(2) [OF b(2)] b(3) by simp
  then have "nw + ?n \<le> PoolMaxWorkers ?p"
    using NewWorkerCount_bounds(1) [OF b(6,7,8,5,4), of "PoolBusyWorkers ?p"] b(1) by simp
  then have "length (PoolWorkers ?p) + ?n \<le> PoolMaxWorkers ?p" using b(3) by simp
  moreover have "inj_on (\<lambda>k. PoolIndexWorkers ?p + k) {0..<?n}" by (simp add: inj_on_def)
  ultimately show ?thesis using assms
    by (auto simp: pool_inv_def CheckResize_eq Hire_eq distinct_map comp_def)
qed

lemma pool_inv_upd:
  assumes "pool_inv s" and "working s' \<subseteq> fst ` set (PoolWorkers (pl s'))" and "PoolBusyWorkers (pl s') = int (card (running s'))"
    and "PoolInitWorkers (pl s') = PoolInitWorkers (pl s)" "PoolMaxWorkers (pl s') = PoolMaxWorkers (pl s)"
    "PoolIndexWorkers (pl s') = PoolIndexWorkers (pl s)" "PoolWorkers (pl s') = PoolWorkers (pl s)" "snap s' = snap s"
  shows "pool_inv s'"
  using assms unfolding pool_inv_def by simp

lemma pool_inv_fewer:
  assumes "pool_inv s" and "working s' \<subseteq> fst ` set (PoolWorkers (pl s'))" and "PoolBusyWorkers (pl s') = int (card (running s'))"
    and "PoolInitWorkers (pl s') = PoolInitWorkers (pl s)" "PoolMaxWorkers (pl s') = PoolMaxWorkers (pl s)"
    "PoolIndexWorkers (pl s') = PoolIndexWorkers (pl s)" "snap s' = snap s"
    and "set (PoolWorkers (pl s')) \<subseteq> set (PoolWorkers (pl s))" and "distinct (map fst (PoolWorkers (pl s')))"
    and len: "length (PoolWorkers (pl s')) \<le> length (PoolWorkers (pl s))"
    and "\<And>k. (k, sPersistent) \<in> set (PoolWorkers (pl s)) \<Longrightarrow> (k, sPersistent) \<in> set (PoolWorkers (pl s'))"
  shows "pool_inv s'"
proof -
  have "{k. k < PoolInitWorkers (pl s')} \<subseteq> {k. (k, sPersistent) \<in> set (PoolWorkers (pl s'))}"
    using assms(1,4,11) unfolding pool_inv_def by auto
  moreover have "\<forall>w \<in> set (PoolWorkers (pl s')). fst w < PoolIndexWorkers (pl s')"
    using assms(1,8) unfolding pool_inv_def assms(6) by blast
  moreover have "\<forall>nw nt. snap s' = Some (nw, nt) \<longrightarrow>
      length (PoolWorkers (pl s')) \<le> nw \<and> nw \<le> PoolMaxWorkers (pl s') \<and> nt < 2 ^ 62"
    using assms(1,5,7) le_trans [OF len] unfolding pool_inv_def by (metis (no_types, lifting))
  moreover have "length (PoolWorkers (pl s')) \<le> PoolMaxWorkers (pl s')"
    using assms(1,5) le_trans [OF len] unfolding pool_inv_def by simp
  ultimately show ?thesis using assms(1-5,9) unfolding pool_inv_def by simp
qed

lemma extended_not_persistent:
  assumes "pool_inv s" and "(i, sExtended) \<in> set (PoolWorkers (pl s))" and "(k, sPersistent) \<in> set (PoolWorkers (pl s))"
  shows "k \<noteq> i"
  using assms unfolding pool_inv_def by (metis eq_key_imp_eq_value worker_type.distinct(1))

lemma leave_inv:
  assumes inv: "pool_inv s" and "(i, sExtended) \<in> set (PoolWorkers (pl s))" and "wpcs s i = WWait"
  shows "pool_inv (s\<lparr>pl := (pl s)\<lparr>PoolWorkers := leave_pool ndebug i (PoolWorkers (pl s))\<rparr>, wpcs := (wpcs s)(i := WGone)\<rparr>)"
proof -
  let ?ws = "leave_pool ndebug i (PoolWorkers (pl s))"
  have w: "working s \<subseteq> fst ` set (PoolWorkers (pl s))" "PoolBusyWorkers (pl s) = int (card (running s))"
    using inv by (auto simp: pool_inv_def)
  have i: "i \<notin> working s" "i \<notin> running s" using assms(3) by (auto simp: running_def working_def)
  have "(k, sPersistent) \<in> set ?ws" if "(k, sPersistent) \<in> set (PoolWorkers (pl s))" for k
    using that extended_not_persistent [OF inv assms(2) that] by (simp add: leave_pool_def)
  moreover have "working s \<subseteq> fst ` set ?ws" using w(1) i(1) by (auto simp: leave_pool_def)
  moreover have "distinct (map fst ?ws)" using inv by (simp add: pool_inv_def distinct_map_filter leave_pool_def)
  moreover have "set ?ws \<subseteq> set (PoolWorkers (pl s))" "length ?ws \<le> length (PoolWorkers (pl s))"
    by (auto simp: leave_pool_def)
  ultimately show ?thesis using i w by (intro pool_inv_fewer [OF inv]) (auto simp: running_upd working_upd)
qed

lemma pstep_inv:
  assumes "pstep ndebug s s'" and inv: "pool_inv s"
  shows "pool_inv s'"
  using assms(1)
proof cases
  case (p_enqueue t sn p')
  then have "p' = (pl s)\<lparr>PoolTasks := PoolTasks (pl s) @ [t]\<rparr>" "sn = (length (PoolWorkers (pl s)), length (PoolTasks (pl s)) + 1)"
    by (auto simp: enqueue_section_def Let_def split: if_splits)
  then show ?thesis using p_enqueue(1,3) inv unfolding pool_inv_def by simp
next
  case (p_resize nw nt)
  then show ?thesis using hire_inv [OF inv] by simp
next
  have w: "working s \<subseteq> fst ` set (PoolWorkers (pl s))" "PoolBusyWorkers (pl s) = int (card (running s))" "finite (running s)"
    using inv busy_bound(1) [of s "pl s"] by (auto simp: pool_inv_def)
  {
    case (p_take i ty t ts)
    have "i \<in> fst ` set (PoolWorkers (pl s))" using p_take(2) by force
    moreover have "i \<notin> running s" using p_take(3) by (simp add: running_def)
    ultimately show ?thesis using p_take w by (intro pool_inv_upd [OF inv]) (simp_all add: running_upd working_upd)
  next
    case (p_busy i t)
    have "i \<in> working s" "i \<notin> running s" using p_busy(2) by (auto simp: working_def running_def)
    then show ?thesis using p_busy w by (intro pool_inv_upd [OF inv]) (auto simp: running_upd working_upd)
  next
    case (p_done i t r fut)
    have "i \<in> running s" using p_done(2) by (auto simp: running_def)
    then have "int (card (running s - {i})) = int (card (running s)) - 1"
      using card_Suc_Diff1 [OF w(3), of i] by simp
    then show ?thesis using p_done w by (intro pool_inv_upd [OF inv]) (auto simp: running_upd working_upd)
  next
    case (p_leave i)
    then show ?thesis using leave_inv [OF inv p_leave(2,3)] by simp
  next
    case p_stop
    then show ?thesis using w by (intro pool_inv_upd [OF inv]) simp_all
  next
    case (p_exit i ty)
    have "i \<notin> working s" "i \<notin> running s" using p_exit(3) by (auto simp: running_def working_def)
    moreover have "running s' = running s - {i}" "working s' = working s - {i}"
      using p_exit(1) running_upd [of s i WGone "pl s"] working_upd [of s i WGone "pl s"] by simp_all
    ultimately show ?thesis using p_exit w by (intro pool_inv_upd [OF inv]) simp_all
  }
qed

lemma pool_start_inv:
  assumes "ThreadPool hw arrange a b c d = Inr p" and "PoolMaxWorkers p < 2 ^ 62"
  shows "pool_inv (pool_start p)"
proof -
  have "working (pool_start p) = {}" "running (pool_start p) = {}"
    by (simp_all add: working_def running_def pool_start_def)
  then show ?thesis using ThreadPool_created [OF assms(1)] assms(2)
    by (auto simp: pool_inv_def pool_start_def comp_def)
qed

interpretation pool_limit: inductive_invariant "pstep ndebug"
  "\<lambda>s. \<exists>hw arrange a b c d p. ThreadPool hw arrange a b c d = Inr p \<and> PoolMaxWorkers p < 2 ^ 62 \<and> s = pool_start p"
  pool_inv
  by unfold_locales (auto intro: pool_start_inv pstep_inv)

section \<open>A stopped pool\<close>

lemma pstep_stopped:
  "pstep ndebug s s' \<Longrightarrow> \<not> PoolYet (pl s) \<Longrightarrow>
     \<not> PoolYet (pl s') \<and> PoolTasks (pl s') = PoolTasks (pl s) \<and> started s' = started s"
  by (induction rule: pstep.induct) (auto simp: enqueue_section_def CheckResize_eq Hire_eq)

section \<open>Every accepted task is run once\<close>

text \<open>The tasks in the hands of the workers. A worker not hired yet counts as waiting.\<close>

fun load :: "'t wpc \<Rightarrow> 't multiset" where
  "load (WTaken t) = {#t#}"
| "load (WRun t) = {#t#}"
| "load _ = {#}"

definition in_hand :: "'t tps \<Rightarrow> 't multiset" where
  "in_hand s = (\<Sum>i < PoolIndexWorkers (pl s). load (wpcs s i))"

definition run_inv :: "'t tps \<Rightarrow> bool" where
  "run_inv s \<longleftrightarrow>
     pool_inv s \<and> (\<forall>i. PoolIndexWorkers (pl s) \<le> i \<longrightarrow> wpcs s i = WWait) \<and>
     (PoolYet (pl s) \<longrightarrow> (\<forall>i < PoolInitWorkers (pl s). wpcs s i \<noteq> WGone)) \<and>
     started s @ PoolTasks (pl s) = enqueued s \<and> mset (started s) = mset (map fst (outcomes s)) + in_hand s"

text \<open>Workers that are added wait.\<close>

lemma in_hand_hire:
  fixes n k :: nat
  assumes "\<forall>i. n \<le> i \<longrightarrow> f i = WWait"
  shows "(\<Sum>i < n + k. load (f i)) = (\<Sum>i < n. load (f i))"
  using assms by (induction k) simp_all

lemma listed_below: "pool_inv s \<Longrightarrow> (i, ty) \<in> set (PoolWorkers (pl s)) \<Longrightarrow> i < PoolIndexWorkers (pl s)"
  by (auto simp: pool_inv_def)

lemma working_below:
  assumes "pool_inv s" and "wpcs s i = WTaken t \<or> wpcs s i = WRun t"
  shows "i < PoolIndexWorkers (pl s)"
proof -
  have "i \<in> fst ` set (PoolWorkers (pl s))" using assms unfolding pool_inv_def working_def by blast
  then show ?thesis using listed_below [OF assms(1)] by force
qed

lemma persistent_listed: "pool_inv s \<Longrightarrow> k < PoolInitWorkers (pl s) \<Longrightarrow> (k, sPersistent) \<in> set (PoolWorkers (pl s))"
  by (auto simp: pool_inv_def)

lemma run_inv_upd:
  assumes "run_inv s" and "pool_inv s'" and "i < PoolIndexWorkers (pl s)" and "wpcs s' = (wpcs s)(i := x)"
    and "PoolIndexWorkers (pl s') = PoolIndexWorkers (pl s)" and "PoolInitWorkers (pl s') = PoolInitWorkers (pl s)"
    and "PoolYet (pl s') \<longrightarrow> PoolYet (pl s)" and "x = WGone \<longrightarrow> PoolYet (pl s') \<longrightarrow> PoolInitWorkers (pl s) \<le> i"
    and "started s' @ PoolTasks (pl s') = enqueued s'"
    and "mset (started s') + mset (map fst (outcomes s)) + load (wpcs s i) = mset (started s) + mset (map fst (outcomes s')) + load x"
  shows "run_inv s'"
proof -
  have h: "in_hand s' + load (wpcs s i) = in_hand s + load x"
    using sum_upd [of "{..<PoolIndexWorkers (pl s)}" i load "wpcs s" x] assms(3-5) by (simp add: in_hand_def)
  have "(mset (started s) + mset (map fst (outcomes s')) + load x) + in_hand s' =
      mset (started s') + mset (map fst (outcomes s)) + (in_hand s' + load (wpcs s i))"
    unfolding assms(10) [symmetric] by (simp add: ac_simps)
  also have "\<dots> = mset (started s') + mset (started s) + load x"
    using assms(1) unfolding h by (simp add: run_inv_def ac_simps)
  finally have "mset (started s') = mset (map fst (outcomes s')) + in_hand s'" by (simp add: ac_simps)
  then show ?thesis using assms(1-9) unfolding run_inv_def by auto
qed

lemma pstep_run:
  assumes "pstep ndebug s s'" and inv: "run_inv s"
  shows "run_inv s'"
proof -
  have pinv: "pool_inv s" and fifo: "started s @ PoolTasks (pl s) = enqueued s" using inv by (simp_all add: run_inv_def)
  have pinv': "pool_inv s'" by (rule pstep_inv [OF assms(1) pinv])
  show ?thesis using assms(1)
  proof cases
    case (p_enqueue t sn p')
    then have "p' = (pl s)\<lparr>PoolTasks := PoolTasks (pl s) @ [t]\<rparr>" by (auto simp: enqueue_section_def Let_def split: if_splits)
    with p_enqueue(1) show ?thesis using inv pinv' by (auto simp: run_inv_def in_hand_def)
  next
    case (p_resize nw nt)
    then show ?thesis using inv pinv' unfolding run_inv_def
      by (auto simp: in_hand_def CheckResize_eq Hire_eq in_hand_hire)
  next
    case (p_take i ty t ts)
    then show ?thesis using fifo by (intro run_inv_upd [where x = "WTaken t", OF inv pinv' listed_below [OF pinv p_take(2)]]) simp_all
  next
    case (p_busy i t)
    then show ?thesis using fifo by (intro run_inv_upd [where x = "WRun t", OF inv pinv' working_below [OF pinv disjI1 [OF p_busy(2)]]]) simp_all
  next
    case (p_done i t r fut)
    then show ?thesis using fifo by (intro run_inv_upd [where x = WWait, OF inv pinv' working_below [OF pinv disjI2 [OF p_done(2)]]]) simp_all
  next
    case (p_leave i)
    have "PoolInitWorkers (pl s) \<le> i"
      using extended_not_persistent [OF pinv p_leave(2)] persistent_listed [OF pinv] by (metis not_le)
    then show ?thesis using p_leave fifo by (intro run_inv_upd [where x = WGone, OF inv pinv' listed_below [OF pinv p_leave(2)]]) simp_all
  next
    case p_stop
    then show ?thesis using inv pinv' by (auto simp: run_inv_def in_hand_def)
  next
    case (p_exit i ty)
    then show ?thesis using fifo by (intro run_inv_upd [where x = WGone, OF inv pinv' listed_below [OF pinv p_exit(2)]]) simp_all
  qed
qed

lemma pool_start_run:
  assumes "ThreadPool hw arrange a b c d = Inr p" and "PoolMaxWorkers p < 2 ^ 62"
  shows "run_inv (pool_start p)"
  using pool_start_inv [OF assms] ThreadPool_created [OF assms(1)] by (simp add: run_inv_def pool_start_def in_hand_def)

interpretation pool_run: inductive_invariant "pstep ndebug"
  "\<lambda>s. \<exists>hw arrange a b c d p. ThreadPool hw arrange a b c d = Inr p \<and> PoolMaxWorkers p < 2 ^ 62 \<and> s = pool_start p"
  run_inv
  by unfold_locales (auto intro: pool_start_run pstep_run)

section \<open>Progress\<close>

text \<open>The steps of the workers while nothing is enqueued and the pool is not stopped.\<close>

definition work_step :: "bool \<Rightarrow> 't tps \<Rightarrow> 't tps \<Rightarrow> bool" where
  "work_step ndebug s s' \<longleftrightarrow>
     pstep ndebug s s' \<and> enqueued s' = enqueued s \<and> snap s' = snap s \<and> PoolYet (pl s) \<and> PoolYet (pl s')"

fun weight :: "'t wpc \<Rightarrow> nat" where
  "weight WGone = 0"
| "weight WWait = 1"
| "weight (WRun t) = 2"
| "weight (WTaken t) = 3"

definition work_left :: "'t tps \<Rightarrow> nat" where
  "work_left s = 3 * length (PoolTasks (pl s)) + (\<Sum>i < PoolIndexWorkers (pl s). weight (wpcs s i))"

lemma work_left_upd:
  assumes "i < PoolIndexWorkers (pl s)" and "wpcs s' = (wpcs s)(i := x)" and "PoolIndexWorkers (pl s') = PoolIndexWorkers (pl s)"
    and "3 * length (PoolTasks (pl s')) + weight x < 3 * length (PoolTasks (pl s)) + weight (wpcs s i)"
  shows "work_left s' < work_left s"
  using sum_upd [of "{..<PoolIndexWorkers (pl s)}" i weight "wpcs s" x] assms by (simp add: work_left_def)

lemma work_step_less:
  assumes "work_step ndebug s s'" and inv: "run_inv s"
  shows "work_left s' < work_left s"
proof -
  have pinv: "pool_inv s" using inv by (simp add: run_inv_def)
  have step: "pstep ndebug s s'" and same: "enqueued s' = enqueued s" "snap s' = snap s" "PoolYet (pl s)" "PoolYet (pl s')"
    using assms(1) by (simp_all add: work_step_def)
  show ?thesis using step
  proof cases
    case (p_take i ty t ts)
    then show ?thesis by (intro work_left_upd [OF listed_below [OF pinv p_take(2)], where x = "WTaken t"]) simp_all
  next
    case (p_busy i t)
    then show ?thesis by (intro work_left_upd [OF working_below [OF pinv disjI1 [OF p_busy(2)]], where x = "WRun t"]) simp_all
  next
    case (p_done i t r fut)
    then show ?thesis by (intro work_left_upd [OF working_below [OF pinv disjI2 [OF p_done(2)]], where x = WWait]) simp_all
  next
    case (p_leave i)
    then show ?thesis by (intro work_left_upd [OF listed_below [OF pinv p_leave(2)], where x = WGone]) simp_all
  qed (use same in auto)
qed

lemma work_step_possible:
  assumes inv: "run_inv s" and yet: "PoolYet (pl s)" and stuck: "\<forall>s'. \<not> work_step ndebug s s'"
  shows "PoolTasks (pl s) = [] \<and> working s = {}"
proof -
  have no: "\<not> pstep ndebug s s'" if "enqueued s' = enqueued s" "snap s' = snap s" "PoolYet (pl s')" for s'
    using stuck that yet by (auto simp: work_step_def)
  have taken: "wpcs s i \<noteq> WTaken t" for i t
  proof
    assume t: "wpcs s i = WTaken t"
    from no [OF _ _ _] p_busy [OF t, of ndebug] yet show False by simp
  qed
  have run: "wpcs s i \<noteq> WRun t" for i t
    using p_done [of s i t "Inr ()" "Inr ()" ndebug] no yet by (fastforce simp: packaged_def)
  have "0 < PoolInitWorkers (pl s)" using inv by (simp add: run_inv_def pool_inv_def)
  then have w0: "(0, sPersistent) \<in> set (PoolWorkers (pl s))" "wpcs s 0 \<noteq> WGone"
    using inv yet persistent_listed [of s 0] by (auto simp: run_inv_def)
  then have "wpcs s 0 = WWait" using taken run by (cases "wpcs s 0") auto
  then have "PoolTasks (pl s) = []"
    using p_take [OF w0(1) _ yet, of _ _ ndebug] no yet by (cases "PoolTasks (pl s)") fastforce+
  then show ?thesis using taken run by (simp add: working_def)
qed

lemma idle_in_hand: "working s = {} \<Longrightarrow> in_hand s = {#}"
proof -
  assume w: "working s = {}"
  have "load (wpcs s i) = {#}" for i using w by (cases "wpcs s i") (auto simp: working_def)
  then show ?thesis by (simp add: in_hand_def)
qed

text \<open>
  What the workers do ends, however they are scheduled, and it ends with every accepted task run exactly once.
\<close>

definition all_done :: "'t list \<Rightarrow> 't tps \<Rightarrow> bool" where
  "all_done ts s \<longleftrightarrow> PoolTasks (pl s) = [] \<and> working s = {} \<and> started s = ts \<and> mset (map fst (outcomes s)) = mset ts"

interpretation pool_work: ranked_progress "work_step ndebug" "\<lambda>s. run_inv s \<and> PoolYet (pl s) \<and> enqueued s = ts"
  "\<lambda>s. run_inv s \<and> PoolYet (pl s) \<and> enqueued s = ts" work_left "all_done ts" for ndebug ts
proof
  fix s s' :: "'a tps"
  assume "run_inv s \<and> PoolYet (pl s) \<and> enqueued s = ts" and w: "work_step ndebug s s'"
  then show "run_inv s' \<and> PoolYet (pl s') \<and> enqueued s' = ts" "work_left s' < work_left s"
    using pstep_run [of ndebug s s'] work_step_less [OF w] by (auto simp: work_step_def)
next
  fix s :: "'a tps"
  assume ok: "run_inv s \<and> PoolYet (pl s) \<and> enqueued s = ts" and stuck: "\<forall>s'. \<not> work_step ndebug s s'"
  then have d: "PoolTasks (pl s) = []" "working s = {}" using work_step_possible by blast+
  then have "started s = ts" "mset (started s) = mset (map fst (outcomes s))"
    using ok idle_in_hand [OF d(2)] by (auto simp: run_inv_def)
  then show "all_done ts s" using d by (simp add: all_done_def)
qed simp

section \<open>Workers that leave\<close>

text \<open>
  In a debug build every worker in the map is alive while the pool runs. In a release build a worker that left stays
  in the map, and once the map is full no worker is ever hired again.
\<close>

definition listed_alive :: "'t tps \<Rightarrow> bool" where
  "listed_alive s \<longleftrightarrow> (PoolYet (pl s) \<longrightarrow> (\<forall>w \<in> set (PoolWorkers (pl s)). wpcs s (fst w) \<noteq> WGone))"

lemma pstep_listed_alive:
  assumes "pstep False s s'" and "listed_alive s" and "run_inv s"
  shows "listed_alive s'"
  using assms(1)
proof cases
  case (p_enqueue t sn p')
  then show ?thesis using assms(2) by (auto simp: listed_alive_def enqueue_section_def Let_def split: if_splits)
next
  case (p_resize nw nt)
  then show ?thesis using assms(2,3) by (auto simp: listed_alive_def CheckResize_eq Hire_eq run_inv_def)
next
  case (p_leave i)
  then show ?thesis using assms(2) by (auto simp: listed_alive_def leave_pool_def)
qed (use assms(2) in \<open>auto simp: listed_alive_def\<close>)

interpretation debug_pool: inductive_invariant "pstep False"
  "\<lambda>s. \<exists>hw arrange a b c d p. ThreadPool hw arrange a b c d = Inr p \<and> PoolMaxWorkers p < 2 ^ 62 \<and> s = pool_start p"
  "\<lambda>s. run_inv s \<and> listed_alive s"
proof
  fix s s' :: "'a tps"
  assume "run_inv s \<and> listed_alive s" and "pstep False s s'"
  then show "run_inv s' \<and> listed_alive s'" using pstep_run pstep_listed_alive by blast
next
  fix s :: "'a tps"
  assume "\<exists>hw arrange a b c d p. ThreadPool hw arrange a b c d = Inr p \<and> PoolMaxWorkers p < 2 ^ 62 \<and> s = pool_start p"
  then show "run_inv s \<and> listed_alive s" using pool_start_run by (fastforce simp: listed_alive_def wpcs_pool_start)
qed

lemma full_pool_hires_none:
  assumes "pool_inv s" and "snap s = Some (nw, nt)" and "length (PoolWorkers (pl s)) = PoolMaxWorkers (pl s)"
  shows "CheckResize nw nt (pl s) = pl s"
proof -
  let ?p = "pl s"
  have b: "PoolBusyWorkers ?p = int (card (running s))" "working s \<subseteq> fst ` set (PoolWorkers ?p)" "nw = PoolMaxWorkers ?p" "nt < 2 ^ 62"
    "0 < PoolInitWorkers ?p" "PoolInitWorkers ?p \<le> PoolMaxWorkers ?p" "PoolMaxWorkers ?p < 2 ^ 62"
    using assms by (auto simp: pool_inv_def)
  have "card (running s) \<le> nw" using busy_bound(2) [OF b(2)] assms(3) b(3) by simp
  then have "nw + NewWorkerCount (PoolInitWorkers ?p) (PoolMaxWorkers ?p) (PoolBusyWorkers ?p) nw nt \<le> PoolMaxWorkers ?p"
    using NewWorkerCount_bounds(1) [OF b(5,6,7,4), of nw "PoolBusyWorkers ?p"] b(1,3) by simp
  then show ?thesis using b(3) by (simp add: CheckResize_eq)
qed

lemma release_pool_frozen:
  assumes "reach (pstep True) s s'" and "pool_inv s" and "length (PoolWorkers (pl s)) = PoolMaxWorkers (pl s)"
  shows "PoolWorkers (pl s') = PoolWorkers (pl s) \<and> {i. wpcs s i = WGone} \<subseteq> {i. wpcs s' i = WGone} \<and>
    pool_inv s' \<and> PoolMaxWorkers (pl s') = PoolMaxWorkers (pl s)"
  using assms(1)
proof (induction rule: reach.induct)
  case reach_init
  then show ?case using assms(2) by simp
next
  case (reach_step s1 s2)
  then have inv: "pool_inv s1" and full: "length (PoolWorkers (pl s1)) = PoolMaxWorkers (pl s1)" using assms(3) by auto
  have "PoolWorkers (pl s2) = PoolWorkers (pl s1) \<and> {i. wpcs s1 i = WGone} \<subseteq> {i. wpcs s2 i = WGone} \<and>
      PoolMaxWorkers (pl s2) = PoolMaxWorkers (pl s1)"
    using reach_step.hyps(2) full_pool_hires_none [OF inv _ full]
    by cases (auto simp: leave_pool_def enqueue_section_def Let_def split: if_splits)
  with reach_step pstep_inv [OF reach_step.hyps(2) inv] show ?case by auto
qed

end
