(* ===== verification/Fiber_PoolJoin.thy ===== *)
theory Fiber_PoolJoin
  imports Fiber_PoolThreads
begin

text \<open>
  The end and the beginning of a worker of kernel/mt/threadpool.cpp: \<open>Join\<close>, which \<open>~ThreadPool\<close> calls, waits for
  every worker; and what a worker does first, giving its thread a name and binding it to a core.
\<close>

section \<open>\<open>Join\<close> returns\<close>

text \<open>The steps of the workers of a stopped pool, while its owner waits in \<open>Join\<close> and enqueues nothing.\<close>

definition stop_step :: "bool \<Rightarrow> 't tps \<Rightarrow> 't tps \<Rightarrow> bool" where
  "stop_step ndebug s s' \<longleftrightarrow> pstep ndebug s s' \<and> \<not> PoolYet (pl s) \<and> snap s' = snap s \<and> s' \<noteq> s"

text \<open>What \<open>Join\<close> waits for: the thread of every worker in the map has ended.\<close>

definition all_joined :: "'t tps \<Rightarrow> bool" where
  "all_joined s \<longleftrightarrow> (\<forall>w \<in> set (PoolWorkers (pl s)). wpcs s (fst w) = WGone)"

definition pool_stopping :: "'t list \<Rightarrow> 't list \<Rightarrow> 't tps \<Rightarrow> bool" where
  "pool_stopping ts rest s \<longleftrightarrow> run_inv s \<and> \<not> PoolYet (pl s) \<and> snap s = None \<and> started s = ts \<and> PoolTasks (pl s) = rest"

lemma stop_step_less:
  assumes "stop_step ndebug s s'" and inv: "run_inv s"
  shows "work_left s' < work_left s"
proof -
  have pinv: "pool_inv s" using inv by (simp add: run_inv_def)
  have step: "pstep ndebug s s'" and stop: "\<not> PoolYet (pl s)" "snap s' = snap s" "s' \<noteq> s"
    using assms(1) by (simp_all add: stop_step_def)
  show ?thesis using step
  proof cases
    case (p_busy i t)
    then show ?thesis by (intro work_left_upd [OF working_below [OF pinv disjI1 [OF p_busy(2)]], where x = "WRun t"]) simp_all
  next
    case (p_done i t r fut)
    then show ?thesis by (intro work_left_upd [OF working_below [OF pinv disjI2 [OF p_done(2)]], where x = WWait]) simp_all
  next
    case (p_exit i ty)
    then show ?thesis by (intro work_left_upd [OF listed_below [OF pinv p_exit(2)], where x = WGone]) simp_all
  qed (use stop in \<open>auto simp: enqueue_section_def split: if_splits\<close>)
qed

lemma stop_step_possible:
  assumes "\<not> PoolYet (pl s)" and stuck: "\<forall>s'. \<not> stop_step ndebug s s'"
  shows "all_joined s \<and> working s = {}"
proof -
  have no: "\<not> pstep ndebug s s'" if "snap s' = snap s" "wpcs s' \<noteq> wpcs s" for s'
    using stuck assms(1) that by (auto simp: stop_step_def)
  have upd: "(wpcs s)(i := x) \<noteq> wpcs s" if "wpcs s i \<noteq> x" for i x using that by (metis fun_upd_same)
  have taken: "wpcs s i \<noteq> WTaken t" for i t
  proof
    assume t: "wpcs s i = WTaken t"
    show False using no [OF _ _] p_busy [OF t, of ndebug] upd [of i "WRun t"] t by simp
  qed
  have run: "wpcs s i \<noteq> WRun t" for i t
  proof
    assume t: "wpcs s i = WRun t"
    have "packaged (Inr ()) = Inr (Inr ())" by (simp add: packaged_def)
    then show False using no [OF _ _] p_done [OF t, of "Inr ()" "Inr ()" ndebug] upd [of i WWait] t by simp
  qed
  have "wpcs s (fst w) = WGone" if "w \<in> set (PoolWorkers (pl s))" for w
  proof (rule ccontr)
    assume "wpcs s (fst w) \<noteq> WGone"
    then have "wpcs s (fst w) = WWait" using taken run by (cases "wpcs s (fst w)") auto
    then show False using no [OF _ _] p_exit [of "fst w" "snd w" s ndebug] that assms(1) upd [of "fst w" WGone] by simp
  qed
  then show ?thesis using taken run by (simp add: all_joined_def working_def)
qed

interpretation pool_join: ranked_progress "stop_step ndebug" "pool_stopping ts rest" "pool_stopping ts rest" work_left
  "\<lambda>s. all_joined s \<and> PoolTasks (pl s) = rest \<and> started s = ts \<and> mset (map fst (outcomes s)) = mset ts" for ndebug ts rest
proof
  fix s s' :: "'a tps"
  assume s: "pool_stopping ts rest s" and w: "stop_step ndebug s s'"
  then show "pool_stopping ts rest s'"
    using pstep_run [of ndebug s s'] pstep_stopped [of ndebug s s'] by (auto simp: pool_stopping_def stop_step_def)
  show "work_left s' < work_left s" using stop_step_less [OF w] s by (simp add: pool_stopping_def)
next
  fix s :: "'a tps"
  assume s: "pool_stopping ts rest s" and "\<forall>s'. \<not> stop_step ndebug s s'"
  then have j: "all_joined s" "working s = {}" using stop_step_possible by (auto simp: pool_stopping_def)
  then show "all_joined s \<and> PoolTasks (pl s) = rest \<and> started s = ts \<and> mset (map fst (outcomes s)) = mset ts"
    using s idle_in_hand [OF j(2)] by (auto simp: pool_stopping_def run_inv_def)
qed

lemma Join_returns:
  assumes "run_inv s" and "snap s = None"
  shows "inevitable (stop_step ndebug)
    (\<lambda>s'. all_joined s' \<and> PoolTasks (pl s') = PoolTasks (pl s) \<and> started s' = started s \<and> mset (map fst (outcomes s')) = mset (started s))
    (s\<lparr>pl := Join (pl s)\<rparr>)"
proof (rule pool_join.start_inevitable)
  have "pstep ndebug s (s\<lparr>pl := (pl s)\<lparr>PoolYet := False\<rparr>\<rparr>)" by (rule p_stop)
  then have "run_inv (s\<lparr>pl := (pl s)\<lparr>PoolYet := False\<rparr>\<rparr>)" using assms(1) by (rule pstep_run)
  then show "pool_stopping (started s) (PoolTasks (pl s)) (s\<lparr>pl := Join (pl s)\<rparr>)"
    using assms by (auto simp: pool_stopping_def Join_def)
qed

section \<open>Names and cores\<close>

text \<open>
  \<open>pthread_setname_np\<close> takes names of at most fifteen characters and leaves the name alone otherwise; \<open>CPU_SET\<close> sets
  nothing beyond the 1024 processors of a \<open>cpu_set_t\<close>.
\<close>

definition set_thread_name :: "string \<Rightarrow> string \<Rightarrow> string" where
  "set_thread_name name old = (if length name \<le> 15 then name else old)"

definition set_thread_affinity :: "nat \<Rightarrow> nat set" where
  "set_thread_affinity cpu_id = (if cpu_id < 1024 then {cpu_id} else {})"

lemma binding_kept: "pstep ndebug s s' \<Longrightarrow> PoolWorkersBinding (pl s') = PoolWorkersBinding (pl s)"
  by (induction rule: pstep.induct) (auto simp: enqueue_section_def CheckResize_eq Hire_eq Let_def split: if_splits)

interpretation binding: inductive_invariant "pstep ndebug" "\<lambda>s. s = pool_start p" "\<lambda>s. PoolWorkersBinding (pl s) = PoolWorkersBinding p" for ndebug p
  by unfold_locales (simp_all add: pool_start_def binding_kept)

lemma ThreadPool_cores:
  assumes "ThreadPool hw arrange a b c x = Inr p" and "\<And>S. finite S \<Longrightarrow> set (arrange S) = S" and "n \<in> set (PoolWorkersBinding p)"
  shows "n < hw \<and> (\<exists>ex. expand x = Inr ex \<and> word_of_nat n \<notin> ex)"
proof -
  obtain ws ex cores where e: "expand c = Inr ws" "expand x = Inr ex" "uniqCores hw ws ex = Inr cores" "PoolWorkersBinding p = arrange cores"
    using assms(1) by (auto simp: ThreadPool_def Hire_eq split: sum.splits if_splits)
  have "finite cores"
    using uniqCores_bounds [OF e(3)] by (intro finite_subset [of cores "{..<hw}"]) auto
  then have "n \<in> cores" using assms(2,3) e(4) by simp
  then show ?thesis using uniqCores_bounds [OF e(3)] e(2) by auto
qed

lemma worker_core_allowed:
  assumes "ThreadPool hw arrange a b c x = Inr p" and "\<And>S. finite S \<Longrightarrow> set (arrange S) = S" and "hw \<le> 1024"
    and "reach (pstep ndebug) (pool_start p) s"
  shows "\<exists>core. set_thread_affinity (worker_core (pl s) i) = {core} \<and> core < hw \<and> (\<exists>ex. expand x = Inr ex \<and> word_of_nat core \<notin> ex)"
proof -
  have b: "PoolWorkersBinding (pl s) = PoolWorkersBinding p" using assms(4) by (rule binding.reachable_ok) simp
  have "PoolWorkersBinding p \<noteq> []" using ThreadPool_created [OF assms(1)] by simp
  then have "worker_core (pl s) i \<in> set (PoolWorkersBinding p)" by (simp add: worker_core_def b)
  from ThreadPool_cores [OF assms(1,2) this] assms(3) show ?thesis by (auto simp: set_thread_affinity_def)
qed

end
