(* ===== verification/Fiber_Config.thy ===== *)
theory Fiber_Config
  imports Fiber_Regex Fiber_Stdmap
begin

text \<open>
  kernel/main/config.cpp and kernel/main/impl/cfgimpl.h: the configuration file, sections nested by the
  number of brackets with properties in them, and \<open>ConfigImpl\<close>, the view of it from one section.

  The file is the list of its lines, with \<open>eol\<close> saying whether the last one ends in a line feed.
\<close>

section \<open>Expressions\<close>

definition re_config_section :: re where
  "re_config_section =
     Seqs [Bol, Spaces, Cap 1 (Plus (Chr (\<lambda>c. c = CHR ''[''))), Spaces, Cap 2 (Star False (Chr is_dot)), Spaces,
           Plus (Chr (\<lambda>c. c = CHR '']''))]"

definition re_config_propety :: re where
  "re_config_propety =
     Seqs [Bol, Spaces, Cap 1 (Plus (Chr (\<lambda>c. is_word c \<or> c = CHR ''-'' \<or> c = CHR '':''))), Spaces, Lit ''='', Spaces,
           Cap 2 (Alt (Lit [CHR 0x22]) (Alt (Lit [CHR 0x27]) Eps)), Cap 3 (Star False (Chr is_dot)), Back 2, Spaces, Eol]"

definition re_config_line_break_clean :: re where
  "re_config_line_break_clean =
     Seqs [Bol, Spaces, Cap 1 (Star False (Chr is_dot)), Lit [CHR 0x5C], Spaces, Eol]"

definition re_config_space_clean :: re where
  "re_config_space_clean = Seqs [Bol, Spaces, Cap 1 (Star False (Chr is_dot)), Spaces, Eol]"

definition re_config_remove_comment :: re where
  "re_config_remove_comment = Seqs [Spaces, Lit ''#'', Star True (Chr (\<lambda>c. c \<noteq> CHR ''#'')), Eol]"

definition remove_comment :: "string \<Rightarrow> string" where
  "remove_comment s = regex_replace_end re_config_remove_comment None s"

section \<open>Reading the file\<close>

type_synonym section_data = "string list \<times> (string \<times> string) list"
type_synonym config_map = "(string \<times> section_data) list"

fun join_dots :: "string list \<Rightarrow> string" where
  "join_dots [] = []"
| "join_dots [p] = p"
| "join_dots (p # ps) = p @ ''.'' @ join_dots ps"

definition implode_config_path :: "string list \<Rightarrow> string \<Rightarrow> string" where
  "implode_config_path path valname =
     (if path \<noteq> [] then join_dots path @ (if valname \<noteq> [] then ''.'' @ valname else [])
      else valname)"

definition config_emplace :: "config_map \<Rightarrow> string \<Rightarrow> config_map" where
  "config_emplace m k = fst (umap_emplace (\<lambda>k. k) (=) m k ([], []))"

definition config_update :: "config_map \<Rightarrow> string \<Rightarrow> (section_data \<Rightarrow> section_data) \<Rightarrow> config_map" where
  "config_update m k f = map (\<lambda>e. if fst e = k then (k, f (snd e)) else e) m"

text \<open>
  The path a new section is put under, in the three cases of the code. A section has at least one
  bracket, so the loop that leaves the inner sections stops before the path is empty.
\<close>

function pop_levels :: "nat \<Rightarrow> string list \<Rightarrow> string list" where
  "pop_levels clvl path =
     (let path' = butlast path in if clvl \<le> length path' \<and> path' \<noteq> [] then pop_levels clvl path' else path')"
  by pat_completeness auto
termination
proof (relation "measure (\<lambda>(clvl, path). length path)", simp, goal_cases)
  case (1 clvl path path')
  then show ?case by (cases path) auto
qed

declare pop_levels.simps [simp del]

definition section_parent :: "nat \<Rightarrow> string list \<Rightarrow> string list" where
  "section_parent clvl path =
     (if clvl = length path then butlast path
      else if clvl < length path then pop_levels clvl path
      else path)"

definition enter_section :: "nat \<Rightarrow> string \<Rightarrow> string list \<times> config_map \<Rightarrow> string list \<times> config_map" where
  "enter_section clvl name st =
     (let path = section_parent clvl (fst st);
          node = remove_comment name;
          m = config_emplace (snd st) (implode_config_path path node);
          m = config_emplace m (implode_config_path path []);
          m = config_update m (implode_config_path path []) (\<lambda>(subs, props). (subs @ [node], props))
      in (path @ [node], m))"

text \<open>A property outside every known section is written through \<open>config.end()\<close>.\<close>

definition set_property :: "string \<Rightarrow> string \<Rightarrow> string list \<times> config_map \<Rightarrow> exn + string list \<times> config_map" where
  "set_property name val st =
     (let k = implode_config_path (fst st) [] in
      case map_of (snd st) k of
        None \<Rightarrow> Inl UndefinedBehaviour
      | Some _ \<Rightarrow>
          Inr (fst st, config_update (snd st) k
                 (\<lambda>(subs, props). (subs, fst (umap_emplace (\<lambda>k. k) (=) props name (remove_comment val))))))"

definition config_line :: "string \<Rightarrow> string list \<times> config_map \<Rightarrow> exn + string list \<times> config_map" where
  "config_line content st =
     (case regex_search re_config_section content of
        Some (b, e, c) \<Rightarrow> Inr (enter_section (length (cap_text content c 1)) (cap_text content c 2) st)
      | None \<Rightarrow>
          (case regex_search re_config_propety content of
             Some (b, e, c) \<Rightarrow> set_property (cap_text content c 1) (cap_text content c 3) st
           | None \<Rightarrow> Inr st))"

text \<open>
  The continuation of a line that ends in a backslash: the rest of the lines, and the text. At the
  end of the file \<open>getline\<close> clears \<open>linebreak\<close>, unless the last line had no line feed: then it is
  left as it was.
\<close>

fun continue_line :: "bool \<Rightarrow> string list \<Rightarrow> string \<Rightarrow> string \<Rightarrow> string \<times> string list" where
  "continue_line eol [] linebreak content =
     (content @ regex_replace_end re_config_space_clean (Some 1) (if eol then [] else linebreak), [])"
| "continue_line eol (l # ls) linebreak content =
     (case regex_search re_config_line_break_clean l of
        Some (b, e, c) \<Rightarrow> continue_line eol ls l (content @ remove_comment (cap_text l c 1))
      | None \<Rightarrow> (content @ regex_replace_end re_config_space_clean (Some 1) l, ls))"

lemma continue_line_shrinks: "length (snd (continue_line eol ls lb c)) \<le> length ls"
  by (induction eol ls lb c rule: continue_line.induct) (auto split: option.split intro: le_SucI)

function config_lines :: "bool \<Rightarrow> string list \<Rightarrow> string list \<times> config_map \<Rightarrow> exn + string list \<times> config_map" where
  "config_lines eol [] st = Inr st"
| "config_lines eol (l # ls) st =
     (let (content, rest) =
            (case regex_search re_config_line_break_clean l of
               Some (b, e, c) \<Rightarrow> continue_line eol ls [] (cap_text l c 1)
             | None \<Rightarrow> (l, ls))
      in case config_line content st of Inl x \<Rightarrow> Inl x | Inr st \<Rightarrow> config_lines eol rest st)"
  by pat_completeness auto
termination
proof (relation "measure (\<lambda>(eol, ls, st). length ls)", simp, goal_cases)
  case (1 eol l ls st x content rest st')
  then show ?case using continue_line_shrinks [of eol ls "[]"]
    by (auto split: option.splits simp: less_Suc_eq_le) (metis snd_conv)+
qed

definition initConfig :: "(bool \<times> string list) option \<Rightarrow> exn + config_map" where
  "initConfig cfgfile =
     (case cfgfile of
        None \<Rightarrow> Inl StdSystemError
      | Some (eol, ls) \<Rightarrow> (case config_lines eol ls ([], []) of Inl x \<Rightarrow> Inl x | Inr (path, m) \<Rightarrow> Inr m))"

section \<open>\<open>ConfigImpl\<close>\<close>

record config_impl =
  configValues :: config_map
  space :: string
  progDir :: string
  progWorkDir :: string
  progName :: string

definition GetSections :: "config_impl \<Rightarrow> string list" where
  "GetSections c = (case map_of (configValues c) (space c) of Some d \<Rightarrow> fst d | None \<Rightarrow> [])"

definition config_at :: "config_impl \<Rightarrow> string \<Rightarrow> config_impl" where
  "config_at c ns = c\<lparr>space := if space c = [] then ns else space c @ ''.'' @ ns\<rparr>"

definition config_exists :: "config_impl \<Rightarrow> bool" where
  "config_exists c \<longleftrightarrow> map_of (configValues c) (space c) \<noteq> None"

text \<open>The text before and behind the last dot (\<open>rfind('.')\<close>).\<close>

definition last_dot :: "string \<Rightarrow> (string \<times> string) option" where
  "last_dot s =
     (case dropWhile (\<lambda>c. c \<noteq> CHR ''.'') (rev s) of
        [] \<Rightarrow> None
      | _ # r \<Rightarrow> Some (rev r, rev (takeWhile (\<lambda>c. c \<noteq> CHR ''.'') (rev s))))"

definition GetConfigValue :: "config_impl \<Rightarrow> string \<Rightarrow> string \<Rightarrow> string" where
  "GetConfigValue c propname propdefault =
     (let (path, val) =
            (case last_dot propname of
               Some (pre, post) \<Rightarrow> ((if space c \<noteq> [] then space c @ ''.'' else []) @ pre, post)
             | None \<Rightarrow> (space c, propname))
      in case map_of (configValues c) path of
           Some d \<Rightarrow> (case map_of (snd d) val of Some v \<Rightarrow> v | None \<Rightarrow> propdefault)
         | None \<Rightarrow> propdefault)"

text \<open>\<open>ConfigImpl::QueryInterface\<close> refuses every interface.\<close>

definition ConfigImpl_QueryInterface :: bool where
  "ConfigImpl_QueryInterface = False"

section \<open>Sections\<close>

lemma pop_levels_take:
  "0 < clvl \<Longrightarrow> clvl < length path \<Longrightarrow> pop_levels clvl path = take (clvl - 1) path"
proof (induction clvl path rule: pop_levels.induct)
  case (1 clvl path)
  show ?case
  proof (cases "clvl \<le> length (butlast path)")
    case True
    then have ne: "butlast path \<noteq> []" using 1(2) by (metis le_zero_eq length_0_conv less_irrefl)
    show ?thesis
    proof (cases "clvl < length (butlast path)")
      case True
      then have "pop_levels clvl path = take (clvl - 1) (butlast path)"
        using "1.IH" [OF refl] ne 1(2) \<open>clvl \<le> _\<close> by (subst pop_levels.simps) simp
      then show ?thesis using True by (simp add: butlast_conv_take)
    next
      case False
      then have l: "clvl = length (butlast path)" using True by simp
      have "\<not> clvl \<le> length (butlast (butlast path))"
        using l ne by (simp only: length_butlast [of "butlast path"] length_greater_0_conv [symmetric])
      then have "pop_levels clvl (butlast path) = butlast (butlast path)"
        by (subst pop_levels.simps) (simp only: Let_def simp_thms if_False)
      then show ?thesis using l ne True by (subst pop_levels.simps) (simp add: butlast_conv_take)
    qed
  next
    case False
    then show ?thesis using 1(3) by (subst pop_levels.simps) (simp add: butlast_conv_take Let_def)
  qed
qed

text \<open>In all three cases, a section of level \<open>n\<close> is put under the first \<open>n - 1\<close> sections of the path.\<close>

lemma section_parent_take: "0 < clvl \<Longrightarrow> section_parent clvl path = take (clvl - 1) path"
  by (auto simp: section_parent_def pop_levels_take butlast_conv_take)

lemma join_dots_snoc: "path \<noteq> [] \<Longrightarrow> join_dots (path @ [p]) = join_dots path @ ''.'' @ p"
  by (induction path rule: join_dots.induct) auto

lemma implode_config_path_node: "node \<noteq> [] \<Longrightarrow> implode_config_path path node = implode_config_path (path @ [node]) []"
  by (simp add: implode_config_path_def join_dots_snoc)

lemma map_of_config_emplace:
  "map_of (config_emplace m k) x = (if x = k \<and> map_of m k = None then Some ([], []) else map_of m x)"
  by (auto simp: config_emplace_def umap_emplace_def umap_find_plain map_add_def split: option.split)

lemma map_of_config_update: "map_of (config_update m k f) x = (if x = k then map_option f (map_of m k) else map_of m x)"
  by (induction m) (auto simp: config_update_def)

text \<open>The current section is known: a property in it has a place.\<close>

definition config_inv :: "string list \<times> config_map \<Rightarrow> bool" where
  "config_inv st \<longleftrightarrow> fst st \<noteq> [] \<longrightarrow> map_of (snd st) (implode_config_path (fst st) []) \<noteq> None"

lemma enter_section_inv: "remove_comment name \<noteq> [] \<Longrightarrow> config_inv (enter_section clvl name st)"
  by (auto simp: enter_section_def config_inv_def Let_def map_of_config_update map_of_config_emplace implode_config_path_node)

lemma set_property_inv: "set_property name val st = Inr st' \<Longrightarrow> config_inv st \<Longrightarrow> config_inv st'"
  by (auto simp: set_property_def config_inv_def Let_def map_of_config_update split: option.splits)

lemma set_property_lookup:
  assumes "set_property name val st = Inr st'"
  shows "\<exists>subs props. map_of (snd st') (implode_config_path (fst st) []) = Some (subs, props) \<and>
    map_of props name =
      (case Option.bind (map_of (snd st) (implode_config_path (fst st) [])) (\<lambda>d. map_of (snd d) name) of
         Some v \<Rightarrow> Some v | None \<Rightarrow> Some (remove_comment val))"
  using assms
  by (auto simp: set_property_def Let_def map_of_config_update umap_emplace_def umap_find_plain map_add_def
      split: option.splits)

section \<open>Lookup\<close>

lemma last_dot_None: "CHR ''.'' \<notin> set s \<Longrightarrow> last_dot s = None"
proof -
  assume "CHR ''.'' \<notin> set s"
  then have "dropWhile (\<lambda>c. c \<noteq> CHR ''.'') (rev s) = []" by (simp only: dropWhile_eq_Nil_conv) auto
  then show ?thesis unfolding last_dot_def by (simp only: list.case)
qed

lemma last_dot_Some: "CHR ''.'' \<notin> set q \<Longrightarrow> last_dot (p @ CHR ''.'' # q) = Some (p, q)"
proof -
  assume q: "CHR ''.'' \<notin> set q"
  then have all: "\<forall>c \<in> set (rev q). c \<noteq> CHR ''.''" by auto
  have "dropWhile (\<lambda>c. c \<noteq> CHR ''.'') (rev q @ CHR ''.'' # rev p) = CHR ''.'' # rev p"
    using all by (subst dropWhile_append2) auto
  moreover have "takeWhile (\<lambda>c. c \<noteq> CHR ''.'') (rev q @ CHR ''.'' # rev p) = rev q"
    using all by (subst takeWhile_append2) auto
  ultimately show ?thesis by (simp add: last_dot_def)
qed

text \<open>Stepping into a section and naming it in the property are the same.\<close>

lemma GetConfigValue_nested:
  assumes "CHR ''.'' \<notin> set prop" and "ns \<noteq> []"
  shows "GetConfigValue (config_at c ns) prop d = GetConfigValue c (ns @ ''.'' @ prop) d"
  using assms by (simp add: GetConfigValue_def config_at_def last_dot_None last_dot_Some)

section \<open>Lines of the file\<close>

definition config_char :: "byte \<Rightarrow> bool" where
  "config_char c \<longleftrightarrow> is_dot c \<and> c \<noteq> CHR ''['' \<and> c \<noteq> CHR '']'' \<and> c \<noteq> CHR ''#'' \<and> c \<noteq> CHR 0x5C"

definition section_name :: "string \<Rightarrow> bool" where
  "section_name s \<longleftrightarrow> s \<noteq> [] \<and> (\<forall>c \<in> set s. config_char c \<and> \<not> isspace c \<and> c \<noteq> CHR ''.'')"

definition property_name :: "string \<Rightarrow> bool" where
  "property_name s \<longleftrightarrow> s \<noteq> [] \<and> (\<forall>c \<in> set s. is_word c \<or> c = CHR ''-'' \<or> c = CHR '':'')"

definition property_value :: "string \<Rightarrow> bool" where
  "property_value s \<longleftrightarrow> s \<noteq> [] \<and> (\<forall>c \<in> set s. config_char c) \<and> \<not> isspace (hd s) \<and> \<not> isspace (last s) \<and>
     hd s \<noteq> CHR 0x22 \<and> hd s \<noteq> CHR 0x27"

lemma remove_comment_none: "CHR ''#'' \<notin> set s \<Longrightarrow> remove_comment s = s"
proof -
  assume "CHR ''#'' \<notin> set s"
  then have "regex_search re_config_remove_comment s = None"
    by (intro regex_search_absent [of "\<lambda>c. c = CHR ''#''"]) (auto simp: re_config_remove_comment_def)
  then show ?thesis by (simp add: remove_comment_def regex_replace_end_def)
qed

lemma section_search:
  assumes "0 < n" and "0 < m" and "section_name name"
  defines "s \<equiv> replicate n (CHR ''['') @ name @ replicate m (CHR '']'')"
  shows "\<exists>e c. regex_search re_config_section s = Some (0, e, c) \<and> length (cap_text s c 1) = n \<and> cap_text s c 2 = name"
proof -
  let ?i = "n + length name"
  define T where "T = Seq Spaces (Plus (Chr (\<lambda>c. c = CHR '']'')))"
  have nm: "\<forall>c \<in> set name. \<not> isspace c \<and> c \<noteq> CHR ''['' \<and> c \<noteq> CHR '']'' \<and> is_dot c" "name \<noteq> []"
    using assms(3) by (auto simp: section_name_def config_char_def)
  then have hd: "\<not> isspace (hd name)" "hd name \<noteq> CHR ''[''" by (simp_all add: hd_in_set)
  have at: "s ! (n + j) = name ! j" if "j < length name" for j using that by (simp add: s_def nth_append)
  have d: "drop n s = name @ replicate m (CHR '']'')" "drop ?i s = replicate m (CHR '']'')" by (simp_all add: s_def)
  have sp: "\<not> isspace (hd s)" "\<not> isspace (hd (drop n s))"
    using nm(2) hd(1) assms(1) unfolding d(1) by (simp_all add: s_def isspace_def hd_append)
  have "first_match T s ?i [(2, n, ?i), (1, 0, n)] (?i + m, [(2, n, ?i), (1, 0, n)])"
    unfolding T_def using assms(2) d(2)
    by (intro first_match_Seq [OF first_match_no_space] first_match_Plus [where t = "replicate m (CHR '']'')" and u = "[]", simplified])
      (auto simp: isspace_def)
  moreover have "rmatch T s (n + j) ((2, n, n + j) # [(1, 0, n)]) = []" if "j < length name" for j
    using at [OF that] nm that by (simp add: T_def rmatch_spaces_none rmatch_plus_none)
  ultimately have t: "first_match (Seq (Cap 2 (Star False (Chr is_dot))) T) s n [(1, 0, n)] (?i + m, [(2, n, ?i), (1, 0, n)])"
    using d(1) nm by (intro first_match_lazy) auto
  have "first_match (Plus (Chr (\<lambda>c. c = CHR ''[''))) s 0 [] (n, [])"
    using first_match_Plus [of 0 s "replicate n (CHR ''['')" "name @ replicate m (CHR '']'')"] assms(1) nm hd by (simp add: s_def)
  note b = first_match_Seq [OF first_match_Cap [OF this] first_match_Seq [OF first_match_no_space t]]
  have "first_match re_config_section s 0 [] (?i + m, [(2, n, ?i), (1, 0, n)])"
    unfolding re_config_section_def Seqs.simps T_def [symmetric]
    by (rule first_match_Bol [OF first_match_Seq [OF first_match_no_space b]])
      (use sp in simp_all)
  from first_match_search [OF this] show ?thesis by (simp add: cap_text_def s_def)
qed

lemma rmatch_Back_empty: "map_of c k = Some (p, p) \<Longrightarrow> rmatch (Back k) s i c = [(i, c)]"
  by (simp add: cap_text_def Let_def)

lemma property_search:
  assumes "property_name k" and "property_value v"
  defines "s \<equiv> k @ ''='' @ v"
  shows "\<exists>e c. regex_search re_config_propety s = Some (0, e, c) \<and> cap_text s c 1 = k \<and> cap_text s c 3 = v"
proof -
  define W where "W = (\<lambda>c. is_word c \<or> c = CHR ''-'' \<or> c = CHR '':'')"
  define Q where "Q = Alt (Lit [CHR 0x22]) (Alt (Lit [CHR 0x27]) Eps)"
  define T where "T = Seq (Back 2) (Seq Spaces Eol)"
  let ?n = "length k" and ?i = "Suc (length k)"
  let ?e = "?i + length v"
  let ?c2 = "[(2, ?i, ?i), (1, 0, ?n)]"
  have k: "\<forall>c \<in> set k. W c \<and> \<not> isspace c" "k \<noteq> []"
    using assms(1) by (auto simp: property_name_def W_def is_word_def isspace_def)
  have v: "v \<noteq> []" "\<not> isspace (hd v)" "\<not> isspace (last v)" "hd v \<noteq> CHR 0x22" "hd v \<noteq> CHR 0x27" "\<forall>c \<in> set v. is_dot c"
    using assms(2) by (auto simp: property_value_def config_char_def)
  have d: "drop ?n s = CHR ''='' # v" "drop ?i s = v" "length s = ?e" "last s = last v" "s ! ?i = hd v" "s ! ?n = CHR ''=''"
    using v(1) by (simp_all add: s_def nth_append hd_conv_nth)
  have sp: "\<not> isspace (hd s)" "\<not> isspace (hd (drop ?n s))" "\<not> isspace (hd (drop ?i s))"
    using k v(2) unfolding d(1,2) by (simp_all add: s_def isspace_def hd_append)
  have bk: "rmatch T s j ((3, a, b) # ?c2) = rmatch (Seq Spaces Eol) s j ((3, a, b) # ?c2)" for j a b
    unfolding T_def by (subst rmatch.simps(3), subst rmatch_Back_empty [of _ _ ?i]) simp_all
  have "rmatch T s (?i + j) ((3, ?i, ?i + j) # ?c2) = []" if "j < length v" for j
    using that d(3,4) v(3) unfolding bk by (intro rmatch_spaces_Eol) simp_all
  moreover have "first_match T s ?e ((3, ?i, ?e) # ?c2) (?e, (3, ?i, ?e) # ?c2)"
    using d(3) unfolding bk first_match_def by (simp add: rmatch_spaces_none)
  ultimately have t: "first_match (Seq (Cap 3 (Star False (Chr is_dot))) T) s ?i ?c2 (?e, (3, ?i, ?e) # ?c2)"
    using d(2) v(6) by (intro first_match_lazy [where u = "[]"]) auto
  have q: "first_match (Cap 2 Q) s ?i [(1, 0, ?n)] (?i, ?c2)" using d(5) v(4,5) by (simp add: first_match_def Q_def)
  have l: "first_match (Lit ''='') s ?n [(1, 0, ?n)] (?i, [(1, 0, ?n)])" using d(3,6) by (simp add: first_match_def)
  have w: "first_match (Plus (Chr W)) s 0 [] (?n, [])"
    using first_match_Plus [of 0 s k "''='' @ v" W] k by (simp add: s_def W_def is_word_def)
  note b = first_match_Seq [OF first_match_no_space first_match_Seq [OF l first_match_Seq [OF first_match_no_space first_match_Seq [OF q t]]]]
  have "first_match re_config_propety s 0 [] (?e, (3, ?i, ?e) # ?c2)"
    unfolding re_config_propety_def Seqs.simps T_def [symmetric] Q_def [symmetric] W_def [symmetric]
    by (rule first_match_Bol [OF first_match_Seq [OF first_match_no_space first_match_Seq [OF first_match_Cap [OF w] b]]])
      (use sp in simp_all)
  from first_match_search [OF this] show ?thesis by (simp add: cap_text_def s_def)
qed

lemma config_char_plain: "\<forall>c \<in> set s. config_char c \<Longrightarrow> CHR ''#'' \<notin> set s" "\<forall>c \<in> set s. config_char c \<Longrightarrow> CHR ''['' \<notin> set s"
  by (auto simp: config_char_def)

lemma config_line_section:
  assumes "0 < n" and "0 < m" and "section_name name"
  shows "config_line (replicate n (CHR ''['') @ name @ replicate m (CHR '']'')) st = Inr (enter_section n name st)"
proof -
  obtain e c where "regex_search re_config_section (replicate n (CHR ''['') @ name @ replicate m (CHR '']'')) = Some (0, e, c)"
    "length (cap_text (replicate n (CHR ''['') @ name @ replicate m (CHR '']'')) c 1) = n"
    "cap_text (replicate n (CHR ''['') @ name @ replicate m (CHR '']'')) c 2 = name"
    using section_search [OF assms] by blast
  then show ?thesis unfolding config_line_def by (simp only: option.case prod.case)
qed

lemma not_word: "\<not> is_word (CHR ''['')" "\<not> is_word (CHR 0x5C)" "\<not> is_word (CHR ''.'')"
  by (simp_all add: is_word_def)

lemma property_line_no_bracket: "property_name k \<Longrightarrow> property_value v \<Longrightarrow> CHR ''['' \<notin> set (k @ ''='' @ v)"
  using not_word by (auto simp: property_name_def property_value_def config_char_def)

lemma property_line_no_backslash: "property_name k \<Longrightarrow> property_value v \<Longrightarrow> CHR 0x5C \<notin> set (k @ ''='' @ v)"
  using not_word by (auto simp: property_name_def property_value_def config_char_def)

lemma property_name_no_dot: "property_name k \<Longrightarrow> CHR ''.'' \<notin> set k"
  using not_word by (auto simp: property_name_def)

lemma config_line_property:
  assumes "property_name k" and "property_value v"
  shows "config_line (k @ ''='' @ v) st = set_property k v st"
proof -
  have "regex_search re_config_section (k @ ''='' @ v) = None"
  proof (rule regex_search_absent [of "\<lambda>c. c = CHR ''[''"])
    show "must_see (\<lambda>c. c = CHR ''['') re_config_section" by (simp add: re_config_section_def Plus_def)
    show "\<forall>c \<in> set (k @ ''='' @ v). c \<noteq> CHR ''[''" using property_line_no_bracket [OF assms] by blast
  qed
  moreover obtain e c where "regex_search re_config_propety (k @ ''='' @ v) = Some (0, e, c)" "cap_text (k @ ''='' @ v) c 1 = k"
    "cap_text (k @ ''='' @ v) c 3 = v"
    using property_search [OF assms] by blast
  ultimately show ?thesis unfolding config_line_def by (simp only: option.case prod.case)
qed

lemma no_continuation:
  assumes "CHR 0x5C \<notin> set l"
  shows "config_lines eol (l # ls) st = (case config_line l st of Inl x \<Rightarrow> Inl x | Inr st \<Rightarrow> config_lines eol ls st)"
proof -
  have "regex_search re_config_line_break_clean l = None"
    using assms by (intro regex_search_absent [of "\<lambda>c. c = CHR 0x5C"]) (auto simp: re_config_line_break_clean_def)
  then show ?thesis by simp
qed
section \<open>Writing a configuration and reading it back\<close>

text \<open>A configuration file as the list of its sections in order, each with its level, its name and its properties.\<close>

type_synonym entry = "nat \<times> string \<times> (string \<times> string) list"

definition render_entry :: "entry \<Rightarrow> string list" where
  "render_entry e =
     (case e of (n, name, ps) \<Rightarrow>
        (replicate n (CHR ''['') @ name @ replicate n (CHR '']'')) # map (\<lambda>(k, v). k @ ''='' @ v) ps)"

definition entry_ok :: "entry \<Rightarrow> bool" where
  "entry_ok e \<longleftrightarrow>
     (case e of (n, name, ps) \<Rightarrow> 0 < n \<and> section_name name \<and> (\<forall>(k, v) \<in> set ps. property_name k \<and> property_value v))"

fun entries_flat :: "string list \<Rightarrow> entry list \<Rightarrow> ((string \<times> string) \<times> string) list" where
  "entries_flat path [] = []"
| "entries_flat path ((n, name, ps) # es) =
     (let path = take (n - 1) path @ [name]
      in map (\<lambda>(k, v). ((join_dots path, k), v)) ps @ entries_flat path es)"

definition prop_at :: "config_map \<Rightarrow> string \<times> string \<Rightarrow> string option" where
  "prop_at m xk = Option.bind (map_of m (fst xk)) (\<lambda>d. map_of (snd d) (snd xk))"

lemma implode_path: "implode_config_path path [] = join_dots path"
  by (simp add: implode_config_path_def)

lemma enter_section_effect:
  assumes "section_name name" and "0 < n"
  shows "fst (enter_section n name (path, m)) = take (n - 1) path @ [name]"
    and "map_of (snd (enter_section n name (path, m))) (join_dots (take (n - 1) path @ [name])) \<noteq> None"
    and "prop_at (snd (enter_section n name (path, m))) = prop_at m"
proof -
  have nm: "remove_comment name = name" "name \<noteq> []"
    using assms(1) by (auto simp: section_name_def config_char_def intro!: remove_comment_none)
  show "fst (enter_section n name (path, m)) = take (n - 1) path @ [name]"
    by (simp add: enter_section_def Let_def nm section_parent_take [OF assms(2)])
  show "map_of (snd (enter_section n name (path, m))) (join_dots (take (n - 1) path @ [name])) \<noteq> None"
    using enter_section_inv [of name n "(path, m)"] nm
    by (simp add: config_inv_def enter_section_def Let_def section_parent_take [OF assms(2)] implode_path)
  show "prop_at (snd (enter_section n name (path, m))) = prop_at m"
    by (rule ext) (auto simp: enter_section_def Let_def prop_at_def map_of_config_update map_of_config_emplace split: option.split)
qed

lemma set_property_effect:
  assumes "map_of m (join_dots path) \<noteq> None" and "property_value v"
  shows "\<exists>m'. set_property k v (path, m) = Inr (path, m') \<and> map_of m' (join_dots path) \<noteq> None \<and>
    prop_at m' = map_of [((join_dots path, k), v)] ++ prop_at m"
proof -
  have "remove_comment v = v" using assms(2) by (auto simp: property_value_def config_char_def intro!: remove_comment_none)
  then show ?thesis using assms(1)
    by (auto simp: set_property_def Let_def implode_path map_of_config_update prop_at_def fun_eq_iff map_add_def
        umap_emplace_def umap_find_plain split: option.splits)
qed

lemma config_lines_props:
  assumes "\<forall>(k, v) \<in> set ps. property_name k \<and> property_value v" and "map_of m (join_dots path) \<noteq> None"
  shows "\<exists>m'. config_lines eol (map (\<lambda>(k, v). k @ ''='' @ v) ps @ ls) (path, m) = config_lines eol ls (path, m') \<and>
    prop_at m' = map_of (map (\<lambda>(k, v). ((join_dots path, k), v)) ps) ++ prop_at m"
  using assms
proof (induction ps arbitrary: m)
  case (Cons p ps)
  obtain k v where p: "p = (k, v)" by (cases p)
  have kv: "property_name k" "property_value v" using Cons.prems(1) p by auto
  obtain m1 where m1: "set_property k v (path, m) = Inr (path, m1)" "map_of m1 (join_dots path) \<noteq> None"
    "prop_at m1 = map_of [((join_dots path, k), v)] ++ prop_at m"
    using set_property_effect [OF Cons.prems(2) kv(2)] by blast
  obtain m' where m': "config_lines eol (map (\<lambda>(k, v). k @ ''='' @ v) ps @ ls) (path, m1) = config_lines eol ls (path, m')"
    "prop_at m' = map_of (map (\<lambda>(k, v). ((join_dots path, k), v)) ps) ++ prop_at m1"
    using Cons.IH [OF _ m1(2)] Cons.prems(1) by auto
  have "config_lines eol ((k @ ''='' @ v) # (map (\<lambda>(k, v). k @ ''='' @ v) ps @ ls)) (path, m) = config_lines eol ls (path, m')"
    using m' m1(1) by (simp only: no_continuation [OF property_line_no_backslash [OF kv]] config_line_property [OF kv] sum.case)
  moreover have "prop_at m' = map_of (map (\<lambda>(k, v). ((join_dots path, k), v)) (p # ps)) ++ prop_at m"
    using m'(2) m1(3) p by (simp add: map_add_assoc [symmetric])
  moreover have "map (\<lambda>(k, v). k @ ''='' @ v) (p # ps) @ ls = (k @ ''='' @ v) # (map (\<lambda>(k, v). k @ ''='' @ v) ps @ ls)"
    by (simp add: p)
  ultimately show ?case by metis
qed auto

lemma section_line_no_backslash: "section_name name \<Longrightarrow> CHR 0x5C \<notin> set (replicate n (CHR ''['') @ name @ replicate m (CHR '']''))"
  by (auto simp: section_name_def config_char_def)

lemma config_lines_entries:
  assumes "\<forall>e \<in> set es. entry_ok e"
  shows "\<exists>path' m'. config_lines eol (concat (map render_entry es)) (path, m) = Inr (path', m') \<and>
    prop_at m' = map_of (entries_flat path es) ++ prop_at m"
  using assms
proof (induction es arbitrary: path m)
  case (Cons e es)
  obtain n name ps where e: "e = (n, name, ps)" by (cases e)
  have ok: "0 < n" "section_name name" "\<forall>(k, v) \<in> set ps. property_name k \<and> property_value v"
    using Cons.prems e by (auto simp: entry_ok_def)
  let ?path = "take (n - 1) path @ [name]"
  obtain m1 where m1: "enter_section n name (path, m) = (?path, m1)" "map_of m1 (join_dots ?path) \<noteq> None" "prop_at m1 = prop_at m"
    using enter_section_effect [OF ok(2,1), of path m] by (metis prod.collapse)
  obtain m2 where m2: "config_lines eol (map (\<lambda>(k, v). k @ ''='' @ v) ps @ concat (map render_entry es)) (?path, m1) =
      config_lines eol (concat (map render_entry es)) (?path, m2)"
    "prop_at m2 = map_of (map (\<lambda>(k, v). ((join_dots ?path, k), v)) ps) ++ prop_at m"
    using config_lines_props [OF ok(3) m1(2)] m1(3) by metis
  obtain path' m' where m': "config_lines eol (concat (map render_entry es)) (?path, m2) = Inr (path', m')"
    "prop_at m' = map_of (entries_flat ?path es) ++ prop_at m2"
    using Cons.IH [of ?path m2] Cons.prems by auto
  have "config_lines eol (concat (map render_entry (e # es))) (path, m) = Inr (path', m')"
    using m1(1) m2(1) m'(1)
    by (simp only: e render_entry_def prod.case list.map concat.simps append_Cons no_continuation [OF section_line_no_backslash [OF ok(2)]]
        config_line_section [OF ok(1,1,2)] sum.case)
  moreover have "prop_at m' = map_of (entries_flat path (e # es)) ++ prop_at m"
    using m'(2) m2(2) e by (simp add: Let_def map_of_append map_add_assoc [symmetric] del: map_add_assoc)
  ultimately show ?case by blast
qed simp

text \<open>
  Every property of a written configuration is found again under the dotted path of its section, and
  nothing else is found. Of two properties with one name the first counts.
\<close>

lemma config_roundtrip:
  assumes "\<forall>e \<in> set es. entry_ok e"
  shows "\<exists>m. initConfig (Some (eol, concat (map render_entry es))) = Inr m \<and>
    (\<forall>x k d. CHR ''.'' \<notin> set k \<longrightarrow>
       GetConfigValue \<lparr>configValues = m, space = [], progDir = pd, progWorkDir = wd, progName = pn\<rparr> (x @ ''.'' @ k) d =
       (case map_of (entries_flat [] es) (x, k) of Some v \<Rightarrow> v | None \<Rightarrow> d))"
proof -
  obtain path' m' where "config_lines eol (concat (map render_entry es)) ([], []) = Inr (path', m')"
    "prop_at m' = map_of (entries_flat [] es)"
    using config_lines_entries [OF assms, of eol "[]" "[]"] by (auto simp: prop_at_def map_add_def)
  moreover have "GetConfigValue \<lparr>configValues = m', space = [], progDir = pd, progWorkDir = wd, progName = pn\<rparr> (x @ ''.'' @ k) d =
      (case prop_at m' (x, k) of Some v \<Rightarrow> v | None \<Rightarrow> d)" if "CHR ''.'' \<notin> set k" for x k d
    using that by (auto simp: GetConfigValue_def last_dot_Some prop_at_def split: option.split)
  ultimately show ?thesis by (simp add: initConfig_def)
qed

end
