(* ===== verification/Fiber_ConfigView.thy ===== *)
theory Fiber_ConfigView
  imports Fiber_Config
begin

text \<open>
  ci/interface/IConfig.h and \<open>ConfigImpl\<close> as the start-up code and the modules use it: a value is asked for with a
  default, and \<open>operator[]\<close> steps into a section. The locale \<open>config_view\<close> states what they rely on; the
  configuration read from a file is an instance, and what was written is read through every chain of sections.
\<close>

section \<open>The object\<close>

definition ConfigImpl :: "config_map \<Rightarrow> string \<Rightarrow> string \<Rightarrow> string \<Rightarrow> string \<Rightarrow> config_impl" where
  "ConfigImpl Values Dir WorkDir Name ns =
     \<lparr>configValues = Values, space = ns, progDir = Dir, progWorkDir = WorkDir, progName = Name\<rparr>"

definition GetProgramName :: "config_impl \<Rightarrow> string" where
  "GetProgramName c = progName c"

definition GetProgramDir :: "config_impl \<Rightarrow> string" where
  "GetProgramDir c = progDir c"

definition GetProgramCurrentDir :: "config_impl \<Rightarrow> string" where
  "GetProgramCurrentDir c = progWorkDir c"

text \<open>\<open>operator[]\<close> makes a new object of the same parts.\<close>

lemma config_at_ConfigImpl:
  "config_at c ns =
     ConfigImpl (configValues c) (GetProgramDir c) (GetProgramCurrentDir c) (GetProgramName c)
       (if space c = [] then ns else space c @ ''.'' @ ns)"
  by (simp add: config_at_def ConfigImpl_def GetProgramDir_def GetProgramCurrentDir_def GetProgramName_def)

section \<open>The contract\<close>

locale config_view =
  fixes get :: "'c \<Rightarrow> string \<Rightarrow> string \<Rightarrow> string" and sub :: "'c \<Rightarrow> string \<Rightarrow> 'c"
  assumes default_unused: "get c p d \<noteq> d \<Longrightarrow> get c p d' = get c p d"
    and sub_value: "CHR ''.'' \<notin> set p \<Longrightarrow> ns \<noteq> [] \<Longrightarrow> get (sub c ns) p d = get c (ns @ ''.'' @ p) d"
    and sub_sub: "a \<noteq> [] \<Longrightarrow> b \<noteq> [] \<Longrightarrow> sub (sub c a) b = sub c (a @ ''.'' @ b)"
begin

text \<open>A property is set, and then every default is ignored, or it is not, and the default is returned.\<close>

lemma set_or_default: "(\<exists>v. \<forall>d. get c p d = v) \<or> (\<forall>d. get c p d = d)"
  using default_unused by blast

text \<open>A chain of sections is one section with a dotted name.\<close>

lemma sub_path: "path \<noteq> [] \<Longrightarrow> \<forall>s \<in> set path. s \<noteq> [] \<Longrightarrow> foldl sub c path = sub c (join_dots path)"
proof (induction path rule: rev_induct)
  case (snoc s path)
  then show ?case
  proof (cases "path = []")
    case False
    then have "join_dots path \<noteq> []" using snoc.prems(2) by (cases path rule: join_dots.cases) auto
    then show ?thesis using snoc False by (simp add: sub_sub join_dots_snoc)
  qed simp
qed simp

lemma path_value:
  assumes "path \<noteq> []" and "\<forall>s \<in> set path. s \<noteq> []" and "CHR ''.'' \<notin> set p"
  shows "get (foldl sub c path) p d = get c (join_dots path @ ''.'' @ p) d"
proof -
  have "join_dots path \<noteq> []" using assms(1,2) by (cases path rule: join_dots.cases) auto
  then show ?thesis using sub_path [OF assms(1,2)] sub_value [OF assms(3)] by simp
qed

end

interpretation config: config_view GetConfigValue config_at
proof
  show "GetConfigValue c p d' = GetConfigValue c p d" if "GetConfigValue c p d \<noteq> d" for c p d d'
    using that by (auto simp: GetConfigValue_def Let_def split: option.splits prod.splits)
  show "GetConfigValue (config_at c ns) p d = GetConfigValue c (ns @ ''.'' @ p) d"
    if "CHR ''.'' \<notin> set p" "ns \<noteq> []" for c p ns d
    by (rule GetConfigValue_nested [OF that])
  show "config_at (config_at c a) b = config_at c (a @ ''.'' @ b)" if "a \<noteq> []" "b \<noteq> []" for c a b
    using that by (simp add: config_at_def)
qed

section \<open>What was written is read through every view\<close>

lemma config_roundtrip_view:
  assumes "\<forall>e \<in> set es. entry_ok e"
  shows "\<exists>m. initConfig (Some (eol, concat (map render_entry es))) = Inr m \<and>
    (\<forall>path k d. path \<noteq> [] \<longrightarrow> (\<forall>s \<in> set path. s \<noteq> []) \<longrightarrow> CHR ''.'' \<notin> set k \<longrightarrow>
       GetConfigValue (foldl config_at (ConfigImpl m pd wd pn []) path) k d =
       (case map_of (entries_flat [] es) (join_dots path, k) of Some v \<Rightarrow> v | None \<Rightarrow> d))"
  using config_roundtrip [OF assms, of eol pd wd pn] by (fastforce simp: config.path_value ConfigImpl_def)

end
