(* ===== verification/Fiber_System.thy ===== *)
theory Fiber_System
  imports Fiber_Stdmap
begin

text \<open>
  ci/sys: the command line (cmdline.h), the working directory (path.h) and signals (signals.h), with
  kernel/main/init-cmd.hpp, which uses them.

  \<open>getopt_long\<close> is an argument: for a command line, the short options and the long options, the sequence of
  its results before -1, each with \<open>option_index\<close> and \<open>optarg\<close>.
\<close>

section \<open>Command line\<close>

record cmd_option =
  short_name :: byte
  long_name :: string
  required :: int
  opt_value :: "string option"

text \<open>The two constructors, and the hash and the equality of the set of options: both look at the long name only.\<close>

definition new_option :: "string \<Rightarrow> int \<Rightarrow> byte \<Rightarrow> cmd_option" where
  "new_option name req short = \<lparr>short_name = short, long_name = name, required = req, opt_value = None\<rparr>"

definition option_hash :: "(string \<Rightarrow> 'h) \<Rightarrow> cmd_option \<Rightarrow> 'h" where
  "option_hash h opt = h (long_name opt)"

definition option_equal :: "cmd_option \<Rightarrow> cmd_option \<Rightarrow> bool" where
  "option_equal o1 o2 \<longleftrightarrow> long_name o1 = long_name o2"

interpretation option_keys: unordered_keys "option_hash h" option_equal for h
  by unfold_locales (auto simp: option_hash_def option_equal_def)

text \<open>The \<open>struct option\<close> an option is converted to, and the all-zero one that ends the array.\<close>

record long_option =
  lo_name :: "string option"
  has_arg :: int
  lo_val :: byte

definition to_long :: "cmd_option \<Rightarrow> long_option" where
  "to_long o1 = \<lparr>lo_name = Some (long_name o1), has_arg = required o1, lo_val = short_name o1\<rparr>"

definition options_long :: "cmd_option list \<Rightarrow> long_option list" where
  "options_long args = map to_long args @ [\<lparr>lo_name = None, has_arg = 0, lo_val = NUL\<rparr>]"

definition short_text :: "long_option \<Rightarrow> string" where
  "short_text it =
     (if lo_val it \<noteq> NUL then [lo_val it] @ (if has_arg it = 2 then ''::'' else if has_arg it = 1 then '':'' else []) else [])"

definition options_short :: "long_option list \<Rightarrow> string" where
  "options_short los = concat (map short_text los)"

text \<open>\<open>options_map[it.val] = index++\<close> in an array of 256: a \<open>char\<close> above 127 is a negative index.\<close>

fun options_map :: "long_option list \<Rightarrow> nat \<Rightarrow> nat list \<Rightarrow> exn + nat list" where
  "options_map [] index m = Inr m"
| "options_map (it # its) index m =
     (if code (lo_val it) < 128 then options_map its (Suc index) (m[code (lo_val it) := index]) else Inl UndefinedBehaviour)"

type_synonym getopt_result = "int \<times> int \<times> string option"

text \<open>
  \<open>options_list.emplace\<close> keeps the option that is there. The exception behind it leaves the list as it is;
  it is an \<open>int\<close>.
\<close>

definition add_option :: "long_option list \<Rightarrow> int \<Rightarrow> string option \<Rightarrow> (string, cmd_option) umap \<Rightarrow> exn + (string, cmd_option) umap" where
  "add_option los i optarg opts =
     (if 0 \<le> i \<and> i < int (length los) then
        let ol = los ! nat i in
        case lo_name ol of
          None \<Rightarrow> Inl UndefinedBehaviour
        | Some name \<Rightarrow>
            if has_arg ol = 1 \<and> optarg = None then Inl (ThrownInt i)
            else Inr (fst (umap_emplace (\<lambda>k. k) (=) opts name
                   \<lparr>short_name = lo_val ol, long_name = name, required = has_arg ol, opt_value = optarg\<rparr>))
      else Inl UndefinedBehaviour)"

fun options_loop ::
    "long_option list \<Rightarrow> nat list \<Rightarrow> getopt_result list \<Rightarrow> (string, cmd_option) umap \<Rightarrow> exn + (string, cmd_option) umap" where
  "options_loop los m [] opts = Inr opts"
| "options_loop los m ((opt, option_index, optarg) # rs) opts =
     (if opt = 0 then
        case add_option los option_index optarg opts of Inl x \<Rightarrow> Inl x | Inr opts \<Rightarrow> options_loop los m rs opts
      else if opt \<noteq> 63 then
        if 0 < opt \<and> opt < int (length m) then
          case add_option los (int (m ! nat opt)) optarg opts of Inl x \<Rightarrow> Inl x | Inr opts \<Rightarrow> options_loop los m rs opts
        else Inl UndefinedBehaviour
      else options_loop los m rs opts)"

record cmdline =
  options_list :: "(string, cmd_option) umap"
  program_name :: string

definition cmd_options ::
    "(string list \<Rightarrow> string \<Rightarrow> long_option list \<Rightarrow> getopt_result list) \<Rightarrow> string list \<Rightarrow> cmd_option list \<Rightarrow> exn + cmdline" where
  "cmd_options getopt_long argv args =
     (case argv of
        [] \<Rightarrow> Inl UndefinedBehaviour
      | prog # _ \<Rightarrow>
          let los = options_long args in
          case options_map los 0 (replicate 256 0) of
            Inl x \<Rightarrow> Inl x
          | Inr m \<Rightarrow>
              (case options_loop los m (getopt_long argv (options_short los) los) [] of
                 Inl x \<Rightarrow> Inl x
               | Inr opts \<Rightarrow> Inr \<lparr>options_list = opts, program_name = prog\<rparr>))"

definition cmd_is :: "cmdline \<Rightarrow> string \<Rightarrow> bool" where
  "cmd_is c name \<longleftrightarrow> umap_find (\<lambda>k. k) (=) (options_list c) name \<noteq> None"

text \<open>\<open>operator()\<close>: an option without a value would make a string of a null pointer.\<close>

definition cmd_value :: "cmdline \<Rightarrow> string \<Rightarrow> string \<Rightarrow> exn + string" where
  "cmd_value c name default_value =
     (case umap_find (\<lambda>k. k) (=) (options_list c) name of
        Some o1 \<Rightarrow> (case opt_value o1 of Some v \<Rightarrow> Inr v | None \<Rightarrow> Inl UndefinedBehaviour)
      | None \<Rightarrow> Inr default_value)"

text \<open>
  The set of options is kept as a map from long names. That is what the set with its own hash and equality does:
  \<open>find\<close> with a fresh option of that name finds the same element.
\<close>

lemma option_set_find:
  "umap_find (option_hash h) option_equal (map (\<lambda>(k, v). (new_option k req short, v)) m) (new_option name req' short') =
   umap_find (\<lambda>k. k) (=) m name"
proof -
  have "List.find (\<lambda>e. option_equal (new_option name req' short') (fst e)) (map (\<lambda>(k, v). (new_option k req short, v)) m) =
      map_option (\<lambda>(k, v). (new_option k req short, v)) (List.find (\<lambda>e. name = fst e) m)"
    by (induction m) (auto simp: option_equal_def new_option_def)
  then show ?thesis by (simp add: option_keys.find_eq plain_keys.find_eq option.map_comp comp_def case_prod_beta)
qed

section \<open>Working directory\<close>

definition PATH_MAX :: nat where
  "PATH_MAX = 4096"

text \<open>
  \<open>cwd\<close> is a static buffer of \<open>PATH_MAX + 1\<close> bytes, filled on the first call: \<open>buf\<close> is its contents,
  \<open>got\<close> what \<open>getcwd\<close> gives (\<open>None\<close> for a null pointer, which \<open>strlen\<close> is then given).
\<close>

definition cwd :: "string \<Rightarrow> string option \<Rightarrow> exn + string" where
  "cwd buf got =
     (if buf = [] then
        case got of
          None \<Rightarrow> Inl UndefinedBehaviour
        | Some p \<Rightarrow> if length p + 1 \<le> PATH_MAX then Inr (p @ ''/'') else Inl UndefinedBehaviour
      else Inr buf)"

section \<open>The kernel's command line\<close>

text \<open>\<open>rfind('/') + 1\<close> is zero when there is no slash: the directory is then empty.\<close>

definition program_dir :: "string \<Rightarrow> string" where
  "program_dir prog = take (length prog - length (after_last_slash prog)) prog"

definition config_option :: cmd_option where
  "config_option = \<lparr>short_name = CHR ''c'', long_name = ''config'', required = 1, opt_value = None\<rparr>"

record program =
  programDir :: string
  programWorkDir :: string
  programName :: string
  programCmd :: cmdline

definition initCmdLine ::
    "(string list \<Rightarrow> string \<Rightarrow> long_option list \<Rightarrow> getopt_result list) \<Rightarrow> string option \<Rightarrow> string list \<Rightarrow> exn + program" where
  "initCmdLine getopt_long got argv =
     (case argv of
        [] \<Rightarrow> Inl UndefinedBehaviour
      | prog # _ \<Rightarrow>
          (case cwd [] got of
             Inl x \<Rightarrow> Inl x
           | Inr wd \<Rightarrow>
               (case cmd_options getopt_long argv [config_option] of
                  Inl x \<Rightarrow> Inl x
                | Inr cmd \<Rightarrow>
                    Inr \<lparr>programDir = program_dir prog, programWorkDir = wd, programName = after_last_slash prog, programCmd = cmd\<rparr>)))"

lemma program_path: "program_dir prog @ after_last_slash prog = prog"
proof -
  let ?t = "takeWhile (\<lambda>c. c \<noteq> CHR ''/'') (rev prog)"
  have "rev prog = ?t @ dropWhile (\<lambda>c. c \<noteq> CHR ''/'') (rev prog)" by simp
  then have "prog = rev (dropWhile (\<lambda>c. c \<noteq> CHR ''/'') (rev prog)) @ rev ?t" by (metis rev_append rev_rev_ident)
  then show ?thesis unfolding program_dir_def after_last_slash_def
    by (metis append_eq_conv_conj diff_add_inverse2 length_append)
qed

text \<open>
  What \<open>getopt_long\<close> documents for the kernel's options: the short and the long form both give \<open>'c'\<close> with
  the argument, anything else gives a question mark.
\<close>

definition config_results :: "getopt_result list \<Rightarrow> bool" where
  "config_results rs \<longleftrightarrow> (\<forall>(opt, i, optarg) \<in> set rs. opt = 99 \<and> optarg \<noteq> None \<or> opt = 63)"

lemma config_options_map:
  "options_map (options_long [config_option]) 0 (replicate 256 0) = Inr ((replicate 256 0)[99 := 0, 0 := 1])"
  by (simp add: options_long_def to_long_def config_option_def NUL_def)

lemma umap_emplace_find: "umap_find (\<lambda>k. k) (=) (fst (umap_emplace (\<lambda>k. k) (=) m k v)) k =
    (case umap_find (\<lambda>k. k) (=) m k of None \<Rightarrow> Some v | Some w \<Rightarrow> Some w)"
  by (auto simp: umap_emplace_def umap_find_plain map_add_def split: option.split)

lemma options_loop_config:
  assumes "config_results rs" and "m ! 99 = 0" and "99 < length m"
    and "\<forall>o1. umap_find (\<lambda>k. k) (=) opts ''config'' = Some o1 \<longrightarrow> opt_value o1 \<noteq> None"
  shows "\<exists>opts'. options_loop (options_long [config_option]) m rs opts = Inr opts' \<and>
    map_option opt_value (umap_find (\<lambda>k. k) (=) opts' ''config'') =
      (case umap_find (\<lambda>k. k) (=) opts ''config'' of
         Some o1 \<Rightarrow> Some (opt_value o1)
       | None \<Rightarrow> map_option (\<lambda>r. snd (snd r)) (List.find (\<lambda>r. fst r = 99) rs))"
  using assms
proof (induction rs arbitrary: opts)
  case Nil
  then show ?case by (simp split: option.split)
next
  case (Cons r rs)
  obtain opt i optarg where r: "r = (opt, i, optarg)" by (cases r)
  have rs: "config_results rs" using Cons.prems(1) by (simp add: config_results_def)
  show ?case
  proof (cases "opt = 63")
    case True
    then show ?thesis using Cons.IH [OF rs Cons.prems(2-4)] by (auto simp: r split: option.splits)
  next
    case False
    then obtain v where opt: "opt = 99" "optarg = Some v" using Cons.prems(1) r by (auto simp: config_results_def)
    let ?o = "\<lparr>short_name = CHR ''c'', long_name = ''config'', required = 1, opt_value = Some v\<rparr>"
    let ?opts = "fst (umap_emplace (\<lambda>k. k) (=) opts ''config'' ?o)"
    have "add_option (options_long [config_option]) 0 optarg opts = Inr ?opts"
      by (simp add: add_option_def options_long_def to_long_def config_option_def opt)
    moreover have "\<forall>o1. umap_find (\<lambda>k. k) (=) ?opts ''config'' = Some o1 \<longrightarrow> opt_value o1 \<noteq> None"
      using Cons.prems(4) by (auto simp: umap_emplace_find split: option.splits)
    from Cons.IH [OF rs Cons.prems(2,3) this] obtain opts' where
      "options_loop (options_long [config_option]) m rs ?opts = Inr opts'"
      "map_option opt_value (umap_find (\<lambda>k. k) (=) opts' ''config'') =
        (case umap_find (\<lambda>k. k) (=) opts ''config'' of Some o1 \<Rightarrow> Some (opt_value o1) | None \<Rightarrow> Some (Some v))"
      by (auto simp: umap_emplace_find split: option.splits)
    ultimately show ?thesis using opt Cons.prems(2,3) by (auto simp: r split: option.splits)
  qed
qed

text \<open>
  The configuration file is the argument of the first \<open>-c\<close> or \<open>--config\<close>, else the default; the program's
  directory and name make up the path it was called with.
\<close>

lemma initCmdLine_config:
  assumes "config_results (getopt_long (prog # as) ''c:'' (options_long [config_option]))"
    and "length wd < PATH_MAX"
  shows "\<exists>p. initCmdLine getopt_long (Some wd) (prog # as) = Inr p \<and> programDir p @ programName p = prog \<and>
    programWorkDir p = wd @ ''/'' \<and>
    cmd_value (programCmd p) ''config'' d =
      Inr (case List.find (\<lambda>r. fst r = 99) (getopt_long (prog # as) ''c:'' (options_long [config_option])) of
             Some r \<Rightarrow> the (snd (snd r)) | None \<Rightarrow> d)"
proof -
  let ?rs = "getopt_long (prog # as) ''c:'' (options_long [config_option])"
  have s: "options_short (options_long [config_option]) = ''c:''"
    by (simp add: options_short_def options_long_def to_long_def config_option_def short_text_def NUL_def)
  obtain opts where o1: "options_loop (options_long [config_option]) ((replicate 256 0)[99 := 0, 0 := 1]) ?rs [] = Inr opts"
    "map_option opt_value (umap_find (\<lambda>k. k) (=) opts ''config'') = map_option (\<lambda>r. snd (snd r)) (List.find (\<lambda>r. fst r = 99) ?rs)"
    using options_loop_config [OF assms(1), of "(replicate 256 0)[99 := 0, 0 := 1]" "[]"] by (auto simp: umap_find_def)
  have "snd (snd r) \<noteq> None" if "List.find (\<lambda>r. fst r = 99) ?rs = Some r" for r
  proof -
    have "r \<in> set ?rs" "fst r = 99" using that by (auto simp: find_Some_iff)
    then show ?thesis using assms(1) by (fastforce simp: config_results_def)
  qed
  then show ?thesis using o1 assms(2)
    by (auto simp: initCmdLine_def cwd_def cmd_options_def Let_def s config_options_map program_path cmd_value_def
        split: option.splits)
qed

section \<open>Signals\<close>

text \<open>
  The dispositions are a map from signal numbers. \<open>set_action\<close> is what \<open>sigaction\<close> and \<open>signal\<close> do: the
  call fails, and changes nothing, for a number that is no signal and for \<open>SIGKILL\<close> and \<open>SIGSTOP\<close>.
\<close>

definition NSIG :: int where
  "NSIG = 65"

definition set_action :: "int \<Rightarrow> 'h \<Rightarrow> (int \<Rightarrow> 'h) \<Rightarrow> int \<Rightarrow> 'h" where
  "set_action sig h t = (if 1 \<le> sig \<and> sig < NSIG \<and> sig \<noteq> 9 \<and> sig \<noteq> 19 then t(sig := h) else t)"

fun signals_handle :: "'h \<Rightarrow> int list \<Rightarrow> (int \<Rightarrow> 'h) \<Rightarrow> int \<Rightarrow> 'h" where
  "signals_handle fn [] t = t"
| "signals_handle fn (sig # sgnls) t =
     signals_handle fn sgnls (if 0 \<le> sig \<and> sig < NSIG then set_action sig fn t else t)"

definition signals_ign :: "'h \<Rightarrow> int \<Rightarrow> (int \<Rightarrow> 'h) \<Rightarrow> int \<Rightarrow> 'h" where
  "signals_ign SIG_IGN sig t = set_action sig SIG_IGN t"

definition signals_dfl :: "'h \<Rightarrow> int \<Rightarrow> (int \<Rightarrow> 'h) \<Rightarrow> int \<Rightarrow> 'h" where
  "signals_dfl SIG_DFL sig t = set_action sig SIG_DFL t"

text \<open>\<open>handle\<close> sets exactly the signals it is given, among those that can be set.\<close>

lemma signals_handle_eq:
  "signals_handle fn sgnls t s = (if s \<in> set sgnls \<and> 1 \<le> s \<and> s < NSIG \<and> s \<noteq> 9 \<and> s \<noteq> 19 then fn else t s)"
  by (induction sgnls arbitrary: t) (auto simp: set_action_def)

end
