(* ===== verification/Fiber_Server.thy ===== *)
theory Fiber_Server
  imports Fiber_Option Fiber_HttpImpl
begin

text \<open>
  kernel/net/server.cpp and the opening of sockets in kernel/net/impl/socketimpl.h: \<open>Server\<close> opens the
  configured listeners and, on every call of \<open>Listen\<close>, accepts the waiting connections, gives each a
  message identifier and hands it on.

  The answers of the system calls are arguments: \<open>os_calls\<close> for the opening of a socket, and for
  \<open>accept\<close> the result of each call in turn.
\<close>

section \<open>Opening a socket\<close>

definition stoi :: "string \<Rightarrow> exn + int" where
  "stoi s = (case stol s of Inl x \<Rightarrow> Inl x | Inr v \<Rightarrow> if - (2 ^ 31) \<le> v \<and> v < 2 ^ 31 then Inr v else Inl StdOutOfRange)"

text \<open>Each call gives its \<open>errno\<close> on failure and zero on success; \<open>os_socket\<close> also the descriptor.\<close>

record os_calls =
  os_socket :: "int \<times> int"
  os_reuseaddr :: int
  os_bindtodevice :: "string \<Rightarrow> int"
  os_bind :: "nat \<Rightarrow> int"
  os_listen :: "int \<Rightarrow> int"

text \<open>
  \<open>Open\<close> is \<open>noexcept\<close>: a port that is not a number ends the program (\<open>std::terminate\<close>). The second
  component is the socket left open, the list the sockets closed again.
\<close>

datatype open_result = Returned int | Terminated

definition Open :: "os_calls \<Rightarrow> string \<Rightarrow> string \<Rightarrow> open_result \<times> int \<times> int list" where
  "Open os device port =
     (let (fd, err) = os_socket os in
      if fd \<le> 0 then (Returned err, fd, [])
      else if os_reuseaddr os \<noteq> 0 then (Returned (os_reuseaddr os), fd, [fd])
      else if device \<noteq> [] \<and> os_bindtodevice os device \<noteq> 0 then (Returned (os_bindtodevice os device), fd, [fd])
      else case stoi port of
             Inl _ \<Rightarrow> (Terminated, fd, [])
           | Inr p \<Rightarrow>
               let sin_port = nat (p mod 2 ^ 16) in
               if os_bind os sin_port \<noteq> 0 then (Returned (os_bind os sin_port), fd, [fd])
               else if os_listen os 400 \<noteq> 0 then (Returned (os_listen os 400), fd, [fd])
               else (Returned 0, fd, []))"

text \<open>A failed opening leaves no descriptor behind, a successful one keeps it.\<close>

lemma Open_no_leak:
  assumes "Open os device port = (Returned err, fd, closed)" and "0 < fd"
    and "\<forall>d. 0 \<le> os_bindtodevice os d" "\<forall>p. 0 \<le> os_bind os p" "\<forall>n. 0 \<le> os_listen os n" "0 \<le> os_reuseaddr os"
  shows "if err = 0 then closed = [] else closed = [fd]"
  using assms by (auto simp: Open_def Let_def split: if_splits sum.splits prod.splits)

section \<open>Listeners\<close>

record server =
  msgIndex :: uint64
  conHandlers :: "(int, nat \<times> nat) umap"
  conFd :: "int list"

definition Server :: server where
  "Server = \<lparr>msgIndex = 0, conHandlers = [], conFd = []\<rparr>"

definition EPROTONOSUPPORT :: int where
  "EPROTONOSUPPORT = 93"

text \<open>
  \<open>utils::match(proto, "http")\<close>: a prefix, whatever its case. The two parts of the address are
  \<open>bind_params[0]\<close> and \<open>bind_params[1]\<close>, taken without a look at the number of parts.
\<close>

definition AddListener :: "os_calls \<Rightarrow> string \<Rightarrow> string \<Rightarrow> string \<Rightarrow> string \<Rightarrow> server \<Rightarrow> (exn + open_result) \<times> server" where
  "AddListener os proto listen query_limit header_limit sv =
     (if proto = [] then (Inl UndefinedBehaviour, sv)
      else if result (match_values (Some proto) [''http'']) = 0 then (Inr (Returned EPROTONOSUPPORT), sv)
      else case explode '':'' listen 2 of
             Some (device # port # _) \<Rightarrow>
               (case Open os device port of
                  (Returned err, fd, _) \<Rightarrow>
                    if err = 0 then
                      case get_bytes query_limit 1048576 of
                        Inl x \<Rightarrow> (Inl x, sv)
                      | Inr q \<Rightarrow>
                          (case get_bytes header_limit 8192 of
                             Inl x \<Rightarrow> (Inl x, sv)
                           | Inr h \<Rightarrow>
                               (Inr (Returned 0),
                                sv\<lparr>conHandlers := fst (umap_emplace (\<lambda>k. k) (=) (conHandlers sv) fd (q, h)), conFd := conFd sv @ [fd]\<rparr>))
                    else (Inr (Returned err), sv)
                | (Terminated, _, _) \<Rightarrow> (Inr Terminated, sv))
           | _ \<Rightarrow> (Inl UndefinedBehaviour, sv))"

section \<open>Message identifiers\<close>

definition getMsgId :: "uint64 \<Rightarrow> uint64 \<Rightarrow> uint64" where
  "getMsgId now Counter = or (push_bit 32 now) Counter"

text \<open>The low half of an identifier is the counter, as long as it fits: no two connections share one.\<close>

lemma getMsgId_low: "Counter < 2 ^ 32 \<Longrightarrow> take_bit 32 (getMsgId now Counter) = Counter"
proof -
  assume "Counter < 2 ^ 32"
  then have "take_bit 32 Counter = Counter" by (simp add: take_bit_eq_mod mod_word_less)
  moreover have "take_bit 32 (push_bit 32 now) = 0" by (simp add: take_bit_push_bit)
  ultimately show ?thesis by (simp add: getMsgId_def)
qed

lemma getMsgId_inj: "c < 2 ^ 32 \<Longrightarrow> c' < 2 ^ 32 \<Longrightarrow> getMsgId now c = getMsgId now' c' \<Longrightarrow> c = c'"
  by (metis getMsgId_low)

section \<open>Accepting connections\<close>

text \<open>A connection and the limits of the listener it came in through (\<open>None\<close>: no handler is registered for it).\<close>

record connection =
  c_msgid :: uint64
  c_socket :: int
  c_limits :: "(nat \<times> nat) option"

text \<open>
  The inner loop \<open>while (result--)\<close>: \<open>acc k\<close> is what the \<open>k\<close>-th call of \<open>accept\<close> returns, \<open>clock k\<close> the time
  then. Once \<open>result\<close> is negative the loop is left only by a failing \<open>accept\<close>: \<open>None\<close> is a loop that is
  never left.
\<close>

partial_function (option) accept_loop ::
    "(nat \<Rightarrow> int) \<Rightarrow> (nat \<Rightarrow> uint64) \<Rightarrow> (nat \<times> nat) option \<Rightarrow> nat \<Rightarrow> int \<Rightarrow> uint64 \<Rightarrow> connection list \<Rightarrow>
     (nat \<times> int \<times> uint64 \<times> connection list) option" where
  "accept_loop acc clock lim k res idx out =
     (if res \<noteq> 0 then
        if 0 < acc k then
          accept_loop acc clock lim (Suc k) (res - 1) (idx + 1)
            (out @ [\<lparr>c_msgid = getMsgId (clock k) idx, c_socket = acc k, c_limits = lim\<rparr>])
        else Some (Suc k, res - 1, idx, out)
      else Some (k, res - 1, idx, out))"

declare accept_loop.simps [code]

fun listen_loop ::
    "(int, nat \<times> nat) umap \<Rightarrow> (nat \<Rightarrow> int) \<Rightarrow> (nat \<Rightarrow> uint64) \<Rightarrow> (int \<times> bool) list \<Rightarrow> nat \<Rightarrow> int \<Rightarrow> uint64 \<Rightarrow> connection list \<Rightarrow>
     (uint64 \<times> connection list) option" where
  "listen_loop hs acc clock [] k res idx out = Some (idx, out)"
| "listen_loop hs acc clock ((fd, ready) # fds) k res idx out =
     (if res = 0 then Some (idx, out)
      else if ready then
        case accept_loop acc clock (map_of hs fd) k res idx out of
          None \<Rightarrow> None
        | Some (k, res, idx, out) \<Rightarrow> listen_loop hs acc clock fds k res idx out
      else listen_loop hs acc clock fds k res idx out)"

text \<open>\<open>Listen\<close>: what \<open>poll\<close> returns, its \<open>errno\<close>, and which descriptors it reports ready.\<close>

definition EINTR :: int where
  "EINTR = 4"

definition Listen ::
    "int \<Rightarrow> int \<Rightarrow> (int \<Rightarrow> bool) \<Rightarrow> (nat \<Rightarrow> int) \<Rightarrow> (nat \<Rightarrow> uint64) \<Rightarrow> server \<Rightarrow> (bool \<times> connection list \<times> server) option" where
  "Listen polled err ready acc clock sv =
     (if polled = -1 then Some (err = EINTR, [], sv)
      else if polled = 0 then Some (True, [], sv)
      else case listen_loop (conHandlers sv) acc clock (map (\<lambda>fd. (fd, ready fd)) (conFd sv)) 0 polled (msgIndex sv) [] of
             None \<Rightarrow> None
           | Some (idx, out) \<Rightarrow> Some (True, out, sv\<lparr>msgIndex := idx\<rparr>))"

section \<open>What is accepted\<close>

lemma accept_loop_all:
  assumes "\<forall>j < n. 0 < acc (k + j)"
  shows "accept_loop acc clock lim k (int n) idx out =
    Some (k + n, -1, idx + word_of_nat n,
      out @ map (\<lambda>j. \<lparr>c_msgid = getMsgId (clock (k + j)) (idx + word_of_nat j), c_socket = acc (k + j), c_limits = lim\<rparr>) [0..<n])"
  using assms
proof (induction n arbitrary: k idx out)
  case 0
  then show ?case by (subst accept_loop.simps) simp
next
  case (Suc n)
  have "\<forall>j < n. 0 < acc (Suc k + j)" using Suc.prems by (metis Suc_less_eq add_Suc_right add_Suc)
  note IH = Suc.IH [OF this, of "idx + 1"]
  have "0 < acc k" using Suc.prems by (metis add.right_neutral zero_less_Suc)
  moreover have "[0..<Suc n] = 0 # map Suc [0..<n]" by (simp add: upt_conv_Cons map_Suc_upt del: upt_Suc)
  ultimately show ?case using IH
    by (subst accept_loop.simps) (simp add: algebra_simps comp_def del: upt_Suc)
qed

text \<open>
  A listener alone: one connection per call, with the next identifier. With \<open>n\<close> ready listeners, the
  first of them is asked for \<open>n\<close> connections, on a blocking socket.
\<close>

lemma Listen_first:
  assumes "conFd sv = fd # fds" and "ready fd" and "0 < n" and "\<forall>j < n. 0 < acc j" and "\<forall>f \<in> set fds. \<not> ready f"
  shows "Listen (int n) err ready acc clock sv =
    Some (True,
      map (\<lambda>j. \<lparr>c_msgid = getMsgId (clock j) (msgIndex sv + word_of_nat j), c_socket = acc j, c_limits = map_of (conHandlers sv) fd\<rparr>) [0..<n],
      sv\<lparr>msgIndex := msgIndex sv + word_of_nat n\<rparr>)"
proof -
  have rest: "\<forall>x \<in> set xs. \<not> snd x \<Longrightarrow> listen_loop hs acc clock xs k res idx out = Some (idx, out)"
    for hs xs k res idx out
    by (induction xs) auto
  show ?thesis
    using assms accept_loop_all [of n acc 0 clock "map_of (conHandlers sv) fd" "msgIndex sv" "[]"]
    by (simp add: Listen_def rest)
qed

lemma accepted_ids_distinct:
  assumes "n \<le> 2 ^ 32" and "unat idx + n \<le> 2 ^ 32"
  shows "distinct (map (\<lambda>j. getMsgId (clock j) (idx + word_of_nat j)) [0..<n])"
proof -
  have small: "idx + word_of_nat j < 2 ^ 32 \<and> unat (idx + word_of_nat j) = unat idx + j" if "j < n" for j
  proof -
    have u: "unat (word_of_nat j :: uint64) = j" using that assms by (simp add: unat_of_nat)
    have "unat (idx + word_of_nat j) = unat idx + j"
      using that assms u by (subst unat_add_lem [THEN iffD1]) simp_all
    moreover from this that assms have "unat (idx + word_of_nat j) < unat (2 ^ 32 :: uint64)" by simp
    ultimately show ?thesis by (simp add: word_less_nat_alt)
  qed
  have "inj_on (\<lambda>j. getMsgId (clock j) (idx + word_of_nat j)) {0..<n}"
  proof (rule inj_onI)
    fix i j assume ij: "i \<in> {0..<n}" "j \<in> {0..<n}"
      "getMsgId (clock i) (idx + word_of_nat i) = getMsgId (clock j) (idx + word_of_nat j)"
    then have "idx + word_of_nat i = idx + word_of_nat j" using small getMsgId_inj by fastforce
    then show "i = j" using small [of i] small [of j] ij by (metis add_left_cancel atLeastLessThan_iff)
  qed
  then show ?thesis by (simp add: distinct_map)
qed

text \<open>Identifiers made from a counter that starts at \<open>idx\<close>, whatever the times.\<close>

definition ids_from :: "uint64 \<Rightarrow> connection list \<Rightarrow> bool" where
  "ids_from idx cs \<longleftrightarrow> (\<forall>k < length cs. \<exists>now. c_msgid (cs ! k) = getMsgId now (idx + word_of_nat k))"

lemma ids_from_append:
  "ids_from idx cs \<Longrightarrow> ids_from (idx + word_of_nat (length cs)) ds \<Longrightarrow> ids_from idx (cs @ ds)"
  unfolding ids_from_def
proof (intro allI impI)
  fix k
  assume c: "\<forall>k < length cs. \<exists>now. c_msgid (cs ! k) = getMsgId now (idx + word_of_nat k)"
    and d: "\<forall>k < length ds. \<exists>now. c_msgid (ds ! k) = getMsgId now (idx + word_of_nat (length cs) + word_of_nat k)"
    and k: "k < length (cs @ ds)"
  show "\<exists>now. c_msgid ((cs @ ds) ! k) = getMsgId now (idx + word_of_nat k)"
  proof (cases "k < length cs")
    case False
    moreover from this have "word_of_nat (length cs) + word_of_nat (k - length cs) = (word_of_nat k :: uint64)"
      by (metis add_diff_inverse_nat of_nat_add)
    ultimately show ?thesis using d [rule_format, of "k - length cs"] k by (simp add: nth_append add.assoc)
  qed (use c in \<open>simp add: nth_append\<close>)
qed

lemma ids_from_distinct:
  assumes "ids_from idx cs" and "unat idx + length cs \<le> 2 ^ 32"
  shows "distinct (map c_msgid cs)"
proof -
  obtain clock where c: "\<forall>k. k < length cs \<longrightarrow> c_msgid (cs ! k) = getMsgId (clock k) (idx + word_of_nat k)"
    using choice [of "\<lambda>k now. k < length cs \<longrightarrow> c_msgid (cs ! k) = getMsgId now (idx + word_of_nat k)"] assms(1)
    by (auto simp: ids_from_def)
  then have "map c_msgid cs = map (\<lambda>k. getMsgId (clock k) (idx + word_of_nat k)) [0..<length cs]"
    by (intro nth_equalityI) simp_all
  then show ?thesis using accepted_ids_distinct [of "length cs" idx clock] assms(2) by simp
qed

definition numbered :: "uint64 \<Rightarrow> connection list \<Rightarrow> uint64 \<Rightarrow> connection list \<Rightarrow> bool" where
  "numbered idx out idx' out' \<longleftrightarrow> (\<exists>new. out' = out @ new \<and> ids_from idx new \<and> idx' = idx + word_of_nat (length new))"

lemma numbered_refl: "numbered idx out idx out"
  by (simp add: numbered_def ids_from_def)

lemma numbered_trans: "numbered i a j b \<Longrightarrow> numbered j b k c \<Longrightarrow> numbered i a k c"
  by (auto simp: numbered_def add.assoc intro!: ids_from_append)

lemma numbered_one: "numbered idx out (idx + 1) (out @ [\<lparr>c_msgid = getMsgId now idx, c_socket = s, c_limits = lim\<rparr>])"
  unfolding numbered_def
  by (intro exI [of _ "[\<lparr>c_msgid = getMsgId now idx, c_socket = s, c_limits = lim\<rparr>]"]) (auto simp: ids_from_def)

lemma accept_loop_ids:
  "accept_loop acc clock lim k res idx out = Some r \<Longrightarrow> numbered idx out (fst (snd (snd r))) (snd (snd (snd r)))"
proof (erule accept_loop.raw_induct [rotated])
  fix f and acc :: "nat \<Rightarrow> int" and clock and lim :: "(nat \<times> nat) option" and k res idx out r
  assume IH: "\<And>acc clock lim k res idx out r. f acc clock lim k res idx out = Some r \<Longrightarrow>
      numbered idx out (fst (snd (snd r))) (snd (snd (snd r)))"
    and r: "(if res \<noteq> 0 then
        if 0 < acc k then
          f acc clock lim (Suc k) (res - 1) (idx + 1)
            (out @ [\<lparr>c_msgid = getMsgId (clock k) idx, c_socket = acc k, c_limits = lim\<rparr>])
        else Some (Suc k, res - 1, idx, out)
      else Some (k, res - 1, idx, out)) = Some r"
  show "numbered idx out (fst (snd (snd r))) (snd (snd (snd r)))"
  proof (cases "res \<noteq> 0 \<and> 0 < acc k")
    case True
    with r have "f acc clock lim (Suc k) (res - 1) (idx + 1)
        (out @ [\<lparr>c_msgid = getMsgId (clock k) idx, c_socket = acc k, c_limits = lim\<rparr>]) = Some r"
      by simp
    from numbered_trans [OF numbered_one IH [OF this]] show ?thesis .
  next
    case False
    then show ?thesis using r numbered_refl by (auto split: if_splits)
  qed
qed

lemma listen_loop_ids:
  "listen_loop hs acc clock fds k res idx out = Some (idx', out') \<Longrightarrow> numbered idx out idx' out'"
proof (induction hs acc clock fds k res idx out rule: listen_loop.induct)
  case (2 hs acc clock fd ready fds k res idx out)
  then show ?case
    by (auto simp: numbered_refl split: if_splits option.splits dest!: accept_loop_ids intro: numbered_trans)
qed (simp add: numbered_refl)

lemma Listen_ids: "Listen polled err ready acc clock sv = Some (ok, conns, sv') \<Longrightarrow>
    ids_from (msgIndex sv) conns \<and> msgIndex sv' = msgIndex sv + word_of_nat (length conns) \<and> conFd sv' = conFd sv \<and> conHandlers sv' = conHandlers sv"
  using numbered_refl [of "msgIndex sv" "[]"]
  by (auto simp: Listen_def numbered_def split: if_splits option.splits dest!: listen_loop_ids)

section \<open>Every listener has a handler\<close>

definition server_inv :: "server \<Rightarrow> bool" where
  "server_inv sv \<longleftrightarrow> (\<forall>fd \<in> set (conFd sv). map_of (conHandlers sv) fd \<noteq> None)"

lemma Server_inv: "server_inv Server"
  by (simp add: server_inv_def Server_def)

lemma map_of_emplace: "map_of (fst (umap_emplace (\<lambda>k. k) (=) m k v)) x = (if x = k \<and> map_of m k = None then Some v else map_of m x)"
  by (auto simp: umap_emplace_def umap_find_plain map_add_def split: option.split)

lemma AddListener_inv: "server_inv sv \<Longrightarrow> server_inv (snd (AddListener os proto listen ql hl sv))"
  by (auto simp: AddListener_def server_inv_def map_of_emplace split: option.split list.split prod.split open_result.split sum.split)

lemma Listen_inv:
  "Listen polled err ready acc clock sv = Some (r, out, sv') \<Longrightarrow> server_inv sv \<Longrightarrow> server_inv sv'"
  by (auto simp: Listen_def server_inv_def split: if_splits option.splits)

end
