(* ===== verification/Fiber_Startup.thy ===== *)
theory Fiber_Startup
  imports Fiber_ConfigView Fiber_System Fiber_Server Fiber_Router Fiber_ThreadPool
begin

text \<open>
  kernel/main/init-*.hpp and the first half of \<open>Kernel::Run\<close> (kernel/main/run.cpp): from the configuration
  to the modules, channels, routes, listeners and the thread pool.

  Loading a module, creating an object of its class and initialising it are done by the object
  framework and the modules: they are the arguments \<open>EmplaceServer\<close> (\<open>None\<close> when it throws), \<open>CreateMQ\<close> and
  \<open>init\<close>. The system calls, the files and the hardware are arguments too (record \<open>boot\<close>).
\<close>

definition ebind :: "exn + 'a \<Rightarrow> ('a \<Rightarrow> exn + 'b) \<Rightarrow> exn + 'b" where
  "ebind r f = (case r of Inl x \<Rightarrow> Inl x | Inr a \<Rightarrow> f a)"

lemma ebind_Inr: "ebind r f = Inr b \<longleftrightarrow> (\<exists>a. r = Inr a \<and> f a = Inr b)"
  by (simp add: ebind_def split: sum.split)

lemma ebind_simps [simp]: "ebind (Inl x) f = Inl x" "ebind (Inr a) f = f a"
  by (simp_all add: ebind_def)

fun efold :: "('x \<Rightarrow> 's \<Rightarrow> exn + 's) \<Rightarrow> 'x list \<Rightarrow> 's \<Rightarrow> exn + 's" where
  "efold f [] s = Inr s"
| "efold f (x # xs) s = ebind (f x s) (efold f xs)"

lemma efold_inv:
  assumes "\<And>x s s'. x \<in> set xs \<Longrightarrow> P s \<Longrightarrow> f x s = Inr s' \<Longrightarrow> P s'" and "efold f xs s = Inr s'" and "P s"
  shows "P s'"
  using assms
proof (induction xs arbitrary: s)
  case (Cons x xs)
  from Cons.prems(2) obtain t where "f x s = Inr t" "efold f xs t = Inr s'" by (auto simp: ebind_Inr)
  with Cons.prems(1,3) Cons.IH [of t] show ?case by (metis list.set_intros)
qed simp

section \<open>Modules: init-mq.hpp, init-sapi.hpp\<close>

type_synonym modules = "(string, string \<times> config_impl) umap"

text \<open>
  A section without class or module, or whose module is not accepted, reaches a \<open>throw;\<close> while no
  exception is being handled, which ends the program; the handler behind it serves only exceptions of
  \<open>EmplaceServer\<close>.
\<close>

definition load_module ::
    "(string \<Rightarrow> string \<Rightarrow> bool option) \<Rightarrow> string \<Rightarrow> string \<Rightarrow> config_impl \<Rightarrow> string \<Rightarrow> nat \<times> modules \<Rightarrow> exn + nat \<times> modules" where
  "load_module EmplaceServer kind path options mq st =
     (let mq_class = GetConfigValue (config_at options mq) ''class'' [];
          mq_module = GetConfigValue (config_at options mq) ''module'' []
      in if mq_class \<noteq> [] \<and> mq_module \<noteq> [] then
           case EmplaceServer (path @ mq_module) kind of
             None \<Rightarrow> Inr st
           | Some ok \<Rightarrow>
               if ok then Inr (Suc (fst st), fst (umap_emplace (\<lambda>k. k) (=) (snd st) mq (mq_class, config_at options mq)))
               else Inl Terminate
         else Inl Terminate)"

definition load_modules :: "(string \<Rightarrow> string \<Rightarrow> bool option) \<Rightarrow> string \<Rightarrow> config_impl \<Rightarrow> exn + nat \<times> modules" where
  "load_modules EmplaceServer kind options =
     efold (load_module EmplaceServer kind (GetConfigValue options ''modules-dir'' (GetProgramDir options)) options)
       (GetSections options) (0, [])"

definition initMQ :: "(string \<Rightarrow> string \<Rightarrow> bool option) \<Rightarrow> config_impl \<Rightarrow> exn + nat \<times> modules" where
  "initMQ EmplaceServer options = load_modules EmplaceServer ''MQ'' options"

definition initSAPI :: "(string \<Rightarrow> string \<Rightarrow> bool option) \<Rightarrow> config_impl \<Rightarrow> exn + nat \<times> modules" where
  "initSAPI EmplaceServer options = load_modules EmplaceServer ''SAPI'' options"

section \<open>Channels: init-channels.hpp\<close>

definition re_uri :: re where
  "re_uri = Seqs [Cap 1 (Plus (Chr (\<lambda>c. is_word c \<or> c = CHR ''-''))), Lit '':/'', Cap 2 (Plus (Chr is_dot))]"

definition parseUri :: "string \<Rightarrow> (string \<times> string) option" where
  "parseUri uri =
     (case regex_search re_uri uri of Some (b, e, c) \<Rightarrow> Some (cap_text uri c 1, cap_text uri c 2) | None \<Rightarrow> None)"

record channel =
  ch_mq :: string
  ch_sapi :: string
  ch_uri :: string
  ch_config :: config_impl

definition with_slash :: "string \<Rightarrow> string" where
  "with_slash uri = (if uri \<noteq> [] \<and> last uri = CHR ''/'' then uri else uri @ ''/'')"

definition add_channel ::
    "config_impl \<Rightarrow> modules \<Rightarrow> modules \<Rightarrow> string \<Rightarrow> nat \<times> (string, channel) umap \<Rightarrow> nat \<times> (string, channel) umap" where
  "add_channel options ClassesMq ClassesSAPI ch st =
     (let ch_route = GetConfigValue (config_at options ch) ''channel-endpoint'' [];
          sapi = GetConfigValue (config_at options ch) ''channel-sapi'' []
      in case (if ch_route \<noteq> [] then parseUri ch_route else None) of
           None \<Rightarrow> st
         | Some (proto, uri) \<Rightarrow>
             if map_of ClassesMq proto = None then st
             else let emplace = (\<lambda>sapi_proto.
                        (Suc (fst st), fst (umap_emplace (\<lambda>k. k) (=) (snd st) ch
                           \<lparr>ch_mq = proto, ch_sapi = sapi_proto, ch_uri = with_slash uri, ch_config = config_at options ch\<rparr>)))
                  in if sapi = [] then emplace []
                     else case parseUri sapi of
                            None \<Rightarrow> st
                          | Some (sapi_proto, sapi_uri) \<Rightarrow>
                              if map_of ClassesSAPI sapi_proto = None then st else emplace sapi_proto)"

definition initChannels :: "config_impl \<Rightarrow> modules \<Rightarrow> modules \<Rightarrow> nat \<times> (string, channel) umap" where
  "initChannels options ClassesMq ClassesSAPI =
     fold (add_channel options ClassesMq ClassesSAPI) (GetSections options) (0, [])"

section \<open>Routes: init-routes.hpp\<close>

text \<open>The channels come in the order in which the map is iterated. \<open>at\<close> throws when the class is not there.\<close>

definition add_channel_route ::
    "(string \<Rightarrow> 'm option) \<Rightarrow> (string \<Rightarrow> config_impl \<Rightarrow> 'm \<Rightarrow> bool) \<Rightarrow> modules \<Rightarrow> string \<times> channel \<Rightarrow> nat \<times> 'm routes \<Rightarrow>
     exn + nat \<times> 'm routes" where
  "add_channel_route CreateMQ init ClassesMq ch st =
     (case map_of ClassesMq (ch_mq (snd ch)) of
        None \<Rightarrow> Inl StdOutOfRange
      | Some (cls, _) \<Rightarrow>
          (case AddRoute (ch_uri (snd ch)) (CreateMQ cls) (init (fst ch) (ch_config (snd ch))) (snd st) of
             (True, rts) \<Rightarrow> Inr (Suc (fst st), rts)
           | (False, rts) \<Rightarrow> Inr (fst st, rts)))"

definition initRoutes ::
    "(string \<Rightarrow> 'm option) \<Rightarrow> (string \<Rightarrow> config_impl \<Rightarrow> 'm \<Rightarrow> bool) \<Rightarrow> (string, channel) umap \<Rightarrow> modules \<Rightarrow> exn + nat \<times> 'm routes" where
  "initRoutes CreateMQ init Channels ClassesMq = efold (add_channel_route CreateMQ init ClassesMq) Channels (0, [])"

section \<open>Listeners and workers: init-server.hpp, init-threadpool.hpp\<close>

text \<open>The two parts of the address are read for the log line too, whatever \<open>AddListener\<close> returned.\<close>

definition add_listener :: "(string \<Rightarrow> os_calls) \<Rightarrow> config_impl \<Rightarrow> string \<Rightarrow> nat \<times> server \<Rightarrow> exn + nat \<times> server" where
  "add_listener os options proto st =
     (let c = config_at options proto;
          listen = GetConfigValue c ''listen'' []
      in case AddListener (os proto) proto listen (GetConfigValue c ''query-limit'' []) (GetConfigValue c ''header-limit'' []) (snd st) of
           (Inl x, sv) \<Rightarrow> Inl x
         | (Inr Terminated, sv) \<Rightarrow> Inl Terminate
         | (Inr (Returned err), sv) \<Rightarrow>
             (case explode '':'' listen 2 of
                Some (_ # _ # _) \<Rightarrow> Inr (if err = 0 then Suc (fst st) else fst st, sv)
              | _ \<Rightarrow> Inl UndefinedBehaviour))"

definition initServer :: "(string \<Rightarrow> os_calls) \<Rightarrow> config_impl \<Rightarrow> exn + nat \<times> server" where
  "initServer os options = efold (add_listener os options) (GetSections options) (0, Server)"

definition initThreadPool :: "nat \<Rightarrow> (nat set \<Rightarrow> nat list) \<Rightarrow> config_impl \<Rightarrow> exn + 't pool" where
  "initThreadPool hw arrange options =
     ThreadPool hw arrange (GetConfigValue options ''thread-workers'' ''10'') (GetConfigValue options ''thread-limit'' ''100'')
       (GetConfigValue options ''core-bind'' ''1-8'') (GetConfigValue options ''core-exclude'' [])"

text \<open>
  What is logged about the pool: the options \<open>pool-workers\<close> and \<open>pool-max\<close>, which nothing else reads, and the cores.
\<close>

definition log_thread_pool :: "nat \<Rightarrow> config_impl \<Rightarrow> 't pool \<Rightarrow> exn + (string \<times> string) list" where
  "log_thread_pool hw options p =
     ebind (implode '', '' (map to_string (PoolWorkersBinding p))) (\<lambda>cores.
       Inr [(''thread-pool.workers'', GetConfigValue options ''pool-workers'' ''10''),
            (''thread-pool.limit'', GetConfigValue options ''pool-max'' ''100''),
            (''thread-pool.cores'', cores @ '' (hardware threads: '' @ to_string hw @ '')'')])"

lemma log_thread_pool_total:
  assumes "initThreadPool hw arrange options = Inr p"
  shows "\<exists>lines. log_thread_pool hw options p = Inr lines"
proof -
  have "PoolWorkersBinding p \<noteq> []"
    using assms by (auto simp: initThreadPool_def ThreadPool_def Hire_eq split: sum.splits if_splits)
  then show ?thesis by (simp add: log_thread_pool_def implode_def)
qed

section \<open>Start-up\<close>

record 'm boot =
  b_getopt_long :: "string list \<Rightarrow> string \<Rightarrow> long_option list \<Rightarrow> getopt_result list"
  b_getcwd :: "string option"
  b_argv :: "string list"
  b_files :: "string \<Rightarrow> (bool \<times> string list) option"
  b_EmplaceServer :: "string \<Rightarrow> string \<Rightarrow> bool option"
  b_CreateMQ :: "string \<Rightarrow> 'm option"
  b_init :: "string \<Rightarrow> config_impl \<Rightarrow> 'm \<Rightarrow> bool"
  b_os :: "string \<Rightarrow> os_calls"
  b_hw :: nat
  b_arrange :: "nat set \<Rightarrow> nat list"

record 'm services =
  fiberMQModules :: modules
  fiberSAPIModules :: modules
  fiberChannels :: "(string, channel) umap"
  fiberRouter :: "'m routes"
  fiberServer :: server
  fiberWorkers :: "connection pool"

definition at2 :: "config_impl \<Rightarrow> string \<Rightarrow> string \<Rightarrow> config_impl" where
  "at2 c a b = config_at (config_at c a) b"

definition configure :: "'m boot \<Rightarrow> exn + config_impl" where
  "configure b =
     ebind (initCmdLine (b_getopt_long b) (b_getcwd b) (b_argv b)) (\<lambda>p.
     ebind (cmd_value (programCmd p) ''config'' ''fiber.config'') (\<lambda>cfgfile.
     ebind (initConfig (b_files b cfgfile)) (\<lambda>config_data.
       Inr (ConfigImpl config_data (programDir p) (programWorkDir p) (programName p) []))))"

definition startup_from :: "'m boot \<Rightarrow> config_impl \<Rightarrow> exn + 'm services" where
  "startup_from b c =
     ebind (initMQ (b_EmplaceServer b) (at2 c ''fiber'' ''mq'')) (\<lambda>(numMQ, mqs).
     if numMQ = 0 then Inl (StdRuntimeError ''No valid MQ modules found'') else
     ebind (initSAPI (b_EmplaceServer b) (at2 c ''fiber'' ''sapi'')) (\<lambda>(numSAPI, sapis).
     case initChannels (config_at c ''channel'') mqs sapis of (numChannels, chs) \<Rightarrow>
     if numChannels = 0 then Inl (StdRuntimeError ''No valid Channels found'') else
     ebind (initRoutes (b_CreateMQ b) (b_init b) chs mqs) (\<lambda>(numRoutes, rts).
     if numRoutes = 0 then Inl (StdRuntimeError ''No valid Routes found'') else
     ebind (initServer (b_os b) (at2 c ''fiber'' ''server'')) (\<lambda>(numListeners, sv).
     if numListeners = 0 then Inl (StdRuntimeError ''No valid Listeners found'') else
     ebind (initThreadPool (b_hw b) (b_arrange b) (at2 c ''fiber'' ''pool'')) (\<lambda>p.
       Inr \<lparr>fiberMQModules = mqs, fiberSAPIModules = sapis, fiberChannels = chs, fiberRouter = rts,
            fiberServer = sv, fiberWorkers = p\<rparr>)))))"

text \<open>The handler at the end: \<open>exit(-2)\<close> for a standard exception; anything else leaves \<open>Run\<close> and ends the program.\<close>

datatype 'm startup = Started "'m services" | Exited int | Died exn

definition Startup :: "'m boot \<Rightarrow> 'm startup" where
  "Startup b =
     (case ebind (configure b) (startup_from b) of
        Inr s \<Rightarrow> Started s
      | Inl x \<Rightarrow> if is_std_exception x then Exited (-2) else Died x)"

section \<open>Endpoints\<close>

text \<open>An endpoint \<open>module:/path\<close> is read as the module and the path.\<close>

lemma parseUri_parts:
  assumes "m \<noteq> []" and "\<forall>c \<in> set m. is_word c \<or> c = CHR ''-''" and "p \<noteq> []" and "\<forall>c \<in> set p. is_dot c"
  shows "parseUri (m @ '':/'' @ p) = Some (m, p)"
proof -
  define s where "s = m @ '':/'' @ p"
  let ?i = "length m" and ?e = "length m + 2 + length p"
  have w: "first_match (Plus (Chr (\<lambda>c. is_word c \<or> c = CHR ''-''))) s 0 [] (?i, [])"
    using first_match_Plus [of 0 s m "'':/'' @ p" "\<lambda>c. is_word c \<or> c = CHR ''-''"] assms(1,2) by (simp add: s_def is_word_def)
  have l: "first_match (Lit '':/'') s ?i [(1, 0, ?i)] (?i + 2, [(1, 0, ?i)])"
    by (rule first_match_only) (simp add: s_def nth_append)
  have p: "first_match (Plus (Chr is_dot)) s (?i + 2) [(1, 0, ?i)] (?e, [(1, 0, ?i)])"
    using first_match_Plus [of "?i + 2" s p "[]" is_dot] assms(3,4) by (simp add: s_def)
  have "first_match re_uri s 0 [] (?e, [(2, ?i + 2, ?e), (1, 0, ?i)])"
    unfolding re_uri_def Seqs.simps
    by (rule first_match_Seq [OF first_match_Cap [OF w] first_match_Seq [OF l first_match_Cap [OF p]]])
  from first_match_search [OF this] show ?thesis by (simp add: parseUri_def s_def cap_text_def)
qed

section \<open>What start-up establishes\<close>

text \<open>A channel names a loaded module and its path ends in a slash.\<close>

definition channel_ok :: "modules \<Rightarrow> channel \<Rightarrow> bool" where
  "channel_ok mqs ch \<longleftrightarrow> map_of mqs (ch_mq ch) \<noteq> None \<and> ch_uri ch \<noteq> [] \<and> last (ch_uri ch) = CHR ''/''"

definition channels_ok :: "modules \<Rightarrow> nat \<times> (string, channel) umap \<Rightarrow> bool" where
  "channels_ok mqs st \<longleftrightarrow> (\<forall>(k, ch) \<in> set (snd st). channel_ok mqs ch) \<and> (0 < fst st \<longrightarrow> snd st \<noteq> [])"

lemma with_slash_last [simp]: "with_slash uri \<noteq> []" "last (with_slash uri) = CHR ''/''"
  by (simp_all add: with_slash_def)

lemma umap_emplace_set: "set (fst (umap_emplace h eq m k v)) \<subseteq> insert (k, v) (set m)"
  by (auto simp: umap_emplace_def split: option.split)

lemma umap_emplace_nonempty: "fst (umap_emplace (\<lambda>k. k) (=) m k v) \<noteq> []"
  by (auto simp: umap_emplace_def umap_find_def split: option.split)

lemma channels_ok_emplace:
  "channels_ok mqs st \<Longrightarrow> channel_ok mqs ch \<Longrightarrow> channels_ok mqs (Suc (fst st), fst (umap_emplace (\<lambda>k. k) (=) (snd st) k ch))"
  using umap_emplace_set [of "\<lambda>k. k" "(=)" "snd st" k ch] umap_emplace_nonempty [of "snd st" k ch]
  by (auto simp: channels_ok_def)

lemma add_channel_ok: "channels_ok mqs st \<Longrightarrow> channels_ok mqs (add_channel options mqs sapis ch st)"
  by (auto simp: add_channel_def Let_def channel_ok_def intro!: channels_ok_emplace split: option.split prod.split)

lemma initChannels_ok: "channels_ok mqs (initChannels options mqs sapis)"
proof -
  have "channels_ok mqs st \<Longrightarrow> channels_ok mqs (fold (add_channel options mqs sapis) xs st)" for xs st
    by (induction xs arbitrary: st) (simp_all add: add_channel_ok)
  from this [of "(0, [])" "GetSections options"] show ?thesis
    unfolding initChannels_def by (simp add: channels_ok_def)
qed

text \<open>Every class is there: the routes are set up without an exception, each under the path of a channel.\<close>

definition routes_ok :: "string set \<Rightarrow> nat \<times> 'm routes \<Rightarrow> bool" where
  "routes_ok paths st \<longleftrightarrow> fst ` set (snd st) \<subseteq> cpathstring ` paths \<and> (0 < fst st \<longrightarrow> snd st \<noteq> [])"

lemma add_channel_route_ok:
  assumes "channel_ok mqs (snd ch)" and "routes_ok paths st" and "ch_uri (snd ch) \<in> paths"
  shows "\<exists>st'. add_channel_route CreateMQ init mqs ch st = Inr st' \<and> routes_ok paths st'"
  using assms
  by (cases st) (auto simp: add_channel_route_def AddRoute_def channel_ok_def routes_ok_def split: option.split)

lemma initRoutes_ok:
  assumes "\<forall>(k, ch) \<in> set chs. channel_ok mqs ch"
  shows "\<exists>st. initRoutes CreateMQ init chs mqs = Inr st \<and> routes_ok (ch_uri ` snd ` set chs) st"
proof -
  have "\<exists>st'. efold (add_channel_route CreateMQ init mqs) xs st = Inr st' \<and> routes_ok paths st'"
    if "\<forall>x \<in> set xs. channel_ok mqs (snd x) \<and> ch_uri (snd x) \<in> paths" and "routes_ok paths st" for paths xs and st :: "nat \<times> 'a routes"
    using that
  proof (induction xs arbitrary: st)
    case (Cons x xs)
    then obtain st' where "add_channel_route CreateMQ init mqs x st = Inr st'" "routes_ok paths st'"
      using add_channel_route_ok [of mqs x paths st CreateMQ init] by auto
    with Cons.IH [of st'] Cons.prems show ?case by simp
  qed simp
  from this [of chs "ch_uri ` snd ` set chs" "(0, [])"] assms show ?thesis
    by (force simp: initRoutes_def routes_ok_def)
qed

lemma add_listener_ok:
  assumes "add_listener os options proto st = Inr st'" and "server_inv (snd st)" and "0 < fst st \<longrightarrow> conFd (snd st) \<noteq> []"
  shows "server_inv (snd st') \<and> (0 < fst st' \<longrightarrow> conFd (snd st') \<noteq> [])"
proof -
  obtain r sv where a: "AddListener (os proto) proto (GetConfigValue (config_at options proto) ''listen'' [])
      (GetConfigValue (config_at options proto) ''query-limit'' []) (GetConfigValue (config_at options proto) ''header-limit'' []) (snd st) = (r, sv)"
    by (metis surj_pair)
  have "server_inv sv" using AddListener_inv [OF assms(2)] a by (metis snd_conv)
  moreover have "conFd (snd st) \<noteq> [] \<longrightarrow> conFd sv \<noteq> []" "r = Inr (Returned 0) \<Longrightarrow> conFd sv \<noteq> []"
    using a by (auto simp: AddListener_def EPROTONOSUPPORT_def split: if_splits option.splits list.splits prod.splits open_result.splits sum.splits)
  ultimately show ?thesis
    using assms a by (auto simp: add_listener_def Let_def split: sum.splits open_result.splits option.splits list.splits if_splits)
qed

lemma initServer_ok:
  assumes "initServer os options = Inr (n, sv)"
  shows "server_inv sv \<and> (0 < n \<longrightarrow> conFd sv \<noteq> [])"
  using efold_inv [of "GetSections options" "\<lambda>st. server_inv (snd st) \<and> (0 < fst st \<longrightarrow> conFd (snd st) \<noteq> [])"
      "add_listener os options" "(0, Server)" "(n, sv)"] assms add_listener_ok Server_inv
  by (fastforce simp: initServer_def)

lemma startup_from_stages:
  assumes "startup_from b c = Inr s"
  obtains mqs sapis nc chs nr rts nl sv p where "initChannels (config_at c ''channel'') mqs sapis = (nc, chs)"
    "initRoutes (b_CreateMQ b) (b_init b) chs mqs = Inr (nr, rts)" "0 < nr"
    "initServer (b_os b) (at2 c ''fiber'' ''server'') = Inr (nl, sv)" "0 < nl"
    "initThreadPool (b_hw b) (b_arrange b) (at2 c ''fiber'' ''pool'') = Inr p"
    "fiberRouter s = rts" "fiberServer s = sv" "fiberWorkers s = p"
proof -
  from assms obtain nm mqs ns sapis where
    m: "initMQ (b_EmplaceServer b) (at2 c ''fiber'' ''mq'') = Inr (nm, mqs)" "0 < nm"
      "initSAPI (b_EmplaceServer b) (at2 c ''fiber'' ''sapi'') = Inr (ns, sapis)"
    by (fastforce simp: startup_from_def ebind_def split: sum.splits if_splits)
  obtain nc chs where e2: "initChannels (config_at c ''channel'') mqs sapis = (nc, chs)" by (metis surj_pair)
  with assms m obtain nr rts nl sv p where
    e: "initRoutes (b_CreateMQ b) (b_init b) chs mqs = Inr (nr, rts)" "0 < nr"
      "initServer (b_os b) (at2 c ''fiber'' ''server'') = Inr (nl, sv)" "0 < nl"
      "initThreadPool (b_hw b) (b_arrange b) (at2 c ''fiber'' ''pool'') = Inr p"
      "fiberRouter s = rts" "fiberServer s = sv" "fiberWorkers s = p"
    by (auto simp: startup_from_def ebind_Inr split: if_splits)
  with e2 show thesis by (rule that)
qed

text \<open>
  What the main loop finds when start-up succeeds: a route at least, all under paths with a final slash, a
  listener at least, every one with its limits, and a pool of as many idle workers as asked for.
\<close>

lemma startup_from_sound:
  assumes "startup_from b c = Inr s"
  shows "fiberRouter s \<noteq> []"
    and "\<forall>(p, mq) \<in> set (fiberRouter s). \<exists>uri. p = cpathstring uri \<and> uri \<noteq> [] \<and> last uri = CHR ''/''"
    and "server_inv (fiberServer s)" and "conFd (fiberServer s) \<noteq> []"
    and "ThreadPool (b_hw b) (b_arrange b) (GetConfigValue (at2 c ''fiber'' ''pool'') ''thread-workers'' ''10'')
      (GetConfigValue (at2 c ''fiber'' ''pool'') ''thread-limit'' ''100'') (GetConfigValue (at2 c ''fiber'' ''pool'') ''core-bind'' ''1-8'')
      (GetConfigValue (at2 c ''fiber'' ''pool'') ''core-exclude'' []) = Inr (fiberWorkers s)"
proof -
  obtain mqs sapis nc chs nr rts nl sv p where
    e2: "initChannels (config_at c ''channel'') mqs sapis = (nc, chs)" and
    e: "initRoutes (b_CreateMQ b) (b_init b) chs mqs = Inr (nr, rts)" "0 < nr"
      "initServer (b_os b) (at2 c ''fiber'' ''server'') = Inr (nl, sv)" "0 < nl"
      "initThreadPool (b_hw b) (b_arrange b) (at2 c ''fiber'' ''pool'') = Inr p"
      "fiberRouter s = rts" "fiberServer s = sv" "fiberWorkers s = p"
    by (rule startup_from_stages [OF assms])
  have chs: "\<forall>(k, ch) \<in> set chs. channel_ok mqs ch"
    using initChannels_ok [of mqs "config_at c ''channel''" sapis] e2 by (simp add: channels_ok_def)
  have r: "routes_ok (ch_uri ` snd ` set chs) (nr, rts)"
    using initRoutes_ok [OF chs, of "b_CreateMQ b" "b_init b"] e(1) by auto
  then show "fiberRouter s \<noteq> []" using e by (simp add: routes_ok_def)
  show "\<forall>(p, mq) \<in> set (fiberRouter s). \<exists>uri. p = cpathstring uri \<and> uri \<noteq> [] \<and> last uri = CHR ''/''"
  proof clarify
    fix p mq
    assume "(p, mq) \<in> set (fiberRouter s)"
    then have "p \<in> fst ` set rts" using e(6) by (metis fst_conv image_eqI)
    then have "p \<in> cpathstring ` ch_uri ` snd ` set chs" using r by (auto simp: routes_ok_def)
    then obtain k ch where "(k, ch) \<in> set chs" "p = cpathstring (ch_uri ch)" by auto
    then show "\<exists>uri. p = cpathstring uri \<and> uri \<noteq> [] \<and> last uri = CHR ''/''" using chs by (auto simp: channel_ok_def)
  qed
  show "server_inv (fiberServer s)" "conFd (fiberServer s) \<noteq> []" using initServer_ok [OF e(3)] e(4,7) by simp_all
  show "ThreadPool (b_hw b) (b_arrange b) (GetConfigValue (at2 c ''fiber'' ''pool'') ''thread-workers'' ''10'')
      (GetConfigValue (at2 c ''fiber'' ''pool'') ''thread-limit'' ''100'') (GetConfigValue (at2 c ''fiber'' ''pool'') ''core-bind'' ''1-8'')
      (GetConfigValue (at2 c ''fiber'' ''pool'') ''core-exclude'' []) = Inr (fiberWorkers s)"
    using e(5,8) by (simp add: initThreadPool_def)
qed

section \<open>Failures\<close>

definition module_rejected :: "(string \<Rightarrow> string \<Rightarrow> bool option) \<Rightarrow> string \<Rightarrow> string \<Rightarrow> config_impl \<Rightarrow> string \<Rightarrow> bool" where
  "module_rejected EmplaceServer kind path options mq \<longleftrightarrow>
     (let mq_class = GetConfigValue (config_at options mq) ''class'' [];
          mq_module = GetConfigValue (config_at options mq) ''module'' []
      in mq_class = [] \<or> mq_module = [] \<or> EmplaceServer (path @ mq_module) kind = Some False)"

text \<open>One rejected module ends the program, whatever else is configured.\<close>

lemma load_module_rejected:
  "load_module E kind path options mq st = (if module_rejected E kind path options mq then Inl Terminate else
     load_module E kind path options mq st)"
  by (auto simp: load_module_def module_rejected_def Let_def)

lemma load_module_error: "load_module E kind path options mq st = Inl x \<Longrightarrow> x = Terminate"
  by (auto simp: load_module_def Let_def split: if_splits option.splits)

lemma efold_stops:
  assumes "\<And>x s y. f x s = Inl y \<Longrightarrow> y = e" and "x \<in> set xs" and "\<And>s. f x s = Inl e"
  shows "efold f xs s = Inl e"
  using assms(2)
proof (induction xs arbitrary: s)
  case (Cons a xs)
  show ?case
  proof (cases "f a s")
    case (Inl y)
    then show ?thesis using assms(1) by simp
  next
    case (Inr t)
    then have "x \<noteq> a" using assms(3) [of s] by auto
    then show ?thesis using Cons Inr by simp
  qed
qed simp

lemma load_modules_rejected:
  assumes "mq \<in> set (GetSections options)"
    and "module_rejected E kind (GetConfigValue options ''modules-dir'' (GetProgramDir options)) options mq"
  shows "load_modules E kind options = Inl Terminate"
  unfolding load_modules_def
proof (rule efold_stops [OF _ assms(1)])
  fix x s y
  assume "load_module E kind (GetConfigValue options ''modules-dir'' (GetProgramDir options)) options x s = Inl y"
  then show "y = Terminate" by (rule load_module_error)
next
  fix s
  show "load_module E kind (GetConfigValue options ''modules-dir'' (GetProgramDir options)) options mq s = Inl Terminate"
    using assms(2) by (subst load_module_rejected) simp
qed

text \<open>
  A pool with more workers than its limit, or none, is refused with a \<open>RuntimeException\<close>, which the handler of
  \<open>Run\<close> does not catch.
\<close>

lemma initThreadPool_refused:
  assumes "stoul (GetConfigValue options ''thread-workers'' ''10'') = Inr ini"
    and "stoul (GetConfigValue options ''thread-limit'' ''100'') = Inr mx"
    and "ini = 0 \<or> mx < ini" and "0 < hw"
    and "expand (GetConfigValue options ''core-bind'' ''1-8'') = Inr ws" and "expand (GetConfigValue options ''core-exclude'' []) = Inr ex"
  shows "\<exists>x. initThreadPool hw arrange options = Inl x \<and> \<not> is_std_exception x"
  using assms
  by (auto simp: initThreadPool_def ThreadPool_def uniqCores_def pool_invalid_def throw_runtime_def split: sum.split)

text \<open>The counter of message identifiers starts at zero.\<close>

lemma AddListener_msgIndex: "msgIndex (snd (AddListener os proto listen ql hl sv)) = msgIndex sv"
  by (simp add: AddListener_def split: option.split list.split prod.split open_result.split sum.split)

lemma add_listener_msgIndex:
  assumes "add_listener os options proto st = Inr st'"
  shows "msgIndex (snd st') = msgIndex (snd st)"
  using assms AddListener_msgIndex [of "os proto" proto "GetConfigValue (config_at options proto) ''listen'' []" _ _ "snd st"]
  by (auto simp: add_listener_def Let_def split: prod.splits sum.splits open_result.splits option.splits list.splits if_splits)
    (metis snd_conv)+

lemma startup_msgIndex:
  assumes "startup_from b c = Inr s"
  shows "msgIndex (fiberServer s) = 0"
proof -
  obtain nl where "initServer (b_os b) (at2 c ''fiber'' ''server'') = Inr (nl, fiberServer s)"
    by (rule startup_from_stages [OF assms]) blast
  then show ?thesis
    using efold_inv [of "GetSections (at2 c ''fiber'' ''server'')" "\<lambda>st. msgIndex (snd st) = 0"
        "add_listener (b_os b) (at2 c ''fiber'' ''server'')" "(0, Server)" "(nl, fiberServer s)"] add_listener_msgIndex
    by (auto simp: initServer_def Server_def)
qed

end
