(* ===== verification/Fiber_Kernel.thy ===== *)
theory Fiber_Kernel
  imports Fiber_Startup Fiber_SyncQueue
begin

text \<open>
  kernel/main/run.cpp, the second half of \<open>Kernel::Run\<close>, and kernel/main/kernel.cpp: the signal handlers, the
  main loop that lets the server listen and puts every connection into the pool, and the object the
  modules get as kernel.
\<close>

section \<open>Objects and storage: kernel.cpp\<close>

definition CreateMQ :: "(string \<Rightarrow> string \<Rightarrow> 'm option) \<Rightarrow> string \<Rightarrow> 'm option" where
  "CreateMQ CreateInstance cid = CreateInstance cid ''MQ''"

definition CreateSAPI :: "(string \<Rightarrow> string \<Rightarrow> 'm option) \<Rightarrow> string \<Rightarrow> 'm option" where
  "CreateSAPI CreateInstance cid = CreateInstance cid ''SAPI''"

text \<open>\<open>Write\<close> prints its record: the text of the log line. \<open>Read\<close> has nothing to give.\<close>

definition Kernel_Write :: "string \<Rightarrow> string \<Rightarrow> string \<Rightarrow> bool \<times> string" where
  "Kernel_Write Key Name Value = (True, ''<Serialize> '' @ Key @ ''.'' @ Name @ '' = '' @ Value)"

definition Kernel_Read :: "string \<Rightarrow> (string \<times> string) option" where
  "Kernel_Read Key = None"

text \<open>\<open>n\<close> calls of \<open>Read\<close>: the records read until the first that fails.\<close>

fun read_records :: "nat \<Rightarrow> string \<Rightarrow> (string \<times> string \<times> string) list" where
  "read_records 0 Key = []"
| "read_records (Suc n) Key = (case Kernel_Read Key of None \<Rightarrow> [] | Some (i, v) \<Rightarrow> (Key, i, v) # read_records n Key)"

text \<open>A queue that is saved and restored through the kernel is restored empty, however much was written.\<close>

lemma read_records_empty: "read_records n Key = []"
  by (cases n) (simp_all add: Kernel_Read_def)

lemma kernel_restores_nothing:
  "UnSerialize (Some (read_records n (mq_name q @ ''.locked'') @ read_records n (mq_name q @ ''.message''))) q = (Inr 0, q)"
  by (simp add: UnSerialize_def read_records_empty)

section \<open>Signals: \<open>handleSignals\<close>\<close>

datatype handler = SIG_DFL | SIG_IGN | SetProcSignal | Backtrace

text \<open>
  \<open>signals_list\<close> ends in a zero. The loop counts \<open>n\<close> up to it and calls \<open>sigaction(n, \<dots>)\<close>: the index is
  used in place of the signal.
\<close>

fun handle_loop :: "'h \<Rightarrow> int list \<Rightarrow> int \<Rightarrow> (int \<Rightarrow> 'h) \<Rightarrow> int \<Rightarrow> 'h" where
  "handle_loop fn [] n t = t"
| "handle_loop fn (sig # sigs) n t = (if sig \<noteq> 0 then handle_loop fn sigs (n + 1) (set_action n fn t) else t)"

definition handleSignals :: "'h \<Rightarrow> int list \<Rightarrow> (int \<Rightarrow> 'h) \<Rightarrow> int \<Rightarrow> 'h" where
  "handleSignals fn signals t = handle_loop fn (signals @ [0]) 0 t"

definition SIGINT :: int where "SIGINT = 2"
definition SIGQUIT :: int where "SIGQUIT = 3"
definition SIGTERM :: int where "SIGTERM = 15"
definition SIGKILL :: int where "SIGKILL = 9"
definition SIGSTOP :: int where "SIGSTOP = 19"
definition SIGSEGV :: int where "SIGSEGV = 11"
definition SIGPIPE :: int where "SIGPIPE = 13"

lemmas signal_numbers = SIGINT_def SIGQUIT_def SIGTERM_def SIGKILL_def SIGSTOP_def SIGSEGV_def SIGPIPE_def

text \<open>The constructor of \<open>Server\<close> has ignored \<open>SIGPIPE\<close> before.\<close>

definition server_signals :: "(int \<Rightarrow> handler) \<Rightarrow> int \<Rightarrow> handler" where
  "server_signals t = set_action SIGPIPE SIG_IGN t"

definition run_handlers :: "int \<Rightarrow> handler" where
  "run_handlers =
     handleSignals Backtrace [SIGSEGV]
       (handleSignals SetProcSignal [SIGINT, SIGQUIT, SIGTERM, SIGKILL, SIGSTOP] (server_signals (\<lambda>_. SIG_DFL)))"

text \<open>The signals 1 to 4 get the handler: of those asked for only \<open>SIGINT\<close> and \<open>SIGQUIT\<close>.\<close>

lemma run_handlers_eq:
  "run_handlers s = (if 1 \<le> s \<and> s \<le> 4 then SetProcSignal else if s = SIGPIPE then SIG_IGN else SIG_DFL)"
  by (auto simp: run_handlers_def handleSignals_def server_signals_def signal_numbers set_action_def NSIG_def)

text \<open>
  What the handlers leave in \<open>procSignal\<close> after a sequence of signals. The default action ends the process,
  but for the signals that are ignored or stop and continue it.
\<close>

definition harmless :: "int \<Rightarrow> bool" where
  "harmless s \<longleftrightarrow> s \<in> {17, 18, 19, 20, 21, 22, 23, 28}"

fun deliver :: "(int \<Rightarrow> handler) \<Rightarrow> int list \<Rightarrow> int \<Rightarrow> int option" where
  "deliver t [] procSignal = Some procSignal"
| "deliver t (s # sigs) procSignal =
     (case t s of
        SetProcSignal \<Rightarrow> deliver t sigs s
      | SIG_IGN \<Rightarrow> deliver t sigs procSignal
      | SIG_DFL \<Rightarrow> if harmless s then deliver t sigs procSignal else None
      | Backtrace \<Rightarrow> None)"

lemma deliver_range: "deliver run_handlers sigs p = Some p' \<Longrightarrow> p' = p \<or> 1 \<le> p' \<and> p' \<le> 4"
  by (induction sigs arbitrary: p) (fastforce simp: run_handlers_eq split: if_splits handler.splits)+

section \<open>The main loop\<close>

text \<open>One round: what \<open>poll\<close> and \<open>accept\<close> do, and the signals that arrive before \<open>procSignal\<close> is read.\<close>

record tick =
  t_polled :: int
  t_errno :: int
  t_ready :: "int \<Rightarrow> bool"
  t_accept :: "nat \<Rightarrow> int"
  t_clock :: "nat \<Rightarrow> uint64"
  t_signals :: "int list"

datatype loop_end = Listening | ListenFailed | SignalExit int | Killed | Blocked

definition exit_signal :: "int \<Rightarrow> bool" where
  "exit_signal s \<longleftrightarrow> s = SIGINT \<or> s = SIGQUIT \<or> s = SIGTERM"

text \<open>
  The rounds of the loop until it is left, or until no round is left (\<open>Listening\<close>); the second component
  is what \<open>requestHandler\<close> was called with, in order. A round in which \<open>Listen\<close> does not return is \<open>Blocked\<close>.
\<close>

fun main_loop :: "tick list \<Rightarrow> int \<Rightarrow> server \<Rightarrow> loop_end \<times> connection list \<times> server" where
  "main_loop [] procSignal sv = (Listening, [], sv)"
| "main_loop (t # ts) procSignal sv =
     (case Listen (t_polled t) (t_errno t) (t_ready t) (t_accept t) (t_clock t) sv of
        None \<Rightarrow> (Blocked, [], sv)
      | Some (ok, conns, sv) \<Rightarrow>
          (case deliver run_handlers (t_signals t) procSignal of
             None \<Rightarrow> (Killed, conns, sv)
           | Some procSignal \<Rightarrow>
               if \<not> ok then (ListenFailed, conns, sv)
               else if exit_signal procSignal then (SignalExit procSignal, conns, sv)
               else (case main_loop ts procSignal sv of (r, cs, sv) \<Rightarrow> (r, conns @ cs, sv))))"

text \<open>\<open>requestHandler\<close>: every connection becomes a task of the pool.\<close>

fun enqueue_all :: "'t list \<Rightarrow> 't pool \<Rightarrow> (exn + unit) \<times> 't pool" where
  "enqueue_all [] p = (Inr (), p)"
| "enqueue_all (t # ts) p = (case Enqueue t p of (Inl x, p) \<Rightarrow> (Inl x, p) | (Inr u, p) \<Rightarrow> enqueue_all ts p)"

text \<open>\<open>SIGTERM\<close> never ends the loop: its branch is not reached.\<close>

lemma main_loop_exit:
  assumes "main_loop ts p sv = (SignalExit s, cs, sv')" and "p = 0 \<or> 1 \<le> p \<and> p \<le> 4"
  shows "s = SIGINT \<or> s = SIGQUIT"
  using assms
proof (induction ts p sv arbitrary: cs rule: main_loop.induct)
  case (2 t ts p sv)
  obtain ok conns sv1 where l: "Listen (t_polled t) (t_errno t) (t_ready t) (t_accept t) (t_clock t) sv = Some (ok, conns, sv1)"
    using 2(2) by (auto split: option.splits)
  obtain p' where d: "deliver run_handlers (t_signals t) p = Some p'" using 2(2) l by (auto split: option.splits)
  have p': "p' = 0 \<or> 1 \<le> p' \<and> p' \<le> 4" using deliver_range [OF d] 2(3) by auto
  have ok: "ok" using 2(2) l d by (cases ok) auto
  show ?case
  proof (cases "exit_signal p'")
    case True
    then show ?thesis using 2(2) l d p' ok by (auto simp: exit_signal_def signal_numbers)
  next
    case False
    then obtain cs' where "main_loop ts p' sv1 = (SignalExit s, cs', sv')"
      using 2(2) l d ok by (auto split: prod.splits)
    then show ?thesis using "2.IH" [OF l refl refl d _ False] p' ok by auto
  qed
qed simp

text \<open>The connections of all rounds have different identifiers, as long as the counter has not run over 32 bits.\<close>

lemma main_loop_ids:
  "main_loop ts p sv = (r, cs, sv') \<Longrightarrow>
     ids_from (msgIndex sv) cs \<and> msgIndex sv' = msgIndex sv + word_of_nat (length cs) \<and> conFd sv' = conFd sv \<and> conHandlers sv' = conHandlers sv"
proof (induction ts p sv arbitrary: r cs sv' rule: main_loop.induct)
  case (2 t ts p sv)
  show ?case
  proof (cases "Listen (t_polled t) (t_errno t) (t_ready t) (t_accept t) (t_clock t) sv")
    case None
    then show ?thesis using 2(2) by (auto simp: ids_from_def)
  next
    case (Some l)
    then obtain ok conns sv1 where l: "Listen (t_polled t) (t_errno t) (t_ready t) (t_accept t) (t_clock t) sv = Some (ok, conns, sv1)"
      by (cases l) auto
    note i = Listen_ids [OF l]
    show ?thesis
    proof (cases "\<exists>p'. deliver run_handlers (t_signals t) p = Some p' \<and> ok \<and> \<not> exit_signal p'")
      case False
      then have "cs = conns \<and> sv' = sv1" using 2(2) l by (auto split: option.splits if_splits)
      then show ?thesis using i by simp
    next
      case True
      then obtain p' where d: "deliver run_handlers (t_signals t) p = Some p'" "ok" "\<not> exit_signal p'" by blast
      obtain r1 cs1 sv2 where m: "main_loop ts p' sv1 = (r1, cs1, sv2)" by (metis surj_pair)
      have "cs = conns @ cs1" "sv' = sv2" using 2(2) l d m by simp_all
      moreover have "ids_from (msgIndex sv1) cs1 \<and> msgIndex sv2 = msgIndex sv1 + word_of_nat (length cs1) \<and>
          conFd sv2 = conFd sv1 \<and> conHandlers sv2 = conHandlers sv1"
        using "2.IH" [OF l refl refl d(1) _ d(3)] m d(2) by simp
      ultimately show ?thesis using i ids_from_append [of "msgIndex sv" conns cs1] by (simp add: add.assoc)
    qed
  qed
qed (auto simp: ids_from_def)

lemma main_loop_distinct:
  assumes "main_loop ts p sv = (r, cs, sv')" and "unat (msgIndex sv) + length cs \<le> 2 ^ 32"
  shows "distinct (map c_msgid cs)"
  using ids_from_distinct [OF conjunct1 [OF main_loop_ids [OF assms(1)]] assms(2)] .

text \<open>In the pool they wait in the order in which they came.\<close>

lemma enqueue_all_tasks:
  assumes "PoolYet p"
  shows "\<exists>p'. enqueue_all ts p = (Inr (), p') \<and> PoolTasks p' = PoolTasks p @ ts \<and> PoolYet p'"
  using assms
proof (induction ts arbitrary: p)
  case (Cons t ts)
  obtain p1 where "Enqueue t p = (Inr (), p1)" "PoolTasks p1 = PoolTasks p @ [t]" "PoolYet p1"
    using Cons.prems by (auto simp: Enqueue_def enqueue_section_def Let_def CheckResize_eq Hire_eq)
  with Cons.IH [of p1] show ?case by auto
qed simp

section \<open>From start to end\<close>

text \<open>
  \<open>Run\<close>: what \<open>requestHandler\<close> was called with and the services as they are afterwards. When the loop is left, the
  server is destroyed, which leaves its sockets as they are, and the pool is joined.
\<close>

datatype 'm run_result = NotStarted int | RunDied exn | Ran loop_end "connection list" "'m services"

definition loop_left :: "loop_end \<Rightarrow> bool" where
  "loop_left r \<longleftrightarrow> (case r of ListenFailed \<Rightarrow> True | SignalExit _ \<Rightarrow> True | _ \<Rightarrow> False)"

definition Run :: "'m boot \<Rightarrow> tick list \<Rightarrow> 'm run_result" where
  "Run b ts =
     (case Startup b of
        Exited n \<Rightarrow> NotStarted n
      | Died x \<Rightarrow> RunDied x
      | Started s \<Rightarrow>
          (case main_loop ts 0 (fiberServer s) of
             (r, cs, sv) \<Rightarrow>
               Ran r cs (s\<lparr>fiberServer := sv, fiberWorkers := if loop_left r then Join (fiberWorkers s) else fiberWorkers s\<rparr>)))"

text \<open>The exit status of \<open>main\<close>, once there is one.\<close>

definition main_status :: "'m boot \<Rightarrow> tick list \<Rightarrow> int option" where
  "main_status b ts =
     (case Run b ts of
        NotStarted n \<Rightarrow> Some n
      | RunDied x \<Rightarrow> None
      | Ran r cs s \<Rightarrow> if loop_left r then Some 0 else None)"

lemma Run_started:
  assumes "Run b ts = Ran r cs s"
  obtains c s0 where "startup_from b c = Inr s0" "main_loop ts 0 (fiberServer s0) = (r, cs, fiberServer s)"
    "fiberRouter s = fiberRouter s0" "fiberWorkers s = (if loop_left r then Join (fiberWorkers s0) else fiberWorkers s0)"
proof -
  obtain s0 where s0: "Startup b = Started s0" using assms by (auto simp: Run_def split: startup.splits)
  then obtain c where "startup_from b c = Inr s0" by (auto simp: Startup_def ebind_Inr split: sum.splits if_splits)
  then show thesis using that assms s0 by (auto simp: Run_def split: prod.splits)
qed

end
