(* ===== verification/Fiber_Json.thy ===== *)
theory Fiber_Json
  imports Fiber_Prelude
begin

text \<open>
  ci/json/writer.hpp: class \<open>json\<close>, which builds texts out of strings, numbers, arrays and objects. The
  overloads of \<open>toString\<close> are the constructors of \<open>json_value\<close>: arrays and objects hold texts, since
  \<open>array\<close> and \<open>object\<close> print their elements.
\<close>

section \<open>The writer\<close>

datatype json_value =
    JString string
  | JSize nat
  | JInt int
  | JArray "string list"
  | JObject "(string \<times> string) list"

definition int_to_string :: "int \<Rightarrow> string" where
  "int_to_string i = (if i < 0 then CHR ''-'' # to_string (nat (- i)) else to_string (nat i))"

definition json_member :: "string \<times> string \<Rightarrow> string" where
  "json_member p = [CHR 0x22] @ fst p @ [CHR 0x22] @ '':'' @ snd p"

text \<open>\<open>val[n]\<close> and a comma for every element but the last, then \<open>val.back()\<close>.\<close>

definition comma_list :: "string list \<Rightarrow> string" where
  "comma_list val = (if val \<noteq> [] then concat (map (\<lambda>v. v @ '','') (butlast val)) @ last val else [])"

fun json_toString :: "json_value \<Rightarrow> string" where
  "json_toString (JArray val) = ''['' @ comma_list val @ '']''"
| "json_toString (JObject val) = ''{'' @ comma_list (map json_member val) @ ''}''"
| "json_toString (JString val) = [CHR 0x27] @ val @ [CHR 0x27]"
| "json_toString (JSize val) = to_string val"
| "json_toString (JInt val) = int_to_string val"

definition json_object :: "(string \<times> json_value) list \<Rightarrow> (string \<times> string) list" where
  "json_object vals = map (\<lambda>r. (fst r, json_toString (snd r))) vals"

definition json_array :: "json_value list \<Rightarrow> string list" where
  "json_array els = map json_toString els"

text \<open>\<open>string\<close> of no elements takes the last of an empty list.\<close>

definition json_string :: "json_value list \<Rightarrow> exn + string" where
  "json_string els = (if els = [] then Inl UndefinedBehaviour else Inr (comma_list (map json_toString els)))"

section \<open>What it writes\<close>

text \<open>
  JSON texts (RFC 8259) without white space, fractions and exponents: a number has no superfluous
  zero, a string is in double quotes and holds neither quotes, backslashes nor control characters.
\<close>

definition plain_char :: "byte \<Rightarrow> bool" where
  "plain_char c \<longleftrightarrow> 32 \<le> code c \<and> c \<noteq> CHR 0x22 \<and> c \<noteq> CHR 0x5C"

inductive json_text :: "string \<Rightarrow> bool" and json_items :: "string list \<Rightarrow> bool" where
  json_nat: "json_text (to_string n)"
| json_neg: "json_text (CHR ''-'' # to_string n)"
| json_str: "\<forall>c \<in> set s. plain_char c \<Longrightarrow> json_text (CHR 0x22 # s @ [CHR 0x22])"
| json_arr: "json_items ts \<Longrightarrow> json_text (''['' @ comma_list ts @ '']'')"
| json_obj: "\<forall>k \<in> set ks. \<forall>c \<in> set k. plain_char c \<Longrightarrow> json_items ts \<Longrightarrow> length ks = length ts \<Longrightarrow>
    json_text (''{'' @ comma_list (map json_member (zip ks ts)) @ ''}'')"
| json_nil: "json_items []"
| json_cons: "json_text t \<Longrightarrow> json_items ts \<Longrightarrow> json_items (t # ts)"

lemma json_items_all: "\<forall>t \<in> set ts. json_text t \<Longrightarrow> json_items ts"
  by (induction ts) (auto intro: json_nil json_cons)

lemma to_string_head: "\<exists>c r. to_string n = c # r \<and> isdigit c"
  using to_string_nonempty [of n] to_string_digits [of n] by (cases "to_string n") auto

lemma json_text_head: "json_text t \<Longrightarrow> \<exists>c r. t = c # r \<and> (isdigit c \<or> c \<in> set [CHR ''-'', CHR 0x22, CHR ''['', CHR ''{''])"
  by (erule json_text.cases) (use to_string_head in fastforce)+

text \<open>The keys are plain and no string is printed: then what the writer builds of JSON texts is a JSON text.\<close>

fun json_ok :: "json_value \<Rightarrow> bool" where
  "json_ok (JArray val) = (\<forall>t \<in> set val. json_text t)"
| "json_ok (JObject val) = (\<forall>(k, t) \<in> set val. json_text t \<and> (\<forall>c \<in> set k. plain_char c))"
| "json_ok (JString val) = False"
| "json_ok (JSize val) = True"
| "json_ok (JInt val) = True"

lemma json_toString_sound: "json_ok v \<Longrightarrow> json_text (json_toString v)"
proof (cases v)
  case (JArray val)
  moreover assume "json_ok v"
  ultimately show ?thesis using json_arr [of val] json_items_all [of val] by simp
next
  case (JObject val)
  moreover assume ok: "json_ok v"
  moreover have "map json_member val = map json_member (zip (map fst val) (map snd val))" by (simp add: zip_map_fst_snd)
  moreover have "json_items (map snd val)" "\<forall>k \<in> set (map fst val). \<forall>c \<in> set k. plain_char c"
    using ok JObject by (force intro!: json_items_all)+
  ultimately show ?thesis using json_obj [of "map fst val" "map snd val"] by simp
qed (auto simp: int_to_string_def intro: json_nat json_neg)

text \<open>A string is put in single quotes, which is never JSON.\<close>

lemma json_toString_string: "\<not> json_text (json_toString (JString s))"
  by (auto simp: isdigit_def dest!: json_text_head)

lemma json_toString_complete: "v = JSize n \<or> v = JInt i \<or> v = JString s \<Longrightarrow> json_text (json_toString v) = json_ok v"
  using json_toString_sound [of v] json_toString_string [of s] by auto

end
