(* ===== verification/Fiber_Samples.thy ===== *)
theory Fiber_Samples
  imports Fiber_Traffic Fiber_SapiThreads Fiber_PoolJoin Fiber_Kernel Fiber_Json
begin

text \<open>
  Concrete environments, connections, queues, configurations and pools, small enough to be computed with: the
  inputs on which the properties are instantiated.
\<close>

section \<open>Sample objects\<close>

text \<open>A small concrete environment and exchange, on which the properties are instantiated.\<close>

definition sample_env :: env where
  "sample_env =
     \<lparr>e_send = (\<lambda>evs fd bs. int (length bs)), e_now = int, e_strerror = (\<lambda>_. []), e_stale = (\<lambda>k t. Some t), e_rank = (\<lambda>_. 0)\<rparr>"

definition sample_http :: "int \<Rightarrow> uint64 \<Rightarrow> string \<Rightarrow> (string \<times> string) list \<Rightarrow> http_impl" where
  "sample_http fd mid content hs =
     (fst (HttpImpl sample_env \<lparr>events = [], ticks = 0\<rparr> CAddress_default 0 mid fd
             \<lparr>ss_family = AF_INET, sin_port = 0, s_addr = 16777343, u6_addr32 = [0, 0, 0, 0]\<rparr> 1024 512))
       \<lparr>Request := empty_request\<lparr>ReqContent := zstring content, Headers := map (\<lambda>(k, v). (zstring k, zstring v)) hs\<rparr>\<rparr>"

definition sample_world :: world where
  "sample_world =
     \<lparr>heap = (\<lambda>r. \<lparr>Http = (if r = 1 then sample_http 5 7 ''ping'' [] else sample_http 6 9 ''pong'' [(''x-msg-forward-uid'', '' 7'')]),
                 HeaderMap = []\<rparr>),
      sockets = \<lparr>events = [], ticks = 0\<rparr>\<rparr>"

definition sample_queue :: sync_queue where
  "sample_queue =
     \<lparr>mq_queue = [7], mq_locked = [], mq_messages = [(7, 1)], LimitTasks = 0, LimitSize = 2, LimitPeriodSec = 0, mq_name = ''q''\<rparr>"

lemma sample_env_ok: "sends_all sample_env" "readable sample_env"
  by (simp_all add: sends_all_def readable_def sample_env_def)

lemma sample_http_sel [simp]:
  "ReqContent (Request (sample_http fd mid c hs)) = zstring c"
  "Headers (Request (sample_http fd mid c hs)) = map (\<lambda>(k, v). (zstring k, zstring v)) hs"
  "MsgId (sample_http fd mid c hs) = mid" "Handle (sample_http fd mid c hs) = fd"
  by (simp_all add: sample_http_def HttpImpl_def timestamp_def)

lemma sample_requests:
  "headers_wf (heap sample_world r)"
  "body_ok (ReqContent (Request (Http (heap sample_world r))))"
  "option_of (heap sample_world 2) ''X-MSG-FORWARD-UID'' None = zstring '' 7''"
  by (simp_all add: headers_wf_def header_cached_def sample_world_def body_ok_def zstring_def zslice_def zwf_def option_of_def
      header_lookup_def icase_eq upcase_code_def zbytes_def)

definition bad_world :: world where
  "bad_world =
     \<lparr>heap = (\<lambda>r. \<lparr>Http = sample_http 6 9 ''pong'' [(''x-msg-forward-uid'', ''seven'')], HeaderMap = []\<rparr>),
      sockets = \<lparr>events = [], ticks = 0\<rparr>\<rparr>"

lemma bad_request:
  "headers_wf (heap bad_world r)"
  "zbytes (option_of (heap bad_world r) ''X-MSG-FORWARD-UID'' None) = ''seven''"
  "stoul ''seven'' = Inl StdInvalidArgument"
  by (simp_all add: headers_wf_def header_cached_def bad_world_def zstring_def zslice_def zwf_def option_of_def
      header_lookup_def icase_eq upcase_code_def zbytes_def stoul_def c_str_def NUL_def isspace_def stoul_sign_def isdigit_def)

lemma sample_number: "to_string 7 = ''7''"
  by code_simp

lemma sample_queue_exact: "sq_exact sample_queue"
  by (simp add: sq_exact_def sq_inv_def sample_queue_def)

text \<open>A request in a buffer, and a configuration with one queue, one channel, one listener and a pool of two workers.\<close>

definition sample_buffer :: "string \<Rightarrow> read_buffer" where
  "sample_buffer s = \<lparr>dataLength = length s, dataPartLength = length s, dataBuffer = Some s\<rparr>"

lemma sample_buffer_holds: "holds (sample_buffer (h @ b)) (h @ b)" "head_fits (sample_buffer (h @ b)) (length h)"
  by (simp_all add: sample_buffer_def holds_def head_fits_def)

definition sample_boot :: "nat boot" where
  "sample_boot =
     \<lparr>b_getopt_long = (\<lambda>_ _ _. []), b_getcwd = Some ''/srv'', b_argv = [''./fiber''], b_files = (\<lambda>f. None),
      b_EmplaceServer = (\<lambda>_ _. Some True), b_CreateMQ = (\<lambda>_. Some 0), b_init = (\<lambda>_ _ _. True),
      b_os = (\<lambda>_. \<lparr>os_socket = (5, 0), os_reuseaddr = 0, os_bindtodevice = (\<lambda>_. 0), os_bind = (\<lambda>_. 0), os_listen = (\<lambda>_. 0)\<rparr>),
      b_hw = 4, b_arrange = sorted_list_of_set\<rparr>"
definition sample_config :: config_impl where
  "sample_config =
    \<lparr>configValues =
      [(''fiber.mq'', ([''sync''], [])), (''fiber.mq.sync'', ([], [(''class'', ''Q''), (''module'', ''mq.so'')])),
       (''fiber.server'', ([''http''], [])), (''fiber.server.http'', ([], [(''listen'', '':80'')])),
       (''fiber.pool'', ([], [(''thread-workers'', ''2''), (''core-bind'', [])])),
       (''channel'', ([''a''], [])), (''channel.a'', ([], [(''channel-endpoint'', ''sync:/a'')]))],
     space = [], progDir = [], progWorkDir = [], progName = []\<rparr>"

lemmas sample_lookup = GetConfigValue_def GetSections_def config_at_def at2_def sample_config_def last_dot_def

lemma sample_stages:
  "initMQ (b_EmplaceServer sample_boot) (at2 sample_config ''fiber'' ''mq'') =
     Inr (1, [(''sync'', (''Q'', config_at (at2 sample_config ''fiber'' ''mq'') ''sync''))])"
  "initSAPI (b_EmplaceServer sample_boot) (at2 sample_config ''fiber'' ''sapi'') = Inr (0, [])"
  by (simp_all add: initMQ_def initSAPI_def load_modules_def load_module_def sample_lookup sample_boot_def Let_def
      umap_emplace_def umap_find_def)

lemma sample_channel:
  "initChannels (config_at sample_config ''channel'') [(''sync'', (''Q'', c))] [] =
     (1, [(''a'', \<lparr>ch_mq = ''sync'', ch_sapi = [], ch_uri = ''a/'', ch_config = config_at (config_at sample_config ''channel'') ''a''\<rparr>)])"
  using parseUri_parts [of "''sync''" "''a''"]
  by (simp add: initChannels_def add_channel_def sample_lookup Let_def umap_emplace_def umap_find_def is_word_def is_dot_def LF_def CR_def
      with_slash_def)

lemma sample_listener: "explode '':'' '':80'' 2 = Some [[], ''80'']"
  by code_simp

lemma sample_numbers: "stoul ''2'' = Inr 2" "stoul ''100'' = Inr 100" "stoi ''80'' = Inr 80" "stoul ''0'' = Inr 0"
  by (simp_all add: stoul_def stoi_def stol_def c_str_def NUL_def isspace_def stoul_sign_def isdigit_def dec_val_def)
lemma sample_one: "stoul ''1'' = Inr 1"
  by (simp add: stoul_def c_str_def NUL_def isspace_def stoul_sign_def isdigit_def dec_val_def)

lemma sample_expand: "expand [] = Inr {}"
  by (simp add: expand_def explode_def)

lemma sample_server:
  "initServer (b_os sample_boot) (at2 sample_config ''fiber'' ''server'') =
     Inr (1, \<lparr>msgIndex = 0, conHandlers = [(5, (1048576, 8192))], conFd = [5]\<rparr>)"
  using sample_listener sample_numbers(3)
  by (simp add: initServer_def add_listener_def sample_lookup sample_boot_def Let_def AddListener_def Server_def match_values_def
      icase_eq upcase_code_def Open_def get_bytes_def umap_emplace_def umap_find_def)

lemma sample_pool:
  "initThreadPool (b_hw sample_boot) (b_arrange sample_boot) (at2 sample_config ''fiber'' ''pool'') =
     Inr (Hire 2 sPersistent
       \<lparr>PoolYet = True, PoolInitWorkers = 2, PoolMaxWorkers = 100, PoolIndexWorkers = 0, PoolBusyWorkers = 0,
        PoolWorkers = [], PoolTasks = [], PoolWorkersBinding = [0, 1, 2, 3]\<rparr>)"
  using sample_numbers sample_expand
  by (simp add: initThreadPool_def ThreadPool_def sample_lookup sample_boot_def uniqCores_def upt_rec eval_nat_numeral)

lemma sample_boot_sel: "b_CreateMQ sample_boot c = Some 0" "b_init sample_boot n cf m"
  by (simp_all add: sample_boot_def)

lemma sample_startup: "\<exists>s. startup_from sample_boot sample_config = Inr s \<and> length (fiberRouter s) = 1"
  by (simp add: startup_from_def initRoutes_def add_channel_route_def AddRoute_def cpathstring_plain NUL_def sample_stages sample_channel sample_server sample_pool sample_boot_sel)

definition sample_accepting :: "connection pool" where
  "sample_accepting =
     Hire 2 sPersistent
       \<lparr>PoolYet = True, PoolInitWorkers = 2, PoolMaxWorkers = 100, PoolIndexWorkers = 0, PoolBusyWorkers = 0,
        PoolWorkers = [], PoolTasks = [], PoolWorkersBinding = [0, 1, 2, 3]\<rparr>"

lemma sample_services:
  "\<exists>s. startup_from sample_boot sample_config = Inr s \<and>
     fiberServer s = \<lparr>msgIndex = 0, conHandlers = [(5, (1048576, 8192))], conFd = [5]\<rparr> \<and> fiberWorkers s = sample_accepting"
  by (simp add: startup_from_def initRoutes_def add_channel_route_def AddRoute_def sample_stages sample_channel sample_server sample_pool
      sample_boot_sel sample_accepting_def)

lemma sample_fresh:
  "Raw (sample_http fd mid c hs) = ReadBufferImpl 0" "request_wf (Request (sample_http fd mid c []))"
  "MaxHeaderLength (sample_http fd mid c hs) \<le> MaxRequestLength (sample_http fd mid c hs)"
  by (simp_all add: sample_http_def HttpImpl_def timestamp_def request_wf_def empty_request_def)

lemma sample_rejected: "\<exists>x w'. http_process sample_env (\<lambda>_. (Inl 110, None)) (\<lambda>_. NUL) 1 sample_world = (Inl x, w')"
proof -
  let ?h = "Http (heap sample_world 1)"
  obtain r h' n' where p: "Process sample_env (\<lambda>_. (Inl 110, None)) (\<lambda>_. NUL) ?h (sockets sample_world) = (r, h', n')"
    by (metis surj_pair)
  have "read_loop (\<lambda>_. (Inl 110, None)) 0 m b d 0 = (110, b, d)" for m b d by (subst read_loop.simps) simp
  then have "\<exists>x. r = Inl x"
    using p by (auto simp: Process_def Read_def reply_then_throw_def Let_def split: prod.splits sum.splits)
  then show ?thesis using p by (auto simp: http_process_def)
qed

definition sample_workers :: "nat pool" where
  "sample_workers =
     Hire 2 sPersistent
       \<lparr>PoolYet = True, PoolInitWorkers = 2, PoolMaxWorkers = 100, PoolIndexWorkers = 0, PoolBusyWorkers = 0,
        PoolWorkers = [], PoolTasks = [], PoolWorkersBinding = [0, 1, 2, 3]\<rparr>"

lemma sample_thread_pool: "ThreadPool 4 sorted_list_of_set ''2'' ''100'' [] [] = Inr sample_workers"
  using sample_numbers sample_expand by (simp add: ThreadPool_def uniqCores_def upt_rec eval_nat_numeral sample_workers_def)

text \<open>
  A pool of one persistent worker and at most two: a task that is already running when the pool is resized brings
  the second worker, which finds no task and leaves.
\<close>

definition small_pool :: "nat pool" where
  "small_pool =
     \<lparr>PoolYet = True, PoolInitWorkers = 1, PoolMaxWorkers = 2, PoolIndexWorkers = 1, PoolBusyWorkers = 0,
      PoolWorkers = [(0, sPersistent)], PoolTasks = [], PoolWorkersBinding = [0, 1, 2, 3]\<rparr>"

lemma small_thread_pool: "ThreadPool 4 sorted_list_of_set ''1'' ''2'' [] [] = Inr small_pool"
  using sample_numbers sample_expand sample_one
  by (simp add: ThreadPool_def uniqCores_def upt_rec eval_nat_numeral small_pool_def)

lemma small_pool_left:
  "\<exists>s. reach (pstep True) (pool_start small_pool) s \<and> PoolWorkers (pl s) = [(0, sPersistent), (1, sExtended)] \<and>
     PoolMaxWorkers (pl s) = 2 \<and> wpcs s 1 = WGone"
proof -
  let ?s0 = "pool_start small_pool"
  let ?s1 = "?s0\<lparr>pl := small_pool\<lparr>PoolTasks := [9]\<rparr>, snap := Some (1, 1), enqueued := [9]\<rparr>"
  let ?s2 = "?s1\<lparr>pl := small_pool, wpcs := (\<lambda>_. WWait)(0 := WTaken 9), started := [9]\<rparr>"
  let ?s3 = "?s2\<lparr>pl := small_pool\<lparr>PoolBusyWorkers := 1\<rparr>, wpcs := (\<lambda>_. WWait)(0 := WRun 9)\<rparr>"
  let ?p4 = "small_pool\<lparr>PoolBusyWorkers := 1, PoolWorkers := [(0, sPersistent), (1, sExtended)], PoolIndexWorkers := 2\<rparr>"
  let ?s4 = "?s3\<lparr>pl := ?p4, snap := None\<rparr>"
  let ?s5 = "?s4\<lparr>pl := ?p4, wpcs := ((\<lambda>_. WWait)(0 := WRun 9))(1 := WGone)\<rparr>"
  have "pstep True ?s0 ?s1"
    using p_enqueue [of ?s0 9 "(1, 1)" "small_pool\<lparr>PoolTasks := [9]\<rparr>" True]
    by (simp add: pool_start_def enqueue_section_def small_pool_def)
  moreover have "pstep True ?s1 ?s2"
    using p_take [of 0 sPersistent ?s1 9 "[]" True] by (simp add: pool_start_def small_pool_def)
  moreover have "pstep True ?s2 ?s3"
    using p_busy [of ?s2 0 9 True] by (simp add: pool_start_def small_pool_def)
  moreover have "CheckResize 1 1 (small_pool\<lparr>PoolBusyWorkers := 1\<rparr>) = ?p4"
    by (simp add: CheckResize_def NewWorkerCount_def u64_def small_pool_def Let_def)
  then have "pstep True ?s3 ?s4" using p_resize [of ?s3 1 1 True] by simp
  moreover have "pstep True ?s4 ?s5"
    using p_leave [of 1 ?s4 True] by (simp add: pool_start_def small_pool_def leave_pool_def)
  ultimately have "reach (pstep True) ?s0 ?s5" by (meson reach_init reach_step)
  then show ?thesis by (intro exI [of _ ?s5]) (simp add: small_pool_def)
qed

definition sample_sapi :: sync_sapi where
  "sample_sapi =
     \<lparr>sx_working = True, sx_workers = 0, sx_queue = [], sx_messages = [], sx_class = [], sx_script = [], sx_name = ''s'',
      sx_LimitTasks = 1, sx_LimitSize = 0, sx_LimitPeriodSec = 0\<rparr>"

text \<open>One ready listener with one connection, and a round in which nothing happens but signals.\<close>

definition sample_tick :: "int list \<Rightarrow> tick" where
  "sample_tick sigs =
     \<lparr>t_polled = 1, t_errno = 0, t_ready = (\<lambda>_. True), t_accept = (\<lambda>_. 9), t_clock = (\<lambda>_. 1), t_signals = sigs\<rparr>"

definition idle_tick :: "int list \<Rightarrow> tick" where
  "idle_tick sigs = (sample_tick sigs)\<lparr>t_polled := 0\<rparr>"

definition sample_server_state :: server where
  "sample_server_state = \<lparr>msgIndex = 0, conHandlers = [(5, (1048576, 8192))], conFd = [5]\<rparr>"

lemma sample_round:
  "\<exists>c. main_loop [sample_tick []] 0 sample_server_state = (Listening, [c], sample_server_state\<lparr>msgIndex := 1\<rparr>)"
  using Listen_first [of sample_server_state 5 "[]" "\<lambda>_. True" 1 "\<lambda>_. 9" 0 "\<lambda>_. 1"]
  by (auto simp: sample_server_state_def sample_tick_def exit_signal_def SIGINT_def SIGQUIT_def SIGTERM_def)

lemma sample_rounds:
  "\<exists>r cs sv'. main_loop [sample_tick [], sample_tick []] 0 sample_server_state = (r, cs, sv') \<and> length cs = 2"
proof -
  have l: "\<exists>c. Listen 1 0 (\<lambda>_. True) (\<lambda>_. 9) (\<lambda>_. 1) sv = Some (True, [c], sv\<lparr>msgIndex := msgIndex sv + 1\<rparr>)" if "conFd sv = [5]" for sv
    using Listen_first [of sv 5 "[]" "\<lambda>_. True" 1 "\<lambda>_. 9" 0 "\<lambda>_. 1"] that by simp
  from l [of sample_server_state] obtain c where
    c: "Listen 1 0 (\<lambda>_. True) (\<lambda>_. 9) (\<lambda>_. 1) sample_server_state = Some (True, [c], sample_server_state\<lparr>msgIndex := 1\<rparr>)"
    by (auto simp: sample_server_state_def)
  from l [of "sample_server_state\<lparr>msgIndex := 1\<rparr>"] obtain d sv where
    "Listen 1 0 (\<lambda>_. True) (\<lambda>_. 9) (\<lambda>_. 1) (sample_server_state\<lparr>msgIndex := 1\<rparr>) = Some (True, [d], sv)"
    by (auto simp: sample_server_state_def)
  with c show ?thesis by (simp add: sample_tick_def exit_signal_def SIGINT_def SIGQUIT_def SIGTERM_def)
qed

text \<open>A configuration whose only queue module has no class.\<close>

definition broken_boot :: "nat boot" where
  "broken_boot = sample_boot\<lparr>b_files := (\<lambda>_. Some (True, [''[fiber]'', ''[[mq]]'', ''[[[sync]]]'']))\<rparr>"

definition broken_config :: config_impl where
  "broken_config =
     \<lparr>configValues = [(''fiber'', ([''mq''], [])), ([], ([''fiber''], [])), (''fiber.mq'', ([''sync''], [])), (''fiber.mq.sync'', ([], []))],
      space = [], progDir = ''./'', progWorkDir = ''/srv/'', progName = ''fiber''\<rparr>"

lemma broken_lines: "config_lines True [''[fiber]'', ''[[mq]]'', ''[[[sync]]]''] ([], []) =
   Inr ([''fiber'', ''mq'', ''sync''], [(''fiber'', ([''mq''], [])), ([], ([''fiber''], [])), (''fiber.mq'', ([''sync''], [])), (''fiber.mq.sync'', ([], []))])"
proof -
  have n: "section_name ''fiber''" "section_name ''mq''" "section_name ''sync''"
    by (simp_all add: section_name_def config_char_def is_dot_def LF_def CR_def isspace_def)
  have r: "remove_comment ''fiber'' = ''fiber''" "remove_comment ''mq'' = ''mq''" "remove_comment ''sync'' = ''sync''"
    by (simp_all add: remove_comment_none)
  have e: "''[fiber]'' = replicate 1 (CHR ''['') @ ''fiber'' @ replicate 1 (CHR '']'')"
    "''[[mq]]'' = replicate 2 (CHR ''['') @ ''mq'' @ replicate 2 (CHR '']'')"
    "''[[[sync]]]'' = replicate 3 (CHR ''['') @ ''sync'' @ replicate 3 (CHR '']'')"
    by (simp_all add: numeral_2_eq_2 numeral_3_eq_3)
  have l: "config_line ''[fiber]'' st = Inr (enter_section 1 ''fiber'' st)" "config_line ''[[mq]]'' st = Inr (enter_section 2 ''mq'' st)"
    "config_line ''[[[sync]]]'' st = Inr (enter_section 3 ''sync'' st)" for st
    unfolding e by (rule config_line_section [OF _ _ n(1)] config_line_section [OF _ _ n(2)] config_line_section [OF _ _ n(3)]; simp)+
  have c: "config_lines True (l # ls) st = (case config_line l st of Inl x \<Rightarrow> Inl x | Inr st \<Rightarrow> config_lines True ls st)"
    if "l \<in> set [''[fiber]'', ''[[mq]]'', ''[[[sync]]]'']" for l ls st
    using that by (intro no_continuation) auto
  have "config_lines True [''[fiber]'', ''[[mq]]'', ''[[[sync]]]''] ([], []) =
     Inr (enter_section 3 ''sync'' (enter_section 2 ''mq'' (enter_section 1 ''fiber'' ([], []))))"
    by (subst c, simp, subst l, subst sum.case, subst c, simp, subst l, subst sum.case, subst c, simp, subst l) simp
  then show ?thesis
    by (simp add: enter_section_def r section_parent_def Let_def
        implode_config_path_def config_emplace_def umap_emplace_def umap_find_def umap_hit_def config_update_def)
qed

lemma broken_configure: "configure broken_boot = Inr broken_config"
  using broken_lines
  by (simp add: ConfigImpl_def configure_def initCmdLine_def cwd_def PATH_MAX_def cmd_options_def config_options_map broken_boot_def sample_boot_def
      cmd_value_def umap_find_def Let_def program_dir_def after_last_slash_def initConfig_def del: config_lines.simps)
    (simp add: ConfigImpl_def broken_config_def)

lemma execute_reply_sent:
  assumes "sends_all e" and "readable e"
  shows "\<exists>s'. execute_reply (RequestImpl e qy) req s = (Inr (), s')"
proof (cases req)
  case (Some r)
  let ?a = "sapi_reply (fst s) 200 None ''{}'' [(''XSample-HEADER'', Live ''909'')] ''application/json''"
  have "content_length ?a = Inr 2" "content_bytes ?a = Inr ''{}''" "rClose ?a"
    by (simp_all add: sapi_reply_def content_length_def content_bytes_def)
  from RequestImpl_Reply_sent [OF assms this] obtain w' where "RequestImpl_Reply e r ?a (snd s) = (Inr True, w')" by blast
  then show ?thesis using Some by (simp add: execute_reply_def SapiReplyWithCode_def ignoring_eq on_snd_def as_unit_def)
qed (simp add: execute_reply_def)

section \<open>Three connections\<close>

text \<open>The connections 1, 2 and 3, just accepted, and a request for the target \<open>/q\<close> that arrives in one piece.\<close>

definition sample_accepted :: world where
  "sample_accepted =
     \<lparr>heap = (\<lambda>r. \<lparr>Http = fst (HttpImpl sample_env \<lparr>events = [], ticks = 0\<rparr> CAddress_default 0 (word_of_nat (r + 6)) (int r + 4)
                   \<lparr>ss_family = AF_INET, sin_port = 0, s_addr = 16777343, u6_addr32 = [0, 0, 0, 0]\<rparr> 1024 512),
                 HeaderMap = []\<rparr>),
      sockets = \<lparr>events = [], ticks = 0\<rparr>\<rparr>"

definition sample_wire :: "nat \<Rightarrow> (string \<times> string) list \<Rightarrow> string \<Rightarrow> wire" where
  "sample_wire meth hs body =
     \<lparr>x_method = meth, x_uri = ''/q'', x_version = ''HTTP/1.1'', x_headers = hs, x_last = (''Accept'', '' *''), x_body = body\<rparr>"

definition in_one_piece :: "wire \<Rightarrow> nat \<Rightarrow> recv_step" where
  "in_one_piece x i = (Inr (wire_head x @ x_body x), Some 0)"

lemma sample_accepted_sel [simp]:
  "Handle (Http (heap sample_accepted r)) = int r + 4" "MsgId (Http (heap sample_accepted r)) = word_of_nat (r + 6)"
  "events (sockets sample_accepted) = []"
  by (simp_all add: sample_accepted_def HttpImpl_def timestamp_def)

lemma sample_awaits:
  assumes "length (wire_head x) \<le> 512" and "length (wire_head x @ x_body x) < 1024"
  shows "awaits x (heap sample_accepted r)"
  using assms by (auto simp: awaits_def sample_accepted_def HttpImpl_def timestamp_def)

lemma sample_reception: "wire_ok x \<Longrightarrow> reception x (in_one_piece x)"
  unfolding reception_def
  by (intro conjI exI [of _ "[wire_head x @ x_body x]"]) (auto simp: in_one_piece_def wire_head_def head_text_def CRLF_def)

lemma sample_route: "route_find 0 [(''/q'', mq)] ''/q'' = Some mq"
  by (simp add: route_find_def route_hits_def)

lemma sample_wires:
  assumes "(meth, hs, body) \<in> {(2, [], ''ping''), (0, [], []), (3, [], []), (1, [(''X-Msg-Forward-Uid'', '' 7'')], ''pong'')}"
  shows "wire_ok (sample_wire meth hs body)" "awaits (sample_wire meth hs body) (heap sample_accepted r)"
proof -
  show "wire_ok (sample_wire meth hs body)"
    using assms by (auto simp: wire_ok_def sample_wire_def RequestMethods_def target_ok_def no_eol_def header_ok_def CR_def LF_def TAB_def)
  show "awaits (sample_wire meth hs body) (heap sample_accepted r)"
    using assms by (intro sample_awaits)
      (auto simp: sample_wire_def wire_head_def head_text_def first_line_def headers_text_def header_text_def RequestMethods_def CRLF_def)
qed

lemma sample_uid: "wire_option (sample_wire 1 [(''X-Msg-Forward-Uid'', '' 7'')] ''pong'') ''X-MSG-FORWARD-UID'' = Some '' 7''"
  by (simp add: wire_option_def sample_wire_def icase_eq upcase_code_def)

text \<open>
  Five requests to one queue: a client's \<open>PUT\<close>, a \<open>HEAD\<close>, a worker's \<open>GET\<close>, its \<open>POST\<close>, and the same \<open>POST\<close> once more.
\<close>

definition sample_arrival :: "reqref \<Rightarrow> wire \<Rightarrow> arrival" where
  "sample_arrival r x = \<lparr>a_ref = r, a_wire = x, a_rcv = in_one_piece x, a_fresh = (\<lambda>_. NUL)\<rparr>"

definition sample_traffic :: "arrival list" where
  "sample_traffic =
     [sample_arrival 1 (sample_wire 2 [] ''ping''), sample_arrival 2 (sample_wire 3 [] []), sample_arrival 3 (sample_wire 0 [] []),
      sample_arrival 4 (sample_wire 1 [(''X-Msg-Forward-Uid'', '' 7'')] ''pong''),
      sample_arrival 5 (sample_wire 1 [(''X-Msg-Forward-Uid'', '' 7'')] ''pong'')]"

lemma sample_wire_uid: "wire_uid (sample_wire 1 [(''X-Msg-Forward-Uid'', '' 7'')] ''pong'') = Uid 7"
  by (rule wire_uid_printed [OF sample_uid]) (simp add: isspace_def sample_number)

lemma sample_arrives:
  assumes "(meth, hs, body) \<in> {(2, [], ''ping''), (0, [], []), (3, [], []), (1, [(''X-Msg-Forward-Uid'', '' 7'')], ''pong'')}"
  shows "arrives (sample_arrival r (sample_wire meth hs body)) sample_accepted"
  using assms sample_reception [OF sample_wires(1) [OF assms]] sample_wires(2) [OF assms]
  by (auto simp: arrives_def sample_arrival_def sample_wire_def)

lemma sample_traffic_fresh: "fresh_arrivals sample_traffic (new_queue lt ls lp) sample_accepted"
proof -
  have refs: "map a_ref sample_traffic = [1, 2, 3, 4, 5]" by (simp add: sample_traffic_def sample_arrival_def)
  have ids: "map (\<lambda>a. id_of sample_accepted (a_ref a)) sample_traffic = [7, 8, 9, 10, 11]"
    by (simp add: sample_traffic_def sample_arrival_def)
  have a: "arrives (sample_arrival r (sample_wire 2 [] ''ping'')) sample_accepted" "arrives (sample_arrival r (sample_wire 3 [] [])) sample_accepted"
    "arrives (sample_arrival r (sample_wire 0 [] [])) sample_accepted"
    "arrives (sample_arrival r (sample_wire 1 [(''X-Msg-Forward-Uid'', '' 7'')] ''pong'')) sample_accepted" for r
    by (rule sample_arrives, simp)+
  have "\<forall>a \<in> set sample_traffic. arrives a sample_accepted"
    unfolding sample_traffic_def using a by (simp only: list.set ball_simps simp_thms)
  moreover have "refs_of (new_queue lt ls lp) = {}" "ids_of (new_queue lt ls lp) = {}" by (simp_all add: new_queue_def)
  ultimately show ?thesis unfolding fresh_arrivals_def refs ids by simp
qed

lemma sample_ask:
  "ask_of sample_accepted (sample_arrival r (sample_wire 2 hs body)) = AskPut (word_of_nat (r + 6)) (int r + 4) body"
  "ask_of sample_accepted (sample_arrival r (sample_wire 3 hs body)) = AskHead (int r + 4)"
  "ask_of sample_accepted (sample_arrival r (sample_wire 0 hs body)) = AskGet (int r + 4)"
  "ask_of sample_accepted (sample_arrival r (sample_wire 1 hs body)) =
     AskPost (word_of_nat (r + 6)) (int r + 4) (wire_uid (sample_wire 1 hs body)) body"
proof -
  have s: "x_method (sample_wire m hs body) = m" "x_body (sample_wire m hs body) = body" for m
    by (simp_all add: sample_wire_def)
  show "ask_of sample_accepted (sample_arrival r (sample_wire 2 hs body)) = AskPut (word_of_nat (r + 6)) (int r + 4) body"
    "ask_of sample_accepted (sample_arrival r (sample_wire 3 hs body)) = AskHead (int r + 4)"
    "ask_of sample_accepted (sample_arrival r (sample_wire 0 hs body)) = AskGet (int r + 4)"
    "ask_of sample_accepted (sample_arrival r (sample_wire 1 hs body)) =
       AskPost (word_of_nat (r + 6)) (int r + 4) (wire_uid (sample_wire 1 hs body)) body"
    by (simp_all add: ask_of_def sample_arrival_def s Let_def)
qed

lemma sample_asks:
  "map (ask_of sample_accepted) sample_traffic =
     [AskPut 7 5 ''ping'', AskHead 6, AskGet 7, AskPost 10 8 (Uid 7) ''pong'', AskPost 11 9 (Uid 7) ''pong'']"
  unfolding sample_traffic_def list.map sample_ask sample_wire_uid by simp

end
