(* ===== verification/Spec2Isabelle.thy ===== *)
theory Spec2Isabelle
  imports Fiber_Samples
begin

text \<open>
  \<^bold>\<open>NavekFiber\<close>: a verification of the message server under src/.

  \<^bold>\<open>The program.\<close> The kernel (src/kernel) reads a configuration file, loads modules, opens listeners
  and starts a thread pool. Its main loop lets the server accept connections; each becomes a task of the
  pool. The task receives and parses one HTTP request and hands it to the router, which finds the
  queue registered for the target's path. A queue is a module behind the interface \<open>IMQ\<close>; the
  repository has two in src/mq/mq-sync. With \<open>SyncQueueHandler\<close> a client \<open>PUT\<close>s a request and waits, a
  worker \<open>GET\<close>s the oldest waiting request and \<open>POST\<close>s the answer, which goes to the client.
  With \<open>SyncSAPIHandler\<close> the module's own threads fetch the requests. The library src/ci
  holds strings, searching, options, the command line and signals.

  \<^bold>\<open>The theories and their sources.\<close>

  \<^item> \<open>Fiber_Prelude\<close>, \<open>Fiber_Monad\<close>, \<open>Fiber_Reach\<close>, \<open>Fiber_Stdmap\<close>, \<open>Fiber_Regex\<close>: shared ground. The C
    and C++ library functions the sources call, sequencing of operations that may throw with a weakest
    precondition, reachability with its invariant rule and inevitability with its rank rule (the locales
    \<open>inductive_invariant\<close> and \<open>ranked_progress\<close>), \<open>std::unordered_map\<close> and \<open>std::regex\<close>
    (a backtracking matcher, with the rules \<open>first_match\<close> that run an expression along a text).
  \<^item> \<open>Fiber_Ascii\<close> (ci/utils/ascii.h), \<open>Fiber_Findmatch\<close> (ci/utils/findmatch.h), \<open>Fiber_Zcstring\<close>
    (ci/utils/str.h), \<open>Fiber_Transform\<close> (ci/utils/transform.h), \<open>Fiber_Option\<close> (ci/utils/option.h),
    \<open>Fiber_Except\<close> (ci/coreexcept.h, and \<open>format\<close> of transform.h), \<open>Fiber_Json\<close> (ci/json/writer.hpp), \<open>Fiber_System\<close> (ci/sys and
    kernel/main/init-cmd.hpp): the library.
  \<^item> \<open>Fiber_Interfaces\<close> (ci/interface/IRequest.h, IMQ.h): the virtual functions as records, and the
    contracts between kernel and modules as the locales \<open>irequest\<close> and \<open>imq_module\<close>.
  \<^item> \<open>Fiber_Buffer\<close> (kernel/net/impl/bufferimpl.h), \<open>Fiber_HttpParse\<close> and \<open>Fiber_HttpImpl\<close>
    (kernel/net/impl/httpimpl.h, httpimpl.cpp, httpcodes.hpp, protoimpl.h, socketimpl.h), \<open>Fiber_Handler\<close>
    (the interface \<open>Server::CHandler\<close> with its implementations, wsimpl.h among them), \<open>Fiber_Address\<close> and \<open>Fiber_Server\<close> (kernel/net/server.h, server.cpp): the network side.
  \<^item> \<open>Fiber_Request\<close> (kernel/main/impl/requestimpl.h, requestimpl.cpp): the request object, with the
    interpretation of \<open>irequest\<close> on it.
  \<^item> \<open>Fiber_SyncQueue\<close> (mq/mq-sync/src/sync-queue.h, sync-queue.cpp) and \<open>Fiber_Broker\<close>: the queue, its
    abstract specification and the executions of many threads. \<open>Fiber_SyncSAPI\<close> and \<open>Fiber_SapiThreads\<close>
    (sync-sapi.h, sync-sapi.cpp): the SAPI queue and its threads. Both interpret \<open>imq_module\<close>.
  \<^item> \<open>Fiber_Exchange\<close>: the queue run on the kernel's own request objects. \<open>Fiber_Delivery\<close>: receive buffer, parser,
    router, request objects and queue together, from the bytes of a client to the bytes of its answer. \<open>Fiber_Traffic\<close>:
    any sequence of such requests, against the abstract service \<open>desk\<close>.
  \<^item> \<open>Fiber_Router\<close> (kernel/main/impl/routerimpl.h, routerimpl.cpp), \<open>Fiber_ThreadPool\<close>,
    \<open>Fiber_PoolThreads\<close> and \<open>Fiber_PoolJoin\<close> (kernel/mt/threadpool.h, threadpool.cpp), \<open>Fiber_Config\<close> (kernel/main/config.cpp) and
    \<open>Fiber_ConfigView\<close> (impl/cfgimpl.h, with the contract of ci/interface/IConfig.h as the locale \<open>config_view\<close>),
    \<open>Fiber_Startup\<close> (kernel/main/init-*.hpp and the first half of run.cpp), \<open>Fiber_Kernel\<close>
    (kernel/main/kernel.cpp, the second half of run.cpp, kernel/bus.cpp): the kernel.
  \<^item> \<open>Fiber_Samples\<close>: the concrete inputs on which the properties are instantiated.

  \<^bold>\<open>How the code is modelled.\<close> A class is a record of its members, an operation a function from the
  state to the new state, with every \<open>throw\<close> a value of \<open>exn\<close>. Dereferencing outside an allocated block is
  the value \<open>UndefinedBehaviour\<close>, so a theorem that an operation returns also says that it stays in
  bounds. Each block of code under a mutex is one definition; what several threads do is a sequence of
  such blocks (\<open>Fiber_Broker\<close>) or a step relation with a program counter per thread (\<open>cstep\<close>, \<open>xstep\<close>,
  \<open>pstep\<close>), and its properties hold in every reachable state. That threads reach a goal is stated as
  \<open>inevitable\<close>: every execution ends, whatever the scheduling, and ends in the goal. What the program writes to its sockets is
  recorded in a \<open>net\<close>, in order.

  \<^bold>\<open>Arguments of the model.\<close> The object framework is a submodule and absent: whether an object answers
  \<open>QueryInterface\<close>, whether moving an interface pointer empties the source, and how a module is loaded and
  creates its objects are arguments. So are \<open>getopt_long\<close>, the answers of the system calls (\<open>send\<close>, \<open>recv\<close>,
  \<open>accept\<close>, \<open>socket\<close> and so on), the clocks, the uninitialised bytes of a new array, the order in which an
  \<open>unordered_multimap\<close> finds equal keys (\<open>pick\<close>), and what is read through a view whose buffer has been freed
  (\<open>e_stale\<close>; \<open>None\<close> stands for a fault). Where a theorem needs a law about such
  an argument, the law is a hypothesis, such as \<open>readable\<close>, and a witness shows it can hold. The step relation of
  the SAPI threads is that of moves which leave their source usable: with the others every stored \<open>Put\<close> is a fault.

  \<^bold>\<open>Bounds and termination.\<close> All recursive definitions are total, with their termination proved, except
  two loops that may run forever in the source: \<open>explode_loop\<close> (an empty delimiter never advances) and
  \<open>accept_loop\<close> (as long as connections are waiting). They are partial functions into \<open>option\<close>, and that they return
  is proved where the source makes them return: for every nonempty delimiter, and when \<open>accept\<close> gives
  the polled number of connections (after a count below zero only a refusing \<open>accept\<close> ends the loop). No definition has fuel.
  Counters are kept at their width: the
  thread pool's theorem asks for a limit below \<open>2 ^ 62\<close> workers, so that its 64-bit
  differences do not wrap, the SAPI queue's for \<open>LimitTasks\<close> below \<open>2 ^ 31\<close>, and the message identifiers
  are distinct for fewer than \<open>2 ^ 32\<close> connections, beyond which the counter
  runs into the time in their upper half.

  \<^bold>\<open>What is shown.\<close>

  \<^item> Service: for any sequence of requests of any method, what the clients and workers are sent, and the state of the
    queue after it, is that of the abstract service \<open>desk\<close>; the requests are processed one after the other, since
    the interleavings of the critical sections are treated on their own. In particular a message goes from the client's bytes to a worker and its answer back to the client, and the queue is then
    as before; every connection accepted is processed exactly once, under an identifier of its own.
  \<^item> Queue: every operation keeps the invariant of its three containers whatever clients and
    workers send; messages leave in arrival order and once each under every interleaving; under every
    interleaving the critical sections return what an abstract broker returns (they are linearizable); what \<open>GET\<close>, \<open>POST\<close> and \<open>PUT\<close> send on every branch. Two answers with
    one identifier can both reach the client, and an answer to a message still queued breaks the queue.
  \<^item> HTTP: the parser reads back what a well-formed request says, all but its last header, which it
    loses; receiving stays in the buffer; every failure is answered and closed; a
    connection is closed exactly once in its life; the header map equals a
    linear search without regard to case; the searches equal their reference definitions.
  \<^item> Router: which queue a path gets, and how wildcards, prefixes and hashes decide it.
  \<^item> Pool and SAPI: the number of threads stays within its limit, every accepted task is run exactly once; a stopped pool
    starts none of the tasks left, and \<open>Join\<close> returns (if the running tasks do); every worker is bound to an allowed core; a release build never replaces the workers that left a full pool; the threads of a SAPI
    queue together drain it, but a message can be left without a thread to fetch it.
  \<^item> Server, start-up and kernel: no descriptor is left open by a failed listener, all connections get
    different identifiers, what a successful start-up has set up, how a rejected module ends the
    program, which signals are handled.
  \<^item> Configuration, options, JSON: what is written is read back through every view of the configuration, splitting and joining are inverse, sizes
    are read modulo \<open>2 ^ 64\<close>, the writer's numbers, arrays and objects are well formed.

  \<^bold>\<open>Not modelled.\<close> \<open>MQImpl\<close>, an unfinished declaration that nothing includes; the module exports, which only
  call the framework; tracing and version numbers, which only print; the test program; the lifetimes of the objects the framework counts references to, and with them
  what the destruction of the router does to the modules; the reading of a \<open>ConfigImpl\<close> after start-up, when the
  map it refers to is gone (no code of the repository does it).
\<close>

section \<open>Properties\<close>

subsection \<open>The service\<close>

text \<open>
  (C1) The service from socket to socket, for any traffic. Requests of any method arrive as bytes on connections with
  different request objects and identifiers, for targets routed to one queue, and are processed one after the other;
  \<open>PUT\<close> and \<open>POST\<close> have a content, and no \<open>POST\<close> names a message that still waits. Then no exception is
  left, and queue, request objects and sockets implement the abstract service \<open>desk\<close>: what is sent, to whom, with
  which status, header and content and in which order, is what the service says (the contents to the workers in the order
  the clients put them, each answer to the client whose content was taken, every refusal with its status), every connection spoken to is closed, nothing else is
  sent, and the queue again represents the service's state.
\<close>

theorem traffic_refines_service:
  assumes "sends_all e" and "readable e" and "\<forall>y. qy y" and "\<forall>a \<in> set as. to_queue e qy pick rts a"
    and "fresh_arrivals as q w" and "serves d q w" and "all_polite (LimitSize q) (map (ask_of w) as) d"
  shows "\<exists>q' w' evs. process_all e what pick rts as (q, w) = (Inr (), q', w') \<and>
    serves (snd (desk_run (LimitSize q) (map (ask_of w) as) d)) q' w' \<and>
    events (sockets w') = events (sockets w) @ evs \<and> transcript (fst (desk_run (LimitSize q) (map (ask_of w) as) d)) evs"
  by (rule process_all_follows [OF assms])

theorem traffic_refines_service_witness:
  "\<exists>q' w' evs.
    process_all sample_env (\<lambda>_. []) 0 [(''/q'', Some (SyncQueueHandler (RequestImpl sample_env (\<lambda>_. True))))] sample_traffic
      (new_queue 0 0 0, sample_accepted) = (Inr (), q', w') \<and>
    serves \<lparr>d_waiting = [], d_taken = Map.empty\<rparr> q' w' \<and> events (sockets w') = evs \<and>
    transcript
      [Said 6 200 ''OK'' (''X-MSG-HEAD-UID'', ''7'') [], Said 7 200 ''OK'' (''X-MSG-FORWARD-UID'', ''7'') ''ping'',
       Said 5 200 ''OK'' (forward_note 10) ''pong'', status 8 200 ''OK'', status 9 300 ''Multiple Replays. Reply Ignored.''] evs"
proof -
  let ?d = "\<lparr>d_waiting = [], d_taken = Map.empty\<rparr>" and ?q = "new_queue 0 0 0"
  let ?rts = "[(''/q'', Some (SyncQueueHandler (RequestImpl sample_env (\<lambda>_. True))))]"
  have route: "\<forall>a \<in> set sample_traffic. to_queue sample_env (\<lambda>_. True) 0 ?rts a"
    by (simp add: to_queue_def sample_traffic_def sample_arrival_def sample_wire_def sample_route)
  have d: "serves ?d ?q sample_accepted"
    by (simp add: serves_def new_queue_def sq_exact_def sq_inv_def taken_from_def fun_eq_iff)
  have p: "all_polite (LimitSize ?q) (map (ask_of sample_accepted) sample_traffic) ?d"
    unfolding sample_asks by (simp add: new_queue_def)
  have run: "desk_run (LimitSize ?q) (map (ask_of sample_accepted) sample_traffic) ?d =
      ([Said 6 200 ''OK'' (''X-MSG-HEAD-UID'', ''7'') [], Said 7 200 ''OK'' (''X-MSG-FORWARD-UID'', ''7'') ''ping'',
        Said 5 200 ''OK'' (forward_note 10) ''pong'', status 8 200 ''OK'', status 9 300 ''Multiple Replays. Reply Ignored.''], ?d)"
    unfolding sample_asks by (simp add: new_queue_def forward_note_def sample_number)
  show ?thesis
    using traffic_refines_service [OF sample_env_ok _ route sample_traffic_fresh d p, of "\<lambda>_. []"] unfolding run by simp
qed

text \<open>
  (C2) One message from socket to socket. A client's \<open>PUT\<close>, a worker's \<open>GET\<close> and the worker's \<open>POST\<close> that names the
  message arrive as bytes on three connections, each cut into pieces in any way, for targets routed to one idle queue.
  Then each of the three is processed without an exception; the worker is sent the identifier and the client's
  content and closed; the client is sent the content of the \<open>POST\<close> and closed; the \<open>POST\<close> is acknowledged and
  closed; nothing else is sent, and the queue is as it was before.
\<close>

theorem message_is_delivered:
  assumes "sends_all e" and "readable e" and "\<forall>y. qy y" and "distinct [rc, rg, rp]"
    and route: "\<forall>x \<in> {c, g, p}. route_find pick rts (x_uri x) = Some (Some (SyncQueueHandler (RequestImpl e qy)))"
    and c: "reception c rcv_c" "awaits c (heap w rc)" "x_method c = 2" "x_body c \<noteq> []" "length (x_body c) < 2 ^ 64"
    and g: "reception g rcv_g" "awaits g (heap w rg)" "x_method g = 0"
    and p: "reception p rcv_p" "awaits p (heap w rp)" "x_method p = 1" "x_body p \<noteq> []" "length (x_body p) < 2 ^ 64"
      "wire_option p ''X-MSG-FORWARD-UID'' = Some v" "dropWhile isspace v = to_string (unat (id_of w rc))"
    and q: "mq_queue q = []" "map_of (mq_messages q) (id_of w rc) = None" "id_of w rc \<notin> set (mq_locked q)"
  shows "\<exists>s1 s2 w3 to_worker to_client ack.
    RouterImpl_Process e what rcv_c fr_c pick rts rc (q, w) = (Inr (), s1) \<and>
    RouterImpl_Process e what rcv_g fr_g pick rts rg s1 = (Inr (), s2) \<and>
    RouterImpl_Process e what rcv_p fr_p pick rts rp s2 = (Inr (), q, w3) \<and>
    answer_with 200 ''OK'' ''X-MSG-FORWARD-UID'' (to_string (unat (id_of w rc))) to_worker \<and>
    answer_with 200 ''OK'' ''X-MSG-FORWARD-UID'' (to_string (unat (id_of w rp))) to_client \<and>
    answer_with 200 ''OK'' ''X-MQ-CLASS'' ''Sync.MQ.Queue'' ack \<and>
    events (sockets w3) = events (sockets w) @
      [Sent (fd_of w rg) to_worker (int (length to_worker)), Sent (fd_of w rg) (x_body c) (int (length (x_body c)))] @ closing (fd_of w rg) @
      [Sent (fd_of w rc) to_client (int (length to_client)), Sent (fd_of w rc) (x_body p) (int (length (x_body p)))] @ closing (fd_of w rc) @
      [Sent (fd_of w rp) ack (int (length ack))] @ closing (fd_of w rp)"
proof -
  define m where "m = id_of w rc"
  let ?q1 = "q\<lparr>mq_queue := [m], mq_messages := mq_messages q @ [(m, rc)]\<rparr>"
  let ?q2 = "?q1\<lparr>mq_queue := [], mq_locked := uset_emplace m (mq_locked q)\<rparr>"
  have d: "rc \<noteq> rg" "rp \<noteq> rc" "rp \<noteq> rg" using assms(4) by auto
  obtain w1 where s1: "RouterImpl_Process e what rcv_c fr_c pick rts rc (q, w) = (Inr (), ?q1, w1)" and w1: "received c rc w w1"
    using client_put [of qy rc c rcv_c w pick rts e q what fr_c] assms(3) route c q(1,2) by (auto simp: m_def)
  have h1: "heap w1 rg = heap w rg" "heap w1 rp = heap w rp" using receivedD(2) [OF w1] d by auto
  obtain w2 to_worker where s2: "RouterImpl_Process e what rcv_g fr_g pick rts rg (?q1, w1) = (Inr (), ?q2, w2)"
      "answer_with 200 ''OK'' ''X-MSG-FORWARD-UID'' (to_string (unat m)) to_worker"
      "events (sockets w2) = events (sockets w1) @ [Sent (fd_of w rg) to_worker (int (length to_worker)),
         Sent (fd_of w rg) (x_body c) (int (length (x_body c)))] @ closing (fd_of w rg)"
      "Handle (Http (heap w2 rc)) = fd_of w rc" "heap w2 rp = heap w rp"
    using worker_get [OF assms(1-3) g(1) _ g(3), of w1 rg pick rts ?q1 m "[]" rc c what fr_g] g(2) route c(4,5) q(2) d receivedD(1,4) [OF w1]
    by (auto simp: h1 m_def map_add_def)
  have "snd (post_erase m ?q2) = q"
    using q by (cases q) (simp add: m_def post_erase_def umap_erase_absent uset_emplace_def)
  then show ?thesis
    using worker_post [OF assms(1-3) p(1) _ p(3), of w2 rp pick rts ?q2 m rc what fr_p] p wire_uid_printed [OF p(6,7)] route q(2) d s1 s2 receivedD(3) [OF w1]
    by (auto simp: m_def map_add_def)
qed

theorem message_is_delivered_witness:
  "\<exists>s1 s2 w3 to_worker to_client ack.
    (let e = sample_env; rts = [(''/q'', Some (SyncQueueHandler (RequestImpl e (\<lambda>_. True))))];
         c = sample_wire 2 [] ''ping''; g = sample_wire 0 [] []; p = sample_wire 1 [(''X-Msg-Forward-Uid'', '' 7'')] ''pong''
     in RouterImpl_Process e (\<lambda>_. []) (in_one_piece c) (\<lambda>_. NUL) 0 rts 1 (new_queue 0 0 0, sample_accepted) = (Inr (), s1) \<and>
        RouterImpl_Process e (\<lambda>_. []) (in_one_piece g) (\<lambda>_. NUL) 0 rts 2 s1 = (Inr (), s2) \<and>
        RouterImpl_Process e (\<lambda>_. []) (in_one_piece p) (\<lambda>_. NUL) 0 rts 3 s2 = (Inr (), new_queue 0 0 0, w3)) \<and>
    events (sockets w3) =
      [Sent 6 to_worker (int (length to_worker)), Sent 6 ''ping'' 4, Closed 6,
       Sent 5 to_client (int (length to_client)), Sent 5 ''pong'' 4, Closed 5, Sent 7 ack (int (length ack)), Closed 7]"
proof -
  let ?c = "sample_wire 2 [] ''ping''" and ?g = "sample_wire 0 [] []" and ?p = "sample_wire 1 [(''X-Msg-Forward-Uid'', '' 7'')] ''pong''"
  let ?rts = "[(''/q'', Some (SyncQueueHandler (RequestImpl sample_env (\<lambda>_. True))))]"
  have u: "x_uri (sample_wire m hs b) = ''/q''" "x_method (sample_wire m hs b) = m" "x_body (sample_wire m hs b) = b" for m hs b
    by (simp_all add: sample_wire_def)
  have r: "\<forall>x \<in> {?c, ?g, ?p}. route_find 0 ?rts (x_uri x) = Some (Some (SyncQueueHandler (RequestImpl sample_env (\<lambda>_. True))))"
    by (simp add: u sample_route)
  have c: "wire_ok ?c" "awaits ?c (heap sample_accepted 1)" and g: "wire_ok ?g" "awaits ?g (heap sample_accepted 2)"
    and p: "wire_ok ?p" "awaits ?p (heap sample_accepted 3)"
    by (rule sample_wires; simp)+
  have n: "dropWhile isspace '' 7'' = to_string (unat (id_of sample_accepted 1))"
    using sample_number by (simp add: isspace_def)
  have q: "mq_queue (new_queue 0 0 0) = []" "map_of (mq_messages (new_queue 0 0 0)) (id_of sample_accepted 1) = None"
    "id_of sample_accepted 1 \<notin> set (mq_locked (new_queue 0 0 0))"
    by (simp_all add: new_queue_def)
  have a: "\<forall>y. (\<lambda>_. True) y" "distinct [1, 2, 3 :: reqref]" "x_body ?c \<noteq> []" "length (x_body ?c) < 2 ^ 64" "x_body ?p \<noteq> []"
    "length (x_body ?p) < 2 ^ 64"
    by (simp_all add: u)
  note message_is_delivered [OF sample_env_ok a(1,2) r sample_reception [OF c(1)] c(2) u(2) a(3,4) sample_reception [OF g(1)] g(2) u(2)
      sample_reception [OF p(1)] p(2) u(2) a(5,6) sample_uid n q, of "\<lambda>_. []" "\<lambda>_. NUL" "\<lambda>_. NUL" "\<lambda>_. NUL"]
  then show ?thesis unfolding Let_def u by (elim exE conjE, intro exI conjI) (assumption | simp add: closing_def)+
qed

subsection \<open>The message queue\<close>




text \<open>
  A worker's \<open>GET\<close>: the oldest message moves from the queue to the locked ones; the worker's
  connection is sent one answer, with status 200, the message's identifier, its content type and then
  its content, and is closed; the client's connection stays open and nothing else is sent.
\<close>

theorem get_hands_over_oldest:
  assumes "sends_all e" and "readable e" and "\<forall>x. qy x"
    and "mq_queue q = m # ms" and "map_of (mq_messages q) m = Some r"
    and "headers_wf (heap w r)" and "body_ok (ReqContent (Request (Http (heap w r))))"
  shows "\<exists>w1 w'. Get (RequestImpl e qy) u (q, w) =
      (Inr (), q\<lparr>mq_queue := ms, mq_locked := uset_emplace m (mq_locked q)\<rparr>, w') \<and>
    events (sockets w1) = events (sockets w) \<and> (\<forall>x. Handle (Http (heap w1 x)) = Handle (Http (heap w x))) \<and>
    replied e u
      (forwarded (q\<lparr>mq_queue := ms, mq_locked := uset_emplace m (mq_locked q)\<rparr>)
        (ReqContent (Request (Http (heap w r)))) m (content_type (heap w r)))
      (zbytes (ReqContent (Request (Http (heap w r))))) w1 w'"
  using Get_exchange [OF assms] by blast

theorem get_hands_over_oldest_witness:
  "\<exists>w1 w'. Get (RequestImpl sample_env (\<lambda>_. True)) 2 (sample_queue, sample_world) =
      (Inr (), sample_queue\<lparr>mq_queue := [], mq_locked := uset_emplace 7 (mq_locked sample_queue)\<rparr>, w') \<and>
    events (sockets w1) = events (sockets sample_world) \<and>
    (\<forall>x. Handle (Http (heap w1 x)) = Handle (Http (heap sample_world x))) \<and>
    replied sample_env 2
      (forwarded (sample_queue\<lparr>mq_queue := [], mq_locked := uset_emplace 7 (mq_locked sample_queue)\<rparr>)
        (ReqContent (Request (Http (heap sample_world 1)))) 7 (content_type (heap sample_world 1)))
      (zbytes (ReqContent (Request (Http (heap sample_world 1))))) w1 w'"
  by (rule get_hands_over_oldest) (simp_all add: sample_env_ok sample_requests, simp_all add: sample_queue_def)

text \<open>
  (C5) A worker's \<open>POST\<close> with the identifier it was given: the waiting client is sent the content of the
  \<open>POST\<close> and closed, then the message leaves the queue's state, then the worker is sent an empty 200
  and closed; nothing else is sent.
\<close>

theorem post_answers_client:
  assumes "sends_all e" and "readable e" and "\<forall>x. qy x" and "u \<noteq> r"
    and "map_of (mq_messages q) m = Some r"
    and "headers_wf (heap w u)" and "body_ok (ReqContent (Request (Http (heap w u))))"
    and "names_message (option_of (heap w u) ''X-MSG-FORWARD-UID'' None) m"
  shows "\<exists>w1 w2 w'. Post (RequestImpl e qy) u (q, w) = (Inr (), snd (post_erase m q), w') \<and>
    events (sockets w1) = events (sockets w) \<and> (\<forall>x. Handle (Http (heap w1 x)) = Handle (Http (heap w x))) \<and>
    replied e r (forwarded q (ReqContent (Request (Http (heap w u)))) (MsgId (Http (heap w u))) (content_type (heap w u)))
      (zbytes (ReqContent (Request (Http (heap w u))))) w1 w2 \<and>
    replied e u (mq_reply (snd (post_erase m q)) 200 ''OK'' (Some ([NUL], 0)) 0 [] []) [] w2 w'"
  using Post_exchange [OF assms] by blast

theorem post_answers_client_witness:
  "\<exists>w1 w2 w'. Post (RequestImpl sample_env (\<lambda>_. True)) 2 (sample_queue, sample_world) =
      (Inr (), snd (post_erase 7 sample_queue), w') \<and>
    events (sockets w1) = events (sockets sample_world) \<and>
    (\<forall>x. Handle (Http (heap w1 x)) = Handle (Http (heap sample_world x))) \<and>
    replied sample_env 1
      (forwarded sample_queue (ReqContent (Request (Http (heap sample_world 2)))) (MsgId (Http (heap sample_world 2)))
        (content_type (heap sample_world 2)))
      (zbytes (ReqContent (Request (Http (heap sample_world 2))))) w1 w2 \<and>
    replied sample_env 2 (mq_reply (snd (post_erase 7 sample_queue)) 200 ''OK'' (Some ([NUL], 0)) 0 [] []) [] w2 w'"
  by (rule post_answers_client)
    (simp_all add: sample_env_ok sample_requests, simp_all add: sample_queue_def names_message_printed isspace_def sample_number)

text \<open>
  (C6) Whatever request the kernel dispatches to a \<open>SyncQueueHandler\<close>, and however it ends, every
  waiting request stays reachable (queued or locked), no identifier is stored twice and the queue stays
  within its limit.
\<close>

theorem dispatch_keeps_queue:
  assumes "sq_inv q"
  shows "sq_inv (fst (snd (RequestImpl_Process e (Some (SyncQueueHandler R)) r (q, w))))"
  using keepsD [OF RequestImpl_Process_keeps [OF sync_queue.imq_module_axioms], of "(q, w)"] assms by simp

theorem dispatch_keeps_queue_witness:
  "sq_inv (fst (snd (RequestImpl_Process sample_env (Some (SyncQueueHandler (RequestImpl sample_env (\<lambda>_. True)))) 1
     (sample_queue, sample_world))))"
  using dispatch_keeps_queue [of sample_queue] sample_queue_exact by (simp add: sq_exact_def)

text \<open>
  (C7) The handler is linearizable with respect to an abstract broker, a queue of waiting requests and a map of requests
  in the hands of workers. For every interleaving of the critical sections of all threads in which the \<open>PUT\<close>s bring
  new identifiers and only fetched messages are erased, no section throws, every section returns what the broker returns
  (whether there was room, the oldest waiting request, the request of an identifier, the identifier at the head),
  and the final state represents the broker's.
\<close>

theorem queue_refines_broker:
  assumes "sq_exact q" and "\<forall>r. rq_query R r" and "all_orderly (LimitSize q) cs (broker_of q)"
  shows "section_outcomes R cs q = map Inr (fst (broker_run (LimitSize q) cs (broker_of q))) \<and>
    broker_of (run_sections R cs q) = snd (broker_run (LimitSize q) cs (broker_of q)) \<and> sq_exact (run_sections R cs q)"
  by (rule run_sections_refine [OF assms])

theorem queue_refines_broker_witness:
  "section_outcomes (RequestImpl sample_env (\<lambda>_. True)) [SPut 8 3, SGet, SPut 9 4, SPut 10 5, SFind 7, SErase 7, SHead] sample_queue =
     [Inr (OPut True), Inr (OGet (Some (7, 1))), Inr (OPut True), Inr (OPut False), Inr (OFind (Some 1)), Inr OErase, Inr (OHead 8)] \<and>
   sq_exact (run_sections (RequestImpl sample_env (\<lambda>_. True)) [SPut 8 3, SGet, SPut 9 4, SPut 10 5, SFind 7, SErase 7, SHead] sample_queue)"
proof -
  have o: "all_orderly (LimitSize sample_queue) [SPut 8 3, SGet, SPut 9 4, SPut 10 5, SFind 7, SErase 7, SHead] (broker_of sample_queue)"
    by (simp add: sample_queue_def broker_of_def b_find_def b_put_def b_get_def b_answer_def)
  have "fst (broker_run (LimitSize sample_queue) [SPut 8 3, SGet, SPut 9 4, SPut 10 5, SFind 7, SErase 7, SHead] (broker_of sample_queue)) =
      [OPut True, OGet (Some (7, 1)), OPut True, OPut False, OFind (Some 1), OErase, OHead 8]"
    by (simp add: sample_queue_def broker_of_def b_find_def b_put_def b_get_def b_answer_def)
  then show ?thesis
    using queue_refines_broker [OF sample_queue_exact, of "RequestImpl sample_env (\<lambda>_. True)", OF _ o] by simp
qed

text \<open>
  (C8) A waiting client is answered at most once, under every interleaving of the steps of all threads,
  provided that each message is answered by one worker only.
\<close>

theorem client_answered_once:
  assumes "reach (cstep R own) s0 s" and "quiet s0" and "one_answerer own"
  shows "distinct (map fst (answers s))"
  using assms by (rule answered_once)

theorem client_answered_once_witness:
  "\<exists>s. reach (cstep (RequestImpl sample_env (\<lambda>_. True)) (\<lambda>x t. t = 0))
      \<lparr>shared = sample_queue, pcs = (\<lambda>_. Idle), answers = [], issued = [7]\<rparr> s \<and>
    distinct (map fst (answers s))"
proof -
  let ?s = "\<lparr>shared = sample_queue, pcs = (\<lambda>_. Idle), answers = [], issued = [7]\<rparr>"
  let ?R = "RequestImpl sample_env (\<lambda>_. True)"
  have r: "reach (cstep ?R (\<lambda>x t. t = 0)) ?s (?s\<lparr>shared := snd (get_section ?R (shared ?s))\<rparr>)"
    by (intro reach_one c_get)
  then show ?thesis
    using client_answered_once [OF r] by (auto simp: quiet_def one_answerer_def sample_queue_def)
qed



text \<open>
  (C10) The oldest waiting request, answered before any worker fetched it: its identifier stays queued, so the
  next \<open>GET\<close> fails with \<open>out_of_range\<close> and leaves the identifier among the locked ones, without a request.
\<close>

theorem post_before_get_breaks_queue:
  assumes "mq_queue q = m # ms"
  shows "\<not> sq_exact (snd (post_erase m q)) \<and>
    (\<exists>q'. get_section R (snd (post_erase m q)) = (Inl StdOutOfRange, q') \<and> m \<in> set (mq_locked q') \<and>
       map_of (mq_messages q') m = None)"
  using assms by (rule post_erase_unfetched)

theorem post_before_get_breaks_queue_witness:
  "\<exists>q'. get_section (RequestImpl sample_env (\<lambda>_. True)) (snd (post_erase 7 sample_queue)) = (Inl StdOutOfRange, q') \<and>
     7 \<in> set (mq_locked q')"
  using post_before_get_breaks_queue [of sample_queue 7 "[]" "RequestImpl sample_env (\<lambda>_. True)"]
  by (auto simp: sample_queue_def)

text \<open>
  A \<open>PUT\<close> within the limit: the request is stored behind all others under its identifier, and no answer
  is sent to its connection, nor anything else: the client waits.
\<close>

theorem put_makes_client_wait:
  assumes "rq_query R u" and "LimitSize q = 0 \<or> length (mq_queue q) < LimitSize q"
    and "map_of (mq_messages q) (rq_msgid R w u) = None"
  shows "Put R u (q, w) =
    (Inr (), q\<lparr>mq_queue := mq_queue q @ [rq_msgid R w u], mq_messages := mq_messages q @ [(rq_msgid R w u, u)]\<rparr>, w)"
  using assms by (rule Put_admitted)

theorem put_makes_client_wait_witness:
  "Put (RequestImpl sample_env (\<lambda>_. True)) 2 (sample_queue, sample_world) =
    (Inr (), sample_queue\<lparr>mq_queue := [7, 9], mq_messages := [(7, 1), (9, 2)]\<rparr>, sample_world)"
  using put_makes_client_wait [of "RequestImpl sample_env (\<lambda>_. True)" 2 sample_queue sample_world]
  by (simp add: sample_queue_def sample_world_def)

text \<open>
  A \<open>PUT\<close> into a full queue: the queue is unchanged and the client is sent 507 with the limit, then closed.
\<close>

theorem put_full_is_refused:
  assumes "sends_all e" and "readable e" and "qy u" and "LimitSize q \<noteq> 0" and "LimitSize q \<le> length (mq_queue q)"
  shows "\<exists>w'. Put (RequestImpl e qy) u (q, w) = (Inr (), q, w') \<and>
    replied e u (mq_reply q 507 ''Insufficient Storage'' (Some ([NUL], 0)) 0
      [(''X-MQ-QUEUE-LIMIT'', Live (to_string (LimitSize q)))] []) [] w w'"
proof -
  let ?a = "mq_reply q 507 ''Insufficient Storage'' (Some ([NUL], 0)) 0 [(''X-MQ-QUEUE-LIMIT'', Live (to_string (LimitSize q)))] []"
  obtain w' where "RequestImpl_Reply e u ?a w = (Inr True, w')" "replied e u ?a [] w w'"
    using status_replied [OF assms(1,2)] by blast
  then show ?thesis
    using Put_full [of "RequestImpl e qy" u q w] assms by (auto simp: on_snd_def as_unit_def)
qed

theorem put_full_is_refused_witness:
  "\<exists>w'. Put (RequestImpl sample_env (\<lambda>_. True)) 2 (sample_queue\<lparr>LimitSize := 1\<rparr>, sample_world) =
      (Inr (), sample_queue\<lparr>LimitSize := 1\<rparr>, w') \<and>
    replied sample_env 2 (mq_reply (sample_queue\<lparr>LimitSize := 1\<rparr>) 507 ''Insufficient Storage'' (Some ([NUL], 0)) 0
      [(''X-MQ-QUEUE-LIMIT'', Live (to_string 1))] []) [] sample_world w'"
  using put_full_is_refused [of sample_env "\<lambda>_. True" 2 "sample_queue\<lparr>LimitSize := 1\<rparr>" sample_world]
  by (simp add: sample_env_ok) (simp add: sample_queue_def)

text \<open>
  A \<open>POST\<close> whose identifier is not a number in range: the queue is unchanged and the worker is sent 400.
\<close>

theorem post_bad_id_is_refused:
  assumes "sends_all e" and "readable e" and "qy u" and "headers_wf (heap w u)"
    and "zbytes (option_of (heap w u) ''X-MSG-FORWARD-UID'' None) \<noteq> []"
    and "stoul (zbytes (option_of (heap w u) ''X-MSG-FORWARD-UID'' None)) = Inl x"
  shows "\<exists>w1 w'. Post (RequestImpl e qy) u (q, w) = (Inr (), q, w') \<and> events (sockets w1) = events (sockets w) \<and>
    replied e u (mq_reply q 400 ''Bad Request. Invalid `X-MSG-FORWARD-UID` header'' (Some ([NUL], 0)) 0 [] []) [] w1 w'"
proof -
  let ?a = "mq_reply q 400 ''Bad Request. Invalid `X-MSG-FORWARD-UID` header'' (Some ([NUL], 0)) 0 [] []"
  define z where "z = option_of (heap w u) ''X-MSG-FORWARD-UID'' None"
  define w1 where "w1 = upd_request u (snd (GetHeaderOption (heap w u) ''X-MSG-FORWARD-UID'' None)) w"
  have wf: "zwf z" unfolding z_def by (rule zwf_option_of [OF assms(4)])
  have h: "rq_header (RequestImpl e qy) u ''X-MSG-FORWARD-UID'' None w = (z, w1)"
    unfolding z_def w1_def by (rule rq_header_wf [OF assms(4)])
  obtain w' where w': "RequestImpl_Reply e u ?a w1 = (Inr True, w')" "replied e u ?a [] w1 w'"
    using status_replied [OF assms(1,2)] by blast
  have "Post (RequestImpl e qy) u (q, w) = (Inr (), q, w')"
    using Post_bad_id [of "RequestImpl e qy" u w z w1 "zbytes z" x q] h wf assms(3,5,6) w'(1)
    by (simp add: zempty_iff z_def [symmetric] on_snd_def as_unit_def)
  moreover have "events (sockets w1) = events (sockets w)" by (simp add: w1_def)
  ultimately show ?thesis using w'(2) by blast
qed

theorem post_bad_id_is_refused_witness:
  "\<exists>w1 w'. Post (RequestImpl sample_env (\<lambda>_. True)) 3 (sample_queue, bad_world) = (Inr (), sample_queue, w') \<and>
    events (sockets w1) = events (sockets bad_world) \<and>
    replied sample_env 3 (mq_reply sample_queue 400 ''Bad Request. Invalid `X-MSG-FORWARD-UID` header'' (Some ([NUL], 0)) 0 [] []) []
      w1 w'"
  by (rule post_bad_id_is_refused [where x = StdInvalidArgument]) (simp_all add: sample_env_ok bad_request)



subsection \<open>Connections\<close>

text \<open>
  (C12) Reading back a request: a request line, at least one header and a body are parsed into the method, the
  target, all headers but the last, and the body. (The last header line ends in the double line end, which the
  parser takes for the end of the head before it has looked at the line.)
\<close>

theorem http_request_roundtrip:
  assumes "i < length RequestMethods" and "target_ok uri" and "no_eol ver" and "\<forall>h \<in> set hs. header_ok h" and "header_ok l"
    and "holds b (head_text i uri ver (hs @ [l]) @ body)" and "head_fits b (length (head_text i uri ver (hs @ [l])))"
  shows "\<exists>req'. http_parse_request b req = Inr (0, req') \<and> Method req' = method_of (Suc i) \<and>
    zbytes (Uri req') = uri \<and> Params req' = Params req \<and> zbytes (ReqContent req') = body \<and>
    (\<exists>zs. Headers req' = Headers req @ zs \<and> map view zs = hs)"
  using assms by (rule http_parse_headers)

theorem http_request_roundtrip_witness:
  "\<exists>req'. http_parse_request (sample_buffer (head_text 1 ''/q'' ''HTTP/1.1'' ([(''Host'', ''x'')] @ [(''Accept'', ''y'')]) @ ''body''))
      empty_request = Inr (0, req') \<and> Method req' = POST \<and> zbytes (Uri req') = ''/q'' \<and> zbytes (ReqContent req') = ''body'' \<and>
    map view (Headers req') = [(''Host'', ''x'')]"
  using http_request_roundtrip [OF _ _ _ _ _ sample_buffer_holds, of 1 "''/q''" "''HTTP/1.1''" "[(''Host'', ''x'')]" "(''Accept'', ''y'')" "''body''" empty_request]
  by (auto simp: RequestMethods_def target_ok_def no_eol_def header_ok_def method_of_def method_list_def empty_request_def
      CR_def LF_def TAB_def)

text \<open>
  A request without headers is accepted, but its target is not read: the line that carries it ends in the
  double line end.
\<close>

theorem http_request_without_headers:
  assumes "i < length RequestMethods" and "target_ok uri" and "no_eol ver"
    and "holds b (head_text i uri ver [] @ body)" and "head_fits b (length (head_text i uri ver []))"
  shows "\<exists>req'. http_parse_request b req = Inr (0, req') \<and> Method req' = method_of (Suc i) \<and>
    Uri req' = Uri req \<and> Headers req' = Headers req"
  using assms by (rule http_parse_no_headers)

theorem http_request_without_headers_witness:
  "\<exists>req'. http_parse_request (sample_buffer (head_text 0 ''/q'' ''HTTP/1.1'' [] @ [])) empty_request = Inr (0, req') \<and> Uri req' = znull"
  using http_request_without_headers [OF _ _ _ sample_buffer_holds, of 0 "''/q''" "''HTTP/1.1''" "[]" empty_request]
  by (auto simp: RequestMethods_def target_ok_def no_eol_def empty_request_def CR_def LF_def TAB_def)



text \<open>
  (C14) The receive loop stores at most \<open>MaxLength\<close> bytes, in an array of that length, and leaves the rest of the
  array as it was allocated.
\<close>

theorem receive_within_bounds:
  assumes "Read rcv fresh (ReadBufferImpl u) m part = (err, b)"
  shows "\<exists>blk. dataBuffer b = Some blk \<and> length blk = m \<and> dataLength b \<le> m \<and> dataPartLength b = part \<and>
    (\<forall>i. dataLength b \<le> i \<and> i < m \<longrightarrow> blk ! i = fresh i)"
  using assms by (rule Read_bounds)

theorem receive_within_bounds_witness:
  "\<exists>err b blk. Read (\<lambda>_. (Inr ''abcdef'', None)) (\<lambda>_. NUL) (ReadBufferImpl 0) 4 2 = (err, b) \<and> dataBuffer b = Some blk \<and> length blk = 4"
proof -
  obtain err b where "Read (\<lambda>_. (Inr ''abcdef'', None)) (\<lambda>_. NUL) (ReadBufferImpl 0) 4 2 = (err, b)" by (metis surj_pair)
  from receive_within_bounds [OF this] this show ?thesis by blast
qed

text \<open>
  (C15) An answer on a connection that takes what it is sent: the head and then, if there is one, the content are
  sent in two writes and the connection is closed when asked for.
\<close>

theorem reply_is_sent:
  assumes "sends_all e" and "reply_head e h (e_now e (ticks n)) a = Inr answer" and "content_bytes a = Inr body"
  shows "Reply e h n a =
    (Inr (),
     h\<lparr>Telemetry := (Telemetry h)\<lparr>tmFinishedAt := e_now e (ticks n)\<rparr>, Handle := if rClose a then 0 else Handle h\<rparr>,
     \<lparr>events = events n @ [Sent (Handle h) answer (int (length answer))] @
        (if body \<noteq> [] then [Sent (Handle h) body (int (length body))] else []) @
        (if rClose a then closing (Handle h) else []),
      ticks = Suc (ticks n)\<rparr>)"
  using assms by (rule Reply_sent)

theorem reply_is_sent_witness:
  "\<exists>answer h'. Reply sample_env (sample_http 5 7 [] []) \<lparr>events = [], ticks = 0\<rparr> (plain_reply 404) =
    (Inr (), h', \<lparr>events = [Sent 5 answer (int (length answer)), Closed 5], ticks = 1\<rparr>)"
proof -
  obtain answer where "reply_head sample_env (sample_http 5 7 [] []) (e_now sample_env (ticks \<lparr>events = [], ticks = 0\<rparr>)) (plain_reply 404) = Inr answer"
    using plain_reply_head by blast
  from reply_is_sent [OF sample_env_ok(1) this plain_reply_simps(1)] show ?thesis
    by (auto simp: closing_def plain_reply_def)
qed

text \<open>
  (C16) The life of a connection. Whatever arrives, whether the request is accepted or rejected, however many answers are given
  and whichever of the sendings fail, when the object is destroyed its descriptor has been closed exactly once, and no other.
\<close>

theorem connection_closed_once:
  "closed_fds (events (http_life e rcv fresh as h n)) = closed_fds (events n) @ (if Handle h \<noteq> 0 then [Handle h] else [])"
  by (rule http_life_closes_once)

text \<open>
  (C17) A header looked up through the hashed map of the request is the first header of the request whose name
  is the same up to the case of letters, or the default, whether the map was filled before or not.
\<close>

theorem header_option_is_first_match:
  assumes "header_cached ri"
  shows "fst (GetHeaderOption ri opt d) = header_lookup (Headers (Request (Http ri))) opt d"
  using assms by (rule GetHeaderOption_lookup)

theorem header_option_is_first_match_witness:
  "fst (GetHeaderOption (heap sample_world 2) ''X-MSG-FORWARD-UID'' None) = zstring '' 7''"
  using header_option_is_first_match [of "heap sample_world 2" "''X-MSG-FORWARD-UID''" None]
    sample_requests(1) [of 2] sample_requests(3)
  by (simp add: headers_wf_def option_of_def)

text \<open>
  (C18) The search loop over all needles is leftmost search, the first needle winning at a place, with the case of
  letters put aside.
\<close>

theorem find_values_is_leftmost_search:
  assumes "\<forall>n \<in> set ns. n \<noteq> []" and "ns \<noteq> []"
  shows "find_values (Some hs) ns = leftmost ns hs 0"
  using assms by (rule find_values_leftmost)

theorem find_values_is_leftmost_search_witness:
  "find_values (Some ''abcd'') [''x'', ''C''] = leftmost [''x'', ''C''] ''abcd'' 0"
  by (rule find_values_is_leftmost_search) simp_all

text \<open>
  (C19) Trimming a view that is not all blank gives the view of the trimmed text, without a read outside the block.
\<close>

theorem trim_is_reference:
  assumes "zwf z" and "\<exists>c \<in> set (zbytes z). \<not> isspace c"
  shows "\<exists>z'. ztrim z Both = Inr z' \<and> zwf z' \<and> zbytes z' = trim_ref isspace (zbytes z)"
  using assms by (rule ztrim_both)

theorem trim_is_reference_witness:
  "\<exists>z'. ztrim (zstring '' a '') Both = Inr z' \<and> zbytes z' = ''a''"
  using trim_is_reference [of "zstring '' a ''"] by (auto simp: trim_ref_def isspace_def)

subsection \<open>Routing\<close>



text \<open>
  (C21) Without wildcards a pattern and a target match exactly when one begins with the other: a request for
  part of a route's path is served by the route as well.
\<close>

theorem plain_paths_match_prefixes:
  assumes "\<forall>c \<in> set ls \<union> set rs. c \<noteq> CHR ''?'' \<and> c \<noteq> CHR ''*''"
  shows "path_compare ls rs \<longleftrightarrow> (\<exists>t. ls = rs @ t) \<or> (\<exists>t. rs = ls @ t)"
  using assms by (rule path_compare_plain)

theorem plain_paths_match_prefixes_witness:
  "path_compare ''/queue/'' ''/qu'' \<and> \<not> path_compare ''/queue/'' ''/qx''"
  using plain_paths_match_prefixes [of "''/queue/''" "''/qu''"] plain_paths_match_prefixes [of "''/queue/''" "''/qx''"] by simp

text \<open>
  Two paths whose first segments are different and of at most seven ASCII characters have different hashes: a
  wildcard in the first segment of a route never takes effect.
\<close>

theorem first_segment_decides:
  assumes "path_hash p = path_hash u" and "ascii_segment (first_segment p)" and "ascii_segment (first_segment u)"
  shows "first_segment p = first_segment u"
  using assms by (rule path_hash_short)

theorem first_segment_decides_witness:
  "path_compare ''/?/x'' ''/ab/x'' \<and> path_hash ''/?/x'' \<noteq> path_hash ''/ab/x''"
  using first_segment_decides [of "''/?/x''" "''/ab/x''"]
  by (auto simp: ascii_segment_def first_segment_def strip_slash_def NUL_def)

text \<open>
  (C22) A request that cannot be received or parsed is answered and its connection closed; the handler of the
  exception then answers once more, and this second answer is sent to descriptor 0.
\<close>

theorem rejected_request_second_answer:
  assumes "http_process e rcv fresh r (snd s) = (Inl x, w')"
    and "Raw (Http (heap (snd s) r)) = ReadBufferImpl u" and "request_wf (Request (Http (heap (snd s) r)))"
    and "MaxHeaderLength (Http (heap (snd s) r)) \<le> MaxRequestLength (Http (heap (snd s) r))"
  shows "\<exists>answer res evs. events (sockets (snd (snd (RouterImpl_Process e what rcv fresh pick rts r s)))) =
    events (sockets w') @ Sent 0 answer res # evs"
  using assms by (rule RouterImpl_Process_rejected)

theorem rejected_request_second_answer_witness:
  "\<exists>(w' :: world) answer res evs. events (sockets (snd (snd (RouterImpl_Process sample_env (\<lambda>_. []) (\<lambda>_. (Inl 110, None)) (\<lambda>_. NUL) 0 [] 1
      ((), sample_world))))) = events (sockets w') @ Sent 0 answer res # evs"
proof -
  obtain x w' where r: "http_process sample_env (\<lambda>_. (Inl 110, None)) (\<lambda>_. NUL) 1 (snd ((), sample_world)) = (Inl x, w')"
    using sample_rejected by auto
  have "Raw (Http (heap (snd ((), sample_world)) 1)) = ReadBufferImpl 0" "request_wf (Request (Http (heap (snd ((), sample_world)) 1)))"
    "MaxHeaderLength (Http (heap (snd ((), sample_world)) 1)) \<le> MaxRequestLength (Http (heap (snd ((), sample_world)) 1))"
    by (simp_all add: sample_world_def sample_fresh)
  from rejected_request_second_answer [OF r this, of "\<lambda>_. []" 0 "[]"] show ?thesis by blast
qed

subsection \<open>Configuration and options\<close>



text \<open>
  (C24) Splitting a text at a delimiter ends, for every limit, and joining the pieces gives the text back.
\<close>

theorem explode_ends_and_implode_inverts:
  assumes "del \<noteq> []" and "s \<noteq> []"
  shows "\<exists>ps. explode del s limit = Some ps \<and> implode del ps = Inr s"
  using assms by (rule explode_terminates)

theorem explode_ends_and_implode_inverts_witness:
  "\<exists>ps. explode '':'' ''a:b:c'' 2 = Some ps \<and> implode '':'' ps = Inr ''a:b:c''"
  by (rule explode_ends_and_implode_inverts) simp_all

text \<open>
  (C25) A printed number followed by a unit, with blanks around the number, is read as that number of bytes, modulo
  \<open>2 ^ 64\<close>, whatever follows.
\<close>

theorem size_option_is_read:
  assumes "\<forall>c \<in> set ws. isspace c" and "n < 2 ^ 64" and "\<forall>c \<in> set ws'. isspace c" and "unit_text u"
  shows "get_bytes (ws @ to_string n @ ws' @ u @ t) d = Inr (n * 2 ^ unit_shift u mod 2 ^ 64)"
  using assms by (rule get_bytes_unit)

theorem size_option_is_read_witness: "get_bytes ('' '' @ to_string 7 @ '' '' @ ''K'' @ ''B'') 0 = Inr 7168"
  using size_option_is_read [of "'' ''" 7 "'' ''" "''K''" "''B''" 0] by (simp add: isspace_def unit_text_def unit_shift_def)

subsection \<open>Workers\<close>

text \<open>
  (C26) In every reachable state of the pool, with its workers and the thread that enqueues interleaved in any order,
  there are at most \<open>PoolMaxWorkers\<close> workers, all the persistent ones are there, and the count of busy workers
  is the number of workers that run a task.
\<close>

theorem pool_stays_within_limit:
  assumes "ThreadPool hw arrange a b c d = Inr p" and "PoolMaxWorkers p < 2 ^ 62" and "reach (pstep nd) (pool_start p) s"
  shows "length (PoolWorkers (pl s)) \<le> PoolMaxWorkers (pl s) \<and>
    (\<forall>k < PoolInitWorkers (pl s). (k, sPersistent) \<in> set (PoolWorkers (pl s))) \<and>
    PoolBusyWorkers (pl s) = int (card (running s))"
proof -
  have "pool_inv s" using pool_limit.reachable_ok [OF assms(3)] assms(1,2) by blast
  then show ?thesis by (auto simp: pool_inv_def)
qed

theorem pool_stays_within_limit_witness:
  "\<exists>s. reach (pstep True) (pool_start sample_workers) s \<and> PoolTasks (pl s) = [9] \<and> length (PoolWorkers (pl s)) \<le> PoolMaxWorkers (pl s)"
proof -
  let ?s = "(pool_start sample_workers)\<lparr>pl := sample_workers\<lparr>PoolTasks := [9]\<rparr>, snap := Some (2, 1), enqueued := [9]\<rparr>"
  have "pstep True (pool_start sample_workers) ?s"
    using p_enqueue [of "pool_start sample_workers" 9 "(2, 1)" "sample_workers\<lparr>PoolTasks := [9]\<rparr>" True]
    by (simp add: pool_start_def enqueue_section_def sample_workers_def Hire_eq)
  then have r: "reach (pstep True) (pool_start sample_workers) ?s" by (rule reach_one)
  then show ?thesis
    using pool_stays_within_limit [OF sample_thread_pool _ r] by (intro exI [of _ ?s]) (simp add: sample_workers_def Hire_eq)
qed

text \<open>
  Tasks are started in the order in which they were enqueued, each at most once, and none is lost while the pool
  runs: the started ones followed by the waiting ones are the enqueued ones.
\<close>

theorem pool_starts_tasks_in_order:
  assumes "ThreadPool hw arrange a b c d = Inr p" and "reach (pstep nd) (pool_start p) s"
  shows "started s @ PoolTasks (pl s) = enqueued s"
  using tasks.reachable_ok [OF assms(2)] ThreadPool_created [OF assms(1)] by blast

theorem pool_starts_tasks_in_order_witness:
  "started (pool_start sample_workers) @ PoolTasks (pl (pool_start sample_workers)) = enqueued (pool_start sample_workers)"
  by (rule pool_starts_tasks_in_order [where nd = True, OF sample_thread_pool reach_init])

text \<open>
  (C27) Every task is run: from every reachable state of a running pool, whatever the workers do from then on ends, in
  whatever order they run, as long as nothing more is enqueued, and it ends with no task waiting, no worker at
  work, and every accepted task run exactly once (its outcome, a result or an exception, kept for its future).
\<close>

theorem pool_runs_every_task:
  assumes "ThreadPool hw arrange a b c d = Inr p" and "PoolMaxWorkers p < 2 ^ 62" and "reach (pstep nd) (pool_start p) s"
    and "PoolYet (pl s)"
  shows "inevitable (work_step nd)
    (\<lambda>s'. PoolTasks (pl s') = [] \<and> working s' = {} \<and> started s' = enqueued s \<and> mset (map fst (outcomes s')) = mset (enqueued s)) s"
proof -
  have "run_inv s" using pool_run.reachable_ok [OF assms(3)] assms(1,2) by blast
  then have "inevitable (work_step nd) (all_done (enqueued s)) s" using assms(4) by (intro pool_work.start_inevitable) simp
  then show ?thesis by (simp add: all_done_def [abs_def])
qed

theorem pool_runs_every_task_witness:
  "\<exists>s s'. reach (pstep True) (pool_start sample_workers) s \<and> PoolTasks (pl s) = [9] \<and> reach (work_step True) s s' \<and>
    PoolTasks (pl s') = [] \<and> map fst (outcomes s') = [9]"
proof -
  let ?s = "(pool_start sample_workers)\<lparr>pl := sample_workers\<lparr>PoolTasks := [9]\<rparr>, snap := Some (2, 1), enqueued := [9]\<rparr>"
  have "pstep True (pool_start sample_workers) ?s"
    using p_enqueue [of "pool_start sample_workers" 9 "(2, 1)" "sample_workers\<lparr>PoolTasks := [9]\<rparr>" True]
    by (simp add: pool_start_def enqueue_section_def sample_workers_def Hire_eq)
  then have r: "reach (pstep True) (pool_start sample_workers) ?s" by (rule reach_one)
  have "PoolMaxWorkers sample_workers < 2 ^ 62" "PoolYet (pl ?s)" by (simp_all add: sample_workers_def Hire_eq)
  from inevitable_reach [OF pool_runs_every_task [OF sample_thread_pool this(1) r this(2)]]
  obtain s' where "reach (work_step True) ?s s'" "PoolTasks (pl s') = []" "mset (map fst (outcomes s')) = mset [9]" by auto
  moreover from this(3) have "mset (map fst (outcomes s')) = {#9#}" by simp
  then have "map fst (outcomes s') = [9]" by (simp only: mset_single_iff)
  ultimately show ?thesis using r by (intro exI [of _ ?s] exI [of _ s']) simp
qed

text \<open>
  (C28) Workers that leave a release build's pool are not forgotten: the erasing of a leaving worker is an argument of
  a debugging macro. They keep their places in the map, so once the map has been full, a worker that left
  is never replaced and no other is hired, however many tasks wait.
\<close>

theorem release_pool_never_rehires:
  assumes "ThreadPool hw arrange a b c d = Inr p" and "PoolMaxWorkers p < 2 ^ 62" and "reach (pstep True) (pool_start p) s"
    and "length (PoolWorkers (pl s)) = PoolMaxWorkers (pl s)" and "reach (pstep True) s s'"
  shows "PoolWorkers (pl s') = PoolWorkers (pl s) \<and> (\<forall>i. wpcs s i = WGone \<longrightarrow> wpcs s' i = WGone)"
proof -
  have "pool_inv s" using pool_limit.reachable_ok [OF assms(3)] assms(1,2) by blast
  then show ?thesis using release_pool_frozen [OF assms(5) _ assms(4)] by blast
qed

theorem release_pool_never_rehires_witness:
  "\<exists>s. reach (pstep True) (pool_start small_pool) s \<and> PoolWorkers (pl s) = [(0, sPersistent), (1, sExtended)] \<and>
    (\<forall>s'. reach (pstep True) s s' \<longrightarrow> PoolWorkers (pl s') = [(0, sPersistent), (1, sExtended)] \<and> wpcs s' 1 = WGone)"
proof -
  obtain s where s: "reach (pstep True) (pool_start small_pool) s" "PoolWorkers (pl s) = [(0, sPersistent), (1, sExtended)]"
      "PoolMaxWorkers (pl s) = 2" "wpcs s 1 = WGone"
    using small_pool_left by blast
  have m: "PoolMaxWorkers small_pool < 2 ^ 62" "length (PoolWorkers (pl s)) = PoolMaxWorkers (pl s)"
    by (simp_all add: small_pool_def s)
  from release_pool_never_rehires [OF small_thread_pool m(1) s(1) m(2)] show ?thesis
    using s by (intro exI [of _ s]) auto
qed

text \<open>
  (C29) A stopped pool refuses further tasks, and its workers start none of those still waiting: they are dropped.
\<close>

theorem stopped_pool_starts_nothing:
  assumes "reach (pstep nd) s s'" and "\<not> PoolYet (pl s)"
  shows "PoolTasks (pl s') = PoolTasks (pl s) \<and> started s' = started s \<and>
    fst (Enqueue t (pl s')) = Inl (StdRuntimeError ''enqueue on stopped ThreadPool'')"
proof -
  have "\<not> PoolYet (pl s') \<and> PoolTasks (pl s') = PoolTasks (pl s) \<and> started s' = started s"
    using assms by (induction rule: reach.induct) (auto dest: pstep_stopped)
  then show ?thesis by (simp add: Enqueue_def enqueue_section_def)
qed

theorem stopped_pool_starts_nothing_witness:
  "fst (Enqueue 8 (pl (pool_start (Join (sample_workers\<lparr>PoolTasks := [9]\<rparr>))))) = Inl (StdRuntimeError ''enqueue on stopped ThreadPool'')"
  using stopped_pool_starts_nothing [where nd = True, OF reach_init, of "pool_start (Join (sample_workers\<lparr>PoolTasks := [9]\<rparr>))" 8]
  by (simp add: pool_start_def Join_def)

text \<open>
  (C30) \<open>Join\<close> returns. A pool in any state its operations can bring about is stopped while nothing is being enqueued. If
  the tasks that run come to an end, then however the workers are scheduled, after finitely many steps the thread
  of every worker in the map has ended; by then every task that was taken is done, exactly once, and the tasks that
  waited are still there, none of them started.
\<close>

theorem pool_join_returns:
  assumes "ThreadPool hw arrange a b c d = Inr p" and "PoolMaxWorkers p < 2 ^ 62"
    and "reach (pstep ndebug) (pool_start p) s" and "snap s = None"
  shows "inevitable (stop_step ndebug)
    (\<lambda>s'. all_joined s' \<and> PoolTasks (pl s') = PoolTasks (pl s) \<and> started s' = started s \<and> mset (map fst (outcomes s')) = mset (started s))
    (s\<lparr>pl := Join (pl s)\<rparr>)"
proof -
  have "run_inv s" by (rule pool_run.reachable_ok [OF assms(3)]) (use assms(1,2) in blast)
  then show ?thesis using assms(4) by (rule Join_returns)
qed

theorem pool_join_returns_witness:
  "inevitable (stop_step True) (\<lambda>s'. all_joined s' \<and> PoolTasks (pl s') = [] \<and> started s' = [] \<and> mset (map fst (outcomes s')) = {#})
    ((pool_start sample_workers)\<lparr>pl := Join sample_workers\<rparr>)"
proof -
  have p: "PoolMaxWorkers sample_workers < 2 ^ 62" "PoolTasks sample_workers = []" by (simp_all add: sample_workers_def Hire_eq)
  have s: "snap (pool_start sample_workers) = None" "pl (pool_start sample_workers) = sample_workers" "started (pool_start sample_workers) = []"
    by (simp_all add: pool_start_def)
  from pool_join_returns [OF sample_thread_pool p(1) reach_init s(1), of True] show ?thesis unfolding s p(2) by simp
qed

text \<open>Every worker, hired at the start or later, is bound to one existing core that was not excluded.\<close>

theorem workers_on_allowed_cores:
  assumes "ThreadPool hw arrange a b c x = Inr p" and "\<And>S. finite S \<Longrightarrow> set (arrange S) = S" and "hw \<le> 1024"
    and "reach (pstep ndebug) (pool_start p) s"
  shows "\<exists>core. set_thread_affinity (worker_core (pl s) i) = {core} \<and> core < hw \<and> (\<exists>ex. expand x = Inr ex \<and> word_of_nat core \<notin> ex)"
  using assms by (rule worker_core_allowed)

text \<open>
  (C31) The threads of a \<open>SyncSAPIHandler\<close>, in every reachable state of any interleaving: their number is counted, it is
  within \<open>LimitTasks\<close>, and messages are fetched in the order in which they were stored, each once.
\<close>

theorem sapi_threads_within_limit:
  assumes "reach xstep (sapi_start q) s" and "sx_workers q = 0" and "sx_queue q = []" and "sx_LimitTasks q < 2 ^ 31"
  shows "sx_workers (sx s) = int (card (live s)) \<and> (sx_LimitTasks (sx s) \<noteq> 0 \<longrightarrow> card (live s) \<le> sx_LimitTasks (sx s)) \<and>
    fetched s @ sx_queue (sx s) = stored s"
proof -
  have "sapi_idle (sapi_start q)" using assms by (auto simp: sapi_idle_def)
  then have "xinv s" using sapi_threads.reachable_ok [OF assms(1)] by blast
  then show ?thesis by (auto simp: xinv_def)
qed

theorem sapi_threads_within_limit_witness:
  "\<exists>s. reach xstep (sapi_start sample_sapi) s \<and> sx_queue (sx s) = [3] \<and> sx_workers (sx s) = int (card (live s))"
proof -
  obtain q where q: "sapi_put_section False 3 1 sample_sapi = (Inr (True, True), q)" "sx_queue q = [3]"
    by (simp add: sapi_put_section_eq sample_sapi_def int32_def)
  have "xstep (sapi_start sample_sapi) ((sapi_start sample_sapi)\<lparr>sx := q, xpcs := (xpcs (sapi_start sample_sapi))(0 := XTop),
      stored := stored (sapi_start sample_sapi) @ [3]\<rparr>)"
    by (rule x_put_start [where m = 3 and r = 1]) (use q in \<open>simp_all add: sapi_start_def sample_sapi_def\<close>)
  then have r: "reach xstep (sapi_start sample_sapi) ((sapi_start sample_sapi)\<lparr>sx := q, xpcs := (xpcs (sapi_start sample_sapi))(0 := XTop),
      stored := stored (sapi_start sample_sapi) @ [3]\<rparr>)" by (rule reach_one)
  from sapi_threads_within_limit [OF r] r q(2) show ?thesis
    by (intro exI conjI) (assumption, simp_all add: sample_sapi_def)
qed

text \<open>
  A thread that runs alone, on connections that take what they are sent, ends after it has answered every
  message of the queue, and then is no longer counted.
\<close>

theorem sapi_thread_drains_queue:
  assumes "sends_all e" and "readable e" and "sapi_inv (fst s)" and "sx_working (fst s)"
  shows "\<exists>s'. ExecuteThread mv (RequestImpl e qy) s = (Inr (), s') \<and> sx_queue (fst s') = [] \<and>
    sx_workers (fst s') = sx_workers (fst s) - 1"
  using assms(3,4) by (rule ExecuteThread_drains) (rule execute_reply_sent [OF assms(1,2)])

theorem sapi_thread_drains_queue_witness:
  "\<exists>s'. ExecuteThread False (RequestImpl sample_env (\<lambda>_. True))
      (sample_sapi\<lparr>sx_queue := [3], sx_messages := [(3, Some 1)], sx_workers := 1\<rparr>, sample_world) = (Inr (), s') \<and>
    sx_queue (fst s') = [] \<and> sx_workers (fst s') = 0"
  using sapi_thread_drains_queue [OF sample_env_ok, of "(sample_sapi\<lparr>sx_queue := [3], sx_messages := [(3, Some 1)], sx_workers := 1\<rparr>, sample_world)"
      False "\<lambda>_. True"]
  by (simp add: sapi_inv_def sample_sapi_def)



text \<open>
  (C33) A message can be stranded: one stored between a thread's last look at the queue and its leaving the count, with
  the limit reached, starts no thread and is fetched by none.
\<close>

theorem sapi_message_stranded:
  assumes "sx_working q" and "sx_LimitTasks q = 1" and "sx_LimitSize q = 0" and "sx_workers q = 0" and "sx_queue q = []"
    and "sx_messages q = []" and "m \<noteq> m'"
  shows "\<exists>s. reach xstep (sapi_start q) s \<and> sx_queue (sx s) = [m'] \<and> (\<forall>t. xpcs s t = XNone)"
  using stranded_reachable [OF assms] by (auto simp: stranded_def)

theorem sapi_message_stranded_witness:
  "\<exists>s. reach xstep (sapi_start sample_sapi) s \<and> sx_queue (sx s) = [2] \<and> (\<forall>t. xpcs s t = XNone)"
  by (rule sapi_message_stranded [of _ 1]) (simp_all add: sample_sapi_def)

subsection \<open>Server and kernel\<close>

text \<open>
  (C34) Opening a listener: when it fails the socket is closed again, when it succeeds it is kept.
\<close>

theorem open_leaves_no_socket:
  assumes "Open os device port = (Returned err, fd, closed)" and "0 < fd"
  shows "closed = (if err = 0 then [] else [fd])"
  using assms by (auto simp: Open_def Let_def split: if_splits sum.splits prod.splits)

theorem open_leaves_no_socket_witness:
  "\<exists>err. Open \<lparr>os_socket = (5, 0), os_reuseaddr = 0, os_bindtodevice = (\<lambda>_. 19), os_bind = (\<lambda>_. 0), os_listen = (\<lambda>_. 0)\<rparr> ''eth9'' ''80'' =
    (Returned err, 5, [5])"
  using open_leaves_no_socket [of "\<lparr>os_socket = (5, 0), os_reuseaddr = 0, os_bindtodevice = (\<lambda>_. 19), os_bind = (\<lambda>_. 0), os_listen = (\<lambda>_. 0)\<rparr>"
      "''eth9''" "''80''" 19 5 "[5]"]
  by (simp add: Open_def)

text \<open>
  (C35) All connections the main loop hands to the pool, in however many rounds and on however many listeners, have
  different message identifiers, as long as the counter has not left 32 bits.
\<close>

theorem connection_ids_distinct:
  assumes "main_loop ts p sv = (r, cs, sv')" and "unat (msgIndex sv) + length cs \<le> 2 ^ 32"
  shows "distinct (map c_msgid cs)"
  using assms by (rule main_loop_distinct)

theorem connection_ids_distinct_witness:
  "\<exists>r cs sv'. main_loop [sample_tick [], sample_tick []] 0 sample_server_state = (r, cs, sv') \<and> length cs = 2 \<and> distinct (map c_msgid cs)"
proof -
  obtain r cs sv' where m: "main_loop [sample_tick [], sample_tick []] 0 sample_server_state = (r, cs, sv')" and l: "length cs = 2"
    using sample_rounds by blast
  have "unat (msgIndex sample_server_state) + length cs \<le> 2 ^ 32" by (simp add: l sample_server_state_def)
  from connection_ids_distinct [OF m this] m l show ?thesis by blast
qed

text \<open>
  (C36) What a successful start-up leaves: a route at least, every route under a path with a final slash, a listener at
  least, each with its limits, and a pool of as many idle persistent workers as configured, within the limit.
\<close>

theorem startup_is_complete:
  assumes "startup_from b c = Inr s"
  shows "fiberRouter s \<noteq> [] \<and>
    (\<forall>(p, mq) \<in> set (fiberRouter s). \<exists>uri. p = cpathstring uri \<and> uri \<noteq> [] \<and> last uri = CHR ''/'') \<and>
    server_inv (fiberServer s) \<and> conFd (fiberServer s) \<noteq> [] \<and>
    0 < PoolInitWorkers (fiberWorkers s) \<and> PoolInitWorkers (fiberWorkers s) \<le> PoolMaxWorkers (fiberWorkers s) \<and>
    PoolWorkers (fiberWorkers s) = map (\<lambda>k. (k, sPersistent)) [0..<PoolInitWorkers (fiberWorkers s)] \<and> PoolTasks (fiberWorkers s) = []"
  using startup_from_sound [OF assms] ThreadPool_created by blast

theorem startup_is_complete_witness:
  "\<exists>s. startup_from sample_boot sample_config = Inr s \<and> length (fiberRouter s) = 1 \<and> server_inv (fiberServer s) \<and> conFd (fiberServer s) \<noteq> []"
proof -
  obtain s where s: "startup_from sample_boot sample_config = Inr s" "length (fiberRouter s) = 1" using sample_startup by blast
  from startup_is_complete [OF s(1)] s show ?thesis by blast
qed



text \<open>
  (C38) One queue module whose section lacks class or module, or that the object framework does not accept, ends the
  program at start-up, whatever else is configured, and not with the error that is logged for it.
\<close>

theorem rejected_module_ends_program:
  assumes "configure b = Inr c" and "mq \<in> set (GetSections (at2 c ''fiber'' ''mq''))"
    and "module_rejected (b_EmplaceServer b) ''MQ''
      (GetConfigValue (at2 c ''fiber'' ''mq'') ''modules-dir'' (GetProgramDir (at2 c ''fiber'' ''mq''))) (at2 c ''fiber'' ''mq'') mq"
  shows "Startup b = Died Terminate"
  using load_modules_rejected [OF assms(2,3)] assms(1) by (simp add: Startup_def startup_from_def initMQ_def)

theorem rejected_module_ends_program_witness: "Startup broken_boot = Died Terminate"
  by (rule rejected_module_ends_program [where mq = "''sync''"])
    (simp_all add: broken_configure, simp_all add: module_rejected_def broken_config_def at2_def config_at_def GetSections_def
      GetConfigValue_def last_dot_def)

text \<open>
  (C39) The main loop is left for \<open>SIGINT\<close> and \<open>SIGQUIT\<close> only. The handlers are registered for the positions of the
  signals in the list and not for the signals: \<open>SIGTERM\<close> and \<open>SIGSEGV\<close> keep their default action.
\<close>

theorem sigterm_is_not_handled:
  assumes "main_loop ts 0 sv = (SignalExit s, cs, sv')"
  shows "(s = SIGINT \<or> s = SIGQUIT) \<and> run_handlers SIGTERM = SIG_DFL \<and> run_handlers SIGSEGV = SIG_DFL"
  using main_loop_exit [OF assms] by (simp add: run_handlers_eq SIGTERM_def SIGSEGV_def SIGPIPE_def)

theorem sigterm_is_not_handled_witness:
  "main_loop [idle_tick [SIGINT]] 0 Server = (SignalExit SIGINT, [], Server) \<and> run_handlers SIGTERM = SIG_DFL"
proof -
  have m: "main_loop [idle_tick [SIGINT]] 0 Server = (SignalExit SIGINT, [], Server)"
    by (simp add: idle_tick_def sample_tick_def Listen_def run_handlers_eq exit_signal_def SIGINT_def)
  from sigterm_is_not_handled [OF m] m show ?thesis by blast
qed

subsection \<open>JSON\<close>



end
